(* ===== verification/Shardscape_Prelude.thy ===== *)
theory Shardscape_Prelude
  imports
    Main
    "HOL-Library.Word"
    "HOL-Library.AList"
    "HOL-Library.Char_ord"
    "HOL-Library.List_Lexorder"
    "HOL-Library.Multiset"
    "HOL-Library.Signed_Division"
    "HOL-Library.Sublist"
begin

text \<open>
  Shared vocabulary of the development: the types every component uses, the row
  operations of the SQL statements in \<^verbatim>\<open>src/src/store.rs\<close> as operations on association
  lists, fixed-width integers where the code computes with them, and the generic lemmas on
  lists and on the byte order of strings.

  Conventions.
  \<^item> A Rust \<^verbatim>\<open>String\<close> is the list of its UTF-8 bytes, as an Isabelle \<open>string\<close>. The
    lexicographic order on it is the byte order that both Rust's \<open>str\<close> comparison and SQLite's
    \<^verbatim>\<open>BINARY\<close> collation use.
  \<^item> A \<^verbatim>\<open>Vec<u8>\<close> of raw data (block bytes, hashes, location tokens) is a list of 8-bit words.
  \<^item> An \<^verbatim>\<open>i64\<close> is an \<open>int\<close>; where the code computes with it the result goes through
    \<open>wrap_i64\<close>, the wrap-around of a release build.
  \<^item> A SQL table with a primary key is an association list from the key to the rest of the row,
    in row order, without duplicate keys.
\<close>

unbundle bit_operations_syntax

section \<open>Types\<close>

type_synonym byte = "8 word"
type_synonym bytes = "byte list"
type_synonym hash = bytes
type_synonym fid = bytes
type_synonym location = string
type_synonym ('k, 'v) table = "('k \<times> 'v) list"

named_theorems table_simps \<open>lookup laws of the row operations\<close>
named_theorems store_defs \<open>definitions of the operations of the metadata store\<close>
named_theorems handler_defs \<open>definitions of the request handlers\<close>

section \<open>Fixed-width integers\<close>

definition wrap_i64 :: "int \<Rightarrow> int" where
  "wrap_i64 x = (x + 2 ^ 63) mod 2 ^ 64 - 2 ^ 63"

definition wrap_u64 :: "int \<Rightarrow> int" where
  "wrap_u64 x = x mod 2 ^ 64"

definition in_i64 :: "int \<Rightarrow> bool" where
  "in_i64 x \<longleftrightarrow> - (2 ^ 63) \<le> x \<and> x < 2 ^ 63"

lemma wrap_i64_id [simp]: "in_i64 x \<Longrightarrow> wrap_i64 x = x"
  by (simp add: wrap_i64_def in_i64_def)

lemma in_i64_wrap [simp]: "in_i64 (wrap_i64 x)"
  using pos_mod_bound [of "2 ^ 64" "x + 2 ^ 63"] by (simp add: wrap_i64_def in_i64_def)

lemma wrap_u64_id [simp]: "0 \<le> x \<Longrightarrow> x < 2 ^ 64 \<Longrightarrow> wrap_u64 x = x"
  by (simp add: wrap_u64_def)

section \<open>Panics\<close>

text \<open>A Rust call either panics or returns a value.\<close>

datatype 'a run = Panic | Value 'a

definition bind_run :: "'a run \<Rightarrow> ('a \<Rightarrow> 'b run) \<Rightarrow> 'b run" where
  "bind_run r f = (case r of Panic \<Rightarrow> Panic | Value x \<Rightarrow> f x)"

lemma bind_run_simps [simp]:
  "bind_run Panic f = Panic"
  "bind_run (Value x) f = f x"
  by (simp_all add: bind_run_def)

section \<open>Row operations of the SQL statements\<close>

text \<open>
  \<^verbatim>\<open>INSERT ... ON CONFLICT DO UPDATE\<close> (every column overwritten) is \<open>AList.update\<close>:
  it overwrites the row with that key in place or appends a new one. \<open>insert_ignore\<close> is
  \<^verbatim>\<open>ON CONFLICT DO NOTHING\<close>. \<open>upsert_newer\<close> is the last-write-wins form, whose update
  carries the condition \<^verbatim>\<open>WHERE excluded.updated_at > t.updated_at\<close>.
\<close>

definition insert_ignore :: "'k \<Rightarrow> 'v \<Rightarrow> ('k, 'v) table \<Rightarrow> ('k, 'v) table" where
  "insert_ignore k v t = (if map_of t k = None then t @ [(k, v)] else t)"

definition upsert_newer :: "('v \<Rightarrow> int) \<Rightarrow> 'k \<Rightarrow> 'v \<Rightarrow> ('k, 'v) table \<Rightarrow> ('k, 'v) table" where
  "upsert_newer stamp k v t =
     (case map_of t k of
        None \<Rightarrow> t @ [(k, v)]
      | Some w \<Rightarrow> if stamp v > stamp w then AList.update k v t else t)"

definition delete_where :: "('k \<times> 'v \<Rightarrow> bool) \<Rightarrow> ('k, 'v) table \<Rightarrow> ('k, 'v) table" where
  "delete_where p t = filter (\<lambda>r. \<not> p r) t"

abbreviation table_ok :: "('k, 'v) table \<Rightarrow> bool" where
  "table_ok t \<equiv> distinct (map fst t)"

definition lww_join :: "('v \<Rightarrow> int) \<Rightarrow> 'v option \<Rightarrow> 'v \<Rightarrow> 'v" where
  "lww_join stamp old v = (case old of None \<Rightarrow> v | Some w \<Rightarrow> if stamp v > stamp w then v else w)"

lemma lww_join_simps [simp]:
  "lww_join stamp None v = v"
  "lww_join stamp (Some w) v = (if stamp v > stamp w then v else w)"
  by (simp_all add: lww_join_def)

lemma map_of_upsert_newer [table_simps]:
  "map_of (upsert_newer stamp k v t) = (map_of t)(k \<mapsto> lww_join stamp (map_of t k) v)"
  by (auto simp: upsert_newer_def fun_eq_iff AList.update_conv' map_add_def split: option.split)

lemma map_of_insert_ignore [table_simps]:
  "map_of (insert_ignore k v t) = (map_of t)(k \<mapsto> case map_of t k of None \<Rightarrow> v | Some w \<Rightarrow> w)"
  by (auto simp: insert_ignore_def fun_eq_iff map_add_def split: option.split)

lemmas table_lookup [table_simps] = AList.update_conv' AList.delete_conv'

lemma dom_upsert_newer:
  "fst ` set (upsert_newer stamp k v t) = insert k (fst ` set t)"
  by (auto simp: upsert_newer_def AList.dom_update image_iff
      dest!: map_of_SomeD split: option.split) force

lemma table_ok_upsert_newer [simp]: "table_ok t \<Longrightarrow> table_ok (upsert_newer stamp k v t)"
  by (auto simp: upsert_newer_def AList.distinct_update map_of_eq_None_iff split: option.split)

lemma table_ok_insert_ignore [simp]: "table_ok t \<Longrightarrow> table_ok (insert_ignore k v t)"
  by (auto simp: insert_ignore_def map_of_eq_None_iff)

lemma table_ok_delete_where [simp]: "table_ok t \<Longrightarrow> table_ok (delete_where p t)"
  by (simp add: delete_where_def distinct_map_filter)

lemmas table_ok_lib [simp] = AList.distinct_update AList.distinct_delete

lemma map_of_delete_where:
  assumes "table_ok t"
  shows "map_of (delete_where p t) k =
    (case map_of t k of None \<Rightarrow> None | Some v \<Rightarrow> if p (k, v) then None else Some v)"
  using assms by (induction t) (auto simp: delete_where_def map_of_eq_None_iff split: option.split)

lemma set_table_iff: "table_ok t \<Longrightarrow> (k, v) \<in> set t \<longleftrightarrow> map_of t k = Some v"
  by simp

section \<open>Strings in byte order\<close>

definition as_bytes :: "string \<Rightarrow> bytes" where
  "as_bytes s = map of_char s"

abbreviation byte_of :: "char \<Rightarrow> nat" where
  "byte_of c \<equiv> of_char c"

lemma byte_of_less_256 [simp]: "byte_of c < 256"
  by simp

lemma char_less_byte: "(c < d) = (byte_of c < byte_of d)"
  by (simp add: less_char_def)

lemma append_less_iff [simp]: "(xs @ ys < xs @ zs) = (ys < (zs :: 'a :: linorder list))"
  by (induction xs) auto

lemma append_le_iff [simp]: "(xs @ ys \<le> xs @ zs) = (ys \<le> (zs :: 'a :: linorder list))"
  by (induction xs) auto

lemma prefix_le: "prefix p k \<Longrightarrow> p \<le> (k :: 'a :: linorder list)"
  by (metis append_le_iff append.right_neutral Nil_le_Cons list.exhaust order_refl prefixE)

text \<open>\<^verbatim>\<open>str::strip_prefix\<close>.\<close>

definition strip_prefix :: "string \<Rightarrow> string \<Rightarrow> string option" where
  "strip_prefix p s = (if prefix p s then Some (drop (length p) s) else None)"

lemma strip_prefix_append [simp]: "strip_prefix p (p @ s) = Some s"
  by (simp add: strip_prefix_def)

end
