(* ===== verification/Hashing.thy ===== *)
theory Hashing
  imports Shardscape_Prelude
begin

text \<open>
  \<^verbatim>\<open>src/src/hashing.rs\<close>: the shard index of a key and the key range of a listing prefix. The
  digest function (the crate \<^verbatim>\<open>blake3\<close>) is a parameter. \<^verbatim>\<open>String::from_utf8(..).expect(..)\<close>
  panics on bytes that are not UTF-8, so the well-formedness of UTF-8 is part of the model.
\<close>

section \<open>Shard index\<close>

definition NUM_SHARDS :: int where
  "NUM_SHARDS = 64"

text \<open>The digest is an array of 32 bytes, so it has a first byte.\<close>

definition digest_ok :: "(bytes \<Rightarrow> hash) \<Rightarrow> bool" where
  "digest_ok blake3 \<longleftrightarrow> (\<forall>d. length (blake3 d) = 32)"

definition compute_shard_id :: "(bytes \<Rightarrow> hash) \<Rightarrow> string \<Rightarrow> int" where
  "compute_shard_id blake3 key = uint (hd (blake3 (as_bytes key))) AND (NUM_SHARDS - 1)"

section \<open>UTF-8\<close>

definition utf8_cont :: "nat \<Rightarrow> bool" where
  "utf8_cont b \<longleftrightarrow> 128 \<le> b \<and> b \<le> 191"

definition utf8_second3 :: "nat \<Rightarrow> nat \<Rightarrow> bool" where
  "utf8_second3 a b \<longleftrightarrow>
     (if a = 224 then 160 \<le> b \<and> b \<le> 191 else if a = 237 then 128 \<le> b \<and> b \<le> 159 else utf8_cont b)"

definition utf8_second4 :: "nat \<Rightarrow> nat \<Rightarrow> bool" where
  "utf8_second4 a b \<longleftrightarrow>
     (if a = 240 then 144 \<le> b \<and> b \<le> 191 else if a = 244 then 128 \<le> b \<and> b \<le> 143 else utf8_cont b)"

fun utf8_bytes :: "nat list \<Rightarrow> bool" where
  "utf8_bytes [] = True"
| "utf8_bytes [a] = (a < 128)"
| "utf8_bytes [a, b] =
     (if a < 128 then utf8_bytes [b] else 194 \<le> a \<and> a \<le> 223 \<and> utf8_cont b)"
| "utf8_bytes [a, b, c] =
     (if a < 128 then utf8_bytes [b, c]
      else if a \<le> 223 then 194 \<le> a \<and> utf8_cont b \<and> utf8_bytes [c]
      else a \<le> 239 \<and> utf8_second3 a b \<and> utf8_cont c)"
| "utf8_bytes (a # b # c # d # r) =
     (if a < 128 then utf8_bytes (b # c # d # r)
      else if a \<le> 223 then 194 \<le> a \<and> utf8_cont b \<and> utf8_bytes (c # d # r)
      else if a \<le> 239 then utf8_second3 a b \<and> utf8_cont c \<and> utf8_bytes (d # r)
      else a \<le> 244 \<and> utf8_second4 a b \<and> utf8_cont c \<and> utf8_cont d \<and> utf8_bytes r)"

definition valid_utf8 :: "string \<Rightarrow> bool" where
  "valid_utf8 s = utf8_bytes (map byte_of s)"

section \<open>Key range of a prefix\<close>

text \<open>The loop of \<^verbatim>\<open>increment_prefix\<close>, on the bytes with the last one first.\<close>

fun increment_rev :: "char list \<Rightarrow> char list option" where
  "increment_rev [] = None"
| "increment_rev (b # bs) =
     (if byte_of b < 255 then Some (char_of (byte_of b + 1) # bs) else increment_rev bs)"

definition increment_prefix :: "string \<Rightarrow> string option run" where
  "increment_prefix pfx =
     (case increment_rev (rev pfx) of
        None \<Rightarrow> Value None
      | Some bs \<Rightarrow> if valid_utf8 (rev bs) then Value (Some (rev bs)) else Panic)"

definition prefix_key_range :: "string \<Rightarrow> (string \<times> string option) run" where
  "prefix_key_range pfx =
     bind_run (increment_prefix pfx) (\<lambda>upper. Value (pfx, upper))"

section \<open>Properties\<close>

lemma compute_shard_id_range:
  "digest_ok blake3 \<Longrightarrow> 0 \<le> compute_shard_id blake3 key \<and> compute_shard_id blake3 key < NUM_SHARDS"
  using AND_upper2 [of 63 "uint (hd (blake3 (as_bytes key)))"]
  by (simp add: compute_shard_id_def NUM_SHARDS_def)

text \<open>The same increment, from the front.\<close>

fun increment_front :: "char list \<Rightarrow> char list option" where
  "increment_front [] = None"
| "increment_front (c # cs) =
     (case increment_front cs of
        Some u \<Rightarrow> Some (c # u)
      | None \<Rightarrow> if byte_of c < 255 then Some [char_of (byte_of c + 1)] else None)"

lemma increment_rev_snoc:
  "increment_rev (xs @ [c]) =
     (case increment_rev xs of
        Some u \<Rightarrow> Some (u @ [c])
      | None \<Rightarrow> if byte_of c < 255 then Some [char_of (byte_of c + 1)] else None)"
  by (induction xs) auto

lemma increment_front_rev: "map_option rev (increment_rev (rev p)) = increment_front p"
  by (induction p) (auto simp: increment_rev_snoc split: option.splits)

lemma char_less_succ:
  "byte_of c < 255 \<Longrightarrow> d < char_of (byte_of c + 1) \<longleftrightarrow> byte_of d \<le> byte_of c"
  by (simp add: char_less_byte of_char_mod_256 less_Suc_eq_le)

lemma increment_front_range:
  "prefix p k \<longleftrightarrow> p \<le> k \<and> (case increment_front p of None \<Rightarrow> True | Some u \<Rightarrow> k < u)"
proof (induction p arbitrary: k)
  case (Cons c cs)
  show ?case
  proof (cases k)
    case (Cons d ds)
    have max: "\<not> byte_of c < 255 \<Longrightarrow> \<not> c < d"
      using byte_of_less_256 [of d] by (auto simp: char_less_byte simp del: byte_of_less_256)
    show ?thesis
      using Cons.IH [of ds] max
      by (auto simp: \<open>k = d # ds\<close> char_less_succ char_less_byte split: option.splits)
  qed simp
qed simp

lemma increment_prefix_Value:
  "increment_prefix p = Value u \<Longrightarrow> u = increment_front p"
  using increment_front_rev [of p] by (auto simp: increment_prefix_def split: option.splits if_splits)

lemma prefix_key_range_Value:
  "prefix_key_range p = Value (lower, upper) \<Longrightarrow> lower = p \<and> upper = increment_front p"
  by (auto simp: prefix_key_range_def bind_run_def dest: increment_prefix_Value split: run.splits)

text \<open>
  C25. The key range of a prefix is exact: whenever \<^verbatim>\<open>prefix_key_range\<close> returns, the keys at or
  above the lower bound and below the upper bound (no bound for \<open>None\<close>) are exactly the keys that
  start with the prefix. The listing query therefore needs no further filter.
\<close>

theorem prefix_key_range_exact:
  assumes "prefix_key_range p = Value (lower, upper)"
  shows "lower \<le> k \<and> (case upper of None \<Rightarrow> True | Some u \<Rightarrow> k < u) \<longleftrightarrow> prefix p k"
  using increment_front_range [of p k] prefix_key_range_Value [OF assms] by simp

theorem prefix_key_range_exact_witness:
  "prefix_key_range ''logs/'' = Value (''logs/'', Some ''logs0'')
   \<and> ((''logs/'' \<le> ''logs/a'' \<and> ''logs/a'' < ''logs0'') \<longleftrightarrow> prefix ''logs/'' ''logs/a'')"
proof -
  have h: "prefix_key_range ''logs/'' = Value (''logs/'', Some ''logs0'')"
    by code_simp
  show ?thesis using h prefix_key_range_exact [OF h, of "''logs/a''"] by simp
qed

lemma utf8_last_succ:
  "utf8_bytes (bs @ [b]) \<Longrightarrow>
     b < 192 \<and> (utf8_bytes (bs @ [Suc b]) \<longleftrightarrow> b \<noteq> 127 \<and> b \<noteq> 191)"
proof (induction bs rule: utf8_bytes.induct)
  case 2
  then show ?case by (simp add: utf8_cont_def split: if_splits; linarith)
next
  case 3
  then show ?case by (simp add: utf8_cont_def split: if_splits; linarith)
next
  case 4
  then show ?case by (simp add: utf8_cont_def split: if_splits; linarith)
next
  case 5
  then show ?case by (simp split: if_splits)
qed (simp; linarith)

lemma valid_utf8_last_succ:
  assumes "valid_utf8 (q @ [c])"
  shows "byte_of c < 192"
    and "valid_utf8 (q @ [char_of (byte_of c + 1)]) \<longleftrightarrow> byte_of c \<noteq> 127 \<and> byte_of c \<noteq> 191"
  using utf8_last_succ [of "map byte_of q" "byte_of c"] assms
  by (simp_all add: valid_utf8_def)

text \<open>
  C37. When listing with a prefix panics: for a non-empty prefix that is a Rust string (valid
  UTF-8), \<^verbatim>\<open>prefix_key_range\<close> panics exactly when the prefix ends in the byte 0x7F or 0xBF, that
  is in the ASCII control character DEL or in a multi-byte character whose last byte is the
  largest continuation byte. Every other prefix gives a range.
\<close>

theorem prefix_key_range_panics_iff:
  assumes "valid_utf8 p" and "p \<noteq> []"
  shows "prefix_key_range p = Panic \<longleftrightarrow> byte_of (last p) = 127 \<or> byte_of (last p) = 191"
proof -
  obtain q c where p: "p = q @ [c]" using assms(2) by (cases p rule: rev_cases) auto
  with assms(1) have "valid_utf8 (q @ [c])" by simp
  note u = valid_utf8_last_succ [OF this]
  then have "increment_rev (rev p) = Some (char_of (byte_of c + 1) # rev q)"
    by (simp add: p)
  with u(2) show ?thesis
    by (auto simp: prefix_key_range_def increment_prefix_def p)
qed

theorem prefix_key_range_panics_iff_witness:
  "prefix_key_range [CHR 0xC3, CHR 0xBF] = Panic"
proof -
  have "valid_utf8 [CHR 0xC3, CHR 0xBF]" by code_simp
  from prefix_key_range_panics_iff [OF this] show ?thesis by simp
qed

end
