(* ===== verification/Policy.thy ===== *)
theory Policy
  imports Shardscape_Prelude
begin

text \<open>
  The policy engine of \<^verbatim>\<open>src/src/db.rs\<close>, the preset policies of the \<^verbatim>\<open>create-user\<close> command in
  \<^verbatim>\<open>src/src/main.rs\<close>, and the resource names \<^verbatim>\<open>StorageBackend::authorize\<close> builds in
  \<^verbatim>\<open>src/src/storage.rs\<close>.
\<close>

section \<open>The engine\<close>

record PolicyStatement =
  effect :: string
  actions :: "string list"
  resources :: "string list"

record Policy =
  statements :: "PolicyStatement list"

definition strip_suffix_char :: "char \<Rightarrow> string \<Rightarrow> string option" where
  "strip_suffix_char c s = (if s \<noteq> [] \<and> last s = c then Some (butlast s) else None)"

definition wildcard_match :: "string \<Rightarrow> string \<Rightarrow> bool" where
  "wildcard_match pattern value =
     (if pattern = ''*'' then True
      else case strip_suffix_char (CHR ''*'') pattern of
             Some pfx \<Rightarrow> prefix pfx value
           | None \<Rightarrow> pattern = value)"

definition stmt_matches :: "PolicyStatement \<Rightarrow> string \<Rightarrow> string \<Rightarrow> bool" where
  "stmt_matches s action resource =
     (list_ex (\<lambda>a. wildcard_match a action) (actions s) \<and>
      list_ex (\<lambda>r. wildcard_match r resource) (resources s))"

fun is_allowed_loop :: "bool \<Rightarrow> PolicyStatement list \<Rightarrow> string \<Rightarrow> string \<Rightarrow> bool" where
  "is_allowed_loop allowed [] action resource = allowed"
| "is_allowed_loop allowed (stmt # rest) action resource =
     (if stmt_matches stmt action resource then
        if effect stmt = ''Deny'' then False
        else is_allowed_loop (if effect stmt = ''Allow'' then True else allowed) rest action resource
      else is_allowed_loop allowed rest action resource)"

definition is_allowed :: "Policy \<Rightarrow> string \<Rightarrow> string \<Rightarrow> bool" where
  "is_allowed p action resource = is_allowed_loop False (statements p) action resource"

section \<open>Resource names\<close>

definition arn_prefix :: string where
  "arn_prefix = ''arn:ss:bucket:::''"

definition resource_arn :: "string option \<Rightarrow> string option \<Rightarrow> string" where
  "resource_arn bucket key =
     (case (bucket, key) of
        (Some b, Some k) \<Rightarrow> arn_prefix @ b @ ''/'' @ k
      | (Some b, None) \<Rightarrow> arn_prefix @ b
      | _ \<Rightarrow> ''*'')"

section \<open>Presets\<close>

definition admin_policy :: Policy where
  "admin_policy = \<lparr>statements = [\<lparr>effect = ''Allow'', actions = [''*''], resources = [''*'']\<rparr>]\<rparr>"

definition scope_resource :: "string option \<Rightarrow> string" where
  "scope_resource bucket = (case bucket of Some b \<Rightarrow> arn_prefix @ b @ ''*'' | None \<Rightarrow> ''*'')"

definition readonly_actions :: "string list" where
  "readonly_actions =
     [''s3:GetObject'', ''s3:HeadObject'', ''s3:ListBucket'', ''s3:ListAllMyBuckets'',
      ''s3:ListMultipartUploadParts'', ''s3:ListBucketMultipartUploads'']"

definition readonly_policy :: "string option \<Rightarrow> Policy" where
  "readonly_policy bucket =
     \<lparr>statements = [\<lparr>effect = ''Allow'', actions = readonly_actions,
                     resources = [scope_resource bucket]\<rparr>]\<rparr>"

definition readwrite_actions :: "string list" where
  "readwrite_actions =
     [''s3:GetObject'', ''s3:HeadObject'', ''s3:PutObject'', ''s3:DeleteObject'', ''s3:ListBucket'',
      ''s3:ListAllMyBuckets'', ''s3:CreateBucket'', ''s3:DeleteBucket'', ''s3:AbortMultipartUpload'',
      ''s3:ListMultipartUploadParts'', ''s3:ListBucketMultipartUploads'']"

definition readwrite_policy :: "string option \<Rightarrow> Policy" where
  "readwrite_policy bucket =
     \<lparr>statements = [\<lparr>effect = ''Allow'', actions = readwrite_actions,
                     resources = [scope_resource bucket]\<rparr>]\<rparr>"

definition preset_policy :: "string \<Rightarrow> string option \<Rightarrow> Policy option" where
  "preset_policy preset bucket =
     (if preset = ''admin'' then Some admin_policy
      else if preset = ''readonly'' then Some (readonly_policy bucket)
      else if preset = ''readwrite'' then Some (readwrite_policy bucket)
      else None)"

section \<open>Properties\<close>

lemma wildcard_star [simp]: "wildcard_match ''*'' v"
  by (simp add: wildcard_match_def)

lemma wildcard_exact: "pattern \<noteq> [] \<Longrightarrow> last pattern \<noteq> CHR ''*'' \<Longrightarrow> wildcard_match pattern v \<longleftrightarrow> pattern = v"
  by (auto simp: wildcard_match_def strip_suffix_char_def)

lemma wildcard_prefix: "p \<noteq> [] \<Longrightarrow> wildcard_match (p @ ''*'') v \<longleftrightarrow> prefix p v"
  by (auto simp: wildcard_match_def strip_suffix_char_def)

lemma is_allowed_loop_iff:
  "is_allowed_loop allowed ss action resource \<longleftrightarrow>
     (allowed \<or> (\<exists>s \<in> set ss. effect s = ''Allow'' \<and> stmt_matches s action resource)) \<and>
     (\<forall>s \<in> set ss. effect s = ''Deny'' \<longrightarrow> \<not> stmt_matches s action resource)"
  by (induction ss arbitrary: allowed) auto

text \<open>
  The early-returning loop decides exactly the intended policy: an action is allowed if some
  matching statement allows it and no matching statement denies it, wherever in the policy the
  statements stand; everything else is refused.
\<close>

theorem is_allowed_iff:
  "is_allowed p action resource \<longleftrightarrow>
     (\<exists>s \<in> set (statements p). effect s = ''Allow'' \<and> stmt_matches s action resource) \<and>
     \<not> (\<exists>s \<in> set (statements p). effect s = ''Deny'' \<and> stmt_matches s action resource)"
  by (auto simp: is_allowed_def is_allowed_loop_iff)

lemma actions_exact:
  "a \<in> set readwrite_actions \<Longrightarrow> wildcard_match a v \<longleftrightarrow> a = v"
  "a \<in> set readonly_actions \<Longrightarrow> wildcard_match a v \<longleftrightarrow> a = v"
  by (auto simp: readwrite_actions_def readonly_actions_def wildcard_exact)

lemma scope_resource_match:
  "wildcard_match (scope_resource bucket) r \<longleftrightarrow>
     (case bucket of None \<Rightarrow> True | Some b \<Rightarrow> prefix (arn_prefix @ b) r)"
  using wildcard_prefix [of "arn_prefix @ the bucket" r]
  by (auto simp: scope_resource_def arn_prefix_def split: option.split)

lemma single_allow:
  "is_allowed \<lparr>statements = [\<lparr>effect = ''Allow'', actions = as, resources = [scope_resource bucket]\<rparr>]\<rparr> a r
   \<longleftrightarrow> (\<exists>x \<in> set as. wildcard_match x a) \<and>
       (case bucket of None \<Rightarrow> True | Some b \<Rightarrow> prefix (arn_prefix @ b) r)"
  by (simp add: is_allowed_def stmt_matches_def list_ex_iff scope_resource_match)

text \<open>
  What a preset grants on an object: a read-write key may perform exactly the listed actions,
  and a key restricted to a bucket may perform them on the object \<open>k\<close> of a bucket \<open>b'\<close> exactly when
  the bucket's name is a prefix of \<open>b'/k\<close>. In particular the restriction admits every bucket
  whose name only starts with the given one.
\<close>

theorem readwrite_policy_scope:
  "is_allowed (readwrite_policy scope) action (resource_arn (Some b') (Some k)) \<longleftrightarrow>
     action \<in> set readwrite_actions \<and>
     (case scope of None \<Rightarrow> True | Some b \<Rightarrow> prefix b (b' @ ''/'' @ k))"
  by (auto simp: readwrite_policy_def single_allow resource_arn_def actions_exact
      split: option.splits)

text \<open>
  A read-only key never changes anything: whatever bucket it is restricted to, every action
  that a read-only policy allows on any resource is one of the get, head and list actions.
\<close>

theorem readonly_policy_only_reads:
  "is_allowed (readonly_policy scope) action resource \<longrightarrow>
     action \<in> {''s3:GetObject'', ''s3:HeadObject'', ''s3:ListBucket'', ''s3:ListAllMyBuckets'',
               ''s3:ListMultipartUploadParts'', ''s3:ListBucketMultipartUploads''}"
  by (auto simp: readonly_policy_def single_allow actions_exact readonly_actions_def
      wildcard_exact)

theorem readonly_policy_only_reads_witness:
  "is_allowed (readonly_policy (Some ''b'')) ''s3:GetObject'' (resource_arn (Some ''b'') (Some ''k'')) \<and>
   \<not> is_allowed (readonly_policy (Some ''b'')) ''s3:PutObject'' (resource_arn (Some ''b'') (Some ''k''))"
proof -
  have "is_allowed (readonly_policy (Some ''b'')) ''s3:GetObject'' (resource_arn (Some ''b'') (Some ''k''))"
    by code_simp
  moreover have "\<not> is_allowed (readonly_policy (Some ''b'')) ''s3:PutObject''
      (resource_arn (Some ''b'') (Some ''k''))"
    using readonly_policy_only_reads [of "Some ''b''" "''s3:PutObject''"
        "resource_arn (Some ''b'') (Some ''k'')"] by auto
  ultimately show ?thesis ..
qed

end
