(* ===== verification/Chunking.thy ===== *)
theory Chunking
  imports Shardscape_Prelude
begin

text \<open>
  \<^verbatim>\<open>src/src/chunking.rs\<close>: the two chunking strategies, and the choice between them from
  \<^verbatim>\<open>ChunkingConfig\<close> (\<^verbatim>\<open>src/src/config.rs\<close>, \<^verbatim>\<open>StorageBackend::new\<close>). A strategy's \<^verbatim>\<open>process\<close> takes the
  stream buffer and returns the completed chunks and what stays in the buffer; it may also
  panic, and the loops may run forever, so its result is a \<open>run option\<close> with \<open>None\<close> for a call
  that does not return. The cut-point search of the crate \<^verbatim>\<open>fastcdc\<close> is a parameter: it maps the
  three sizes and the buffer to the offset and length of the first chunk.
\<close>

section \<open>The strategies\<close>

text \<open>\<^verbatim>\<open>FixedSizeStrategy::process\<close>, with the vector of completed chunks as accumulator.\<close>

partial_function (option) fixed_loop ::
    "nat \<Rightarrow> bytes \<Rightarrow> bytes list \<Rightarrow> (bytes list \<times> bytes) option" where
  "fixed_loop chunk_size buffer completed =
     (if length buffer \<ge> chunk_size
      then fixed_loop chunk_size (drop chunk_size buffer) (completed @ [take chunk_size buffer])
      else Some (completed, buffer))"

definition fixed_process :: "nat \<Rightarrow> bytes \<Rightarrow> (bytes list \<times> bytes) run option" where
  "fixed_process chunk_size buffer = map_option Value (fixed_loop chunk_size buffer [])"

type_synonym fastcdc = "nat \<Rightarrow> nat \<Rightarrow> nat \<Rightarrow> bytes \<Rightarrow> (nat \<times> nat) option run"

text \<open>
  \<^verbatim>\<open>DynamicCDCStrategy::process\<close>. The sizes are converted to \<^verbatim>\<open>u32\<close> with \<^verbatim>\<open>unwrap\<close>, and
  \<^verbatim>\<open>BytesMut::split_to\<close> panics beyond the buffer.
\<close>

partial_function (option) cdc_loop ::
    "fastcdc \<Rightarrow> nat \<Rightarrow> nat \<Rightarrow> nat \<Rightarrow> bytes \<Rightarrow> bytes list \<Rightarrow> (bytes list \<times> bytes) run option" where
  "cdc_loop fc min_size avg_size max_size buffer completed =
     (if length buffer < min_size then Some (Value (completed, buffer))
      else if min_size \<ge> 2 ^ 32 \<or> avg_size \<ge> 2 ^ 32 \<or> max_size \<ge> 2 ^ 32 then Some Panic
      else case fc min_size avg_size max_size buffer of
             Panic \<Rightarrow> Some Panic
           | Value None \<Rightarrow> Some (Value (completed, buffer))
           | Value (Some (offset, len)) \<Rightarrow>
               if offset + len < length buffer \<or> len \<ge> max_size then
                 if offset + len > length buffer then Some Panic
                 else cdc_loop fc min_size avg_size max_size (drop (offset + len) buffer)
                        (completed @ [take (offset + len) buffer])
               else Some (Value (completed, buffer)))"

declare fixed_loop.simps [code] cdc_loop.simps [code]

definition cdc_process ::
    "fastcdc \<Rightarrow> nat \<Rightarrow> nat \<Rightarrow> nat \<Rightarrow> bytes \<Rightarrow> (bytes list \<times> bytes) run option" where
  "cdc_process fc min_size avg_size max_size buffer = cdc_loop fc min_size avg_size max_size buffer []"

text \<open>\<^verbatim>\<open>finalize\<close> is the same in both strategies: flush what is left.\<close>

definition chunk_finalize :: "bytes \<Rightarrow> bytes option \<times> bytes" where
  "chunk_finalize buffer = (if buffer \<noteq> [] then (Some buffer, []) else (None, buffer))"

datatype ChunkingConfig =
    Fixed (fixed_max: nat)
  | Cdc (cdc_min: nat) (cdc_avg: nat) (cdc_max: nat)

definition chunk_process :: "fastcdc \<Rightarrow> ChunkingConfig \<Rightarrow> bytes \<Rightarrow> (bytes list \<times> bytes) run option" where
  "chunk_process fc cfg =
     (case cfg of
        Fixed max_block_size \<Rightarrow> fixed_process max_block_size
      | Cdc min_block_size avg_block_size max_block_size \<Rightarrow>
          cdc_process fc min_block_size avg_block_size max_block_size)"

text \<open>What the code relies on from \<^verbatim>\<open>fastcdc\<close>: the first chunk of a non-empty source starts at 0, is
  not empty, and is no longer than the source and than the maximum size.\<close>

definition fastcdc_ok :: "fastcdc \<Rightarrow> nat \<Rightarrow> nat \<Rightarrow> nat \<Rightarrow> bool" where
  "fastcdc_ok fc mn av mx \<longleftrightarrow>
     (\<forall>b. b \<noteq> [] \<longrightarrow> (\<exists>len. fc mn av mx b = Value (Some (0, len)) \<and> 0 < len \<and> len \<le> length b \<and> len \<le> mx))"

definition chunk_ok :: "fastcdc \<Rightarrow> ChunkingConfig \<Rightarrow> bool" where
  "chunk_ok fc cfg =
     (case cfg of
        Fixed n \<Rightarrow> 0 < n
      | Cdc mn av mx \<Rightarrow> 0 < mn \<and> mn \<le> mx \<and> av < 2 ^ 32 \<and> mx < 2 ^ 32 \<and> fastcdc_ok fc mn av mx)"

definition chunk_bound :: "ChunkingConfig \<Rightarrow> nat" where
  "chunk_bound cfg = (case cfg of Fixed n \<Rightarrow> n | Cdc mn av mx \<Rightarrow> mx)"

section \<open>The interface: what the write path relies on\<close>

text \<open>
  The streaming loop of the upload handlers: append each body frame to the buffer, take the
  completed chunks, flush the rest at the end. Its result is the list of chunks in order.
\<close>

fun stream_chunks ::
    "(bytes \<Rightarrow> (bytes list \<times> bytes) run option) \<Rightarrow> (bytes \<Rightarrow> bytes option \<times> bytes) \<Rightarrow>
     bytes list \<Rightarrow> bytes \<Rightarrow> bytes list run option" where
  "stream_chunks process finalize [] buffer =
     Some (Value (case fst (finalize buffer) of None \<Rightarrow> [] | Some c \<Rightarrow> [c]))"
| "stream_chunks process finalize (frame # frames) buffer =
     (case process (buffer @ frame) of
        None \<Rightarrow> None
      | Some Panic \<Rightarrow> Some Panic
      | Some (Value (cs, rest)) \<Rightarrow>
          map_option (\<lambda>r. bind_run r (\<lambda>ds. Value (cs @ ds)))
            (stream_chunks process finalize frames rest))"

locale chunking_strategy =
  fixes process :: "'cfg \<Rightarrow> bytes \<Rightarrow> (bytes list \<times> bytes) run option"
    and finalize :: "bytes \<Rightarrow> bytes option \<times> bytes"
    and ok :: "'cfg \<Rightarrow> bool"
    and bound :: "'cfg \<Rightarrow> nat"
  assumes process_returns:
    "ok c \<Longrightarrow> \<exists>cs rest. process c buffer = Some (Value (cs, rest)) \<and> concat cs @ rest = buffer \<and>
       (\<forall>x \<in> set cs. x \<noteq> [] \<and> length x \<le> bound c) \<and> length rest \<le> bound c"
    and finalize_flushes:
    "finalize buffer = (if buffer \<noteq> [] then (Some buffer, []) else (None, []))"
begin

lemma stream_chunks_sound:
  assumes "ok c" and "length buffer \<le> bound c"
  shows "\<exists>ds. stream_chunks (process c) finalize frames buffer = Some (Value ds) \<and>
    concat ds = buffer @ concat frames \<and> (\<forall>d \<in> set ds. d \<noteq> [] \<and> length d \<le> bound c)"
  using assms(2)
proof (induction frames arbitrary: buffer)
  case Nil
  then show ?case by (auto simp: finalize_flushes)
next
  case (Cons frame frames)
  from process_returns [OF assms(1), of "buffer @ frame"] obtain cs rest where
    p: "process c (buffer @ frame) = Some (Value (cs, rest))" "concat cs @ rest = buffer @ frame"
      "\<forall>x \<in> set cs. x \<noteq> [] \<and> length x \<le> bound c" "length rest \<le> bound c" by blast
  from Cons.IH [OF p(4)] obtain ds where
    d: "stream_chunks (process c) finalize frames rest = Some (Value ds)"
      "concat ds = rest @ concat frames" "\<forall>d \<in> set ds. d \<noteq> [] \<and> length d \<le> bound c" by blast
  have "concat (cs @ ds) = buffer @ concat (frame # frames)"
    using p(2) d(2) by (simp flip: append_assoc)
  with p d show ?case by auto
qed

end

section \<open>Both strategies provide it\<close>

lemma fixed_loop_returns:
  assumes "0 < n"
  shows "\<exists>cs rest. fixed_loop n buffer acc = Some (acc @ cs, rest) \<and> concat cs @ rest = buffer \<and>
    (\<forall>x \<in> set cs. length x = n) \<and> length rest < n"
proof (induction "length buffer" arbitrary: buffer acc rule: less_induct)
  case less
  show ?case
  proof (cases "length buffer \<ge> n")
    case True
    with assms have "length (drop n buffer) < length buffer" by simp
    from less [OF this, of "acc @ [take n buffer]"] obtain cs rest where
      "fixed_loop n (drop n buffer) (acc @ [take n buffer]) = Some (acc @ take n buffer # cs, rest)"
      "concat cs @ rest = drop n buffer" "\<forall>x \<in> set cs. length x = n" "length rest < n" by auto
    with True show ?thesis
      by (intro exI [of _ "take n buffer # cs"] exI [of _ rest])
        (simp add: fixed_loop.simps [of n buffer])
  next
    case False
    then show ?thesis by (simp add: fixed_loop.simps)
  qed
qed

lemma cdc_loop_returns:
  assumes "chunk_ok fc (Cdc mn av mx)"
  shows "\<exists>cs rest. cdc_loop fc mn av mx buffer acc = Some (Value (acc @ cs, rest)) \<and>
    concat cs @ rest = buffer \<and> (\<forall>x \<in> set cs. x \<noteq> [] \<and> length x \<le> mx) \<and> length rest \<le> mx"
proof (induction "length buffer" arbitrary: buffer acc rule: less_induct)
  case less
  from assms have ok: "0 < mn" "mn \<le> mx" "mn < 2 ^ 32" "av < 2 ^ 32" "mx < 2 ^ 32" "fastcdc_ok fc mn av mx"
    by (simp_all add: chunk_ok_def)
  show ?case
  proof (cases "length buffer < mn")
    case True
    with ok show ?thesis by (simp add: cdc_loop.simps)
  next
    case False
    with ok have "buffer \<noteq> []" by auto
    with ok(6) obtain len where len: "fc mn av mx buffer = Value (Some (0, len))"
      "0 < len" "len \<le> length buffer" "len \<le> mx" unfolding fastcdc_ok_def by blast
    show ?thesis
    proof (cases "len < length buffer \<or> len \<ge> mx")
      case True
      from len have "length (drop len buffer) < length buffer" by simp
      from less [OF this, of "acc @ [take len buffer]"] obtain cs rest where
        "cdc_loop fc mn av mx (drop len buffer) (acc @ [take len buffer])
           = Some (Value (acc @ take len buffer # cs, rest))"
        "concat cs @ rest = drop len buffer" "\<forall>x \<in> set cs. x \<noteq> [] \<and> length x \<le> mx"
        "length rest \<le> mx" by auto
      with True False ok len \<open>buffer \<noteq> []\<close> show ?thesis
        by (intro exI [of _ "take len buffer # cs"] exI [of _ rest])
          (simp add: cdc_loop.simps [of fc mn av mx buffer])
    next
      case False
      with \<open>\<not> length buffer < mn\<close> ok len show ?thesis
        by (simp add: cdc_loop.simps [of fc mn av mx buffer])
    qed
  qed
qed

interpretation ck: chunking_strategy "chunk_process fc" chunk_finalize "chunk_ok fc" chunk_bound
  for fc
proof
  fix c buffer
  assume ok: "chunk_ok fc c"
  show "\<exists>cs rest. chunk_process fc c buffer = Some (Value (cs, rest)) \<and> concat cs @ rest = buffer \<and>
     (\<forall>x \<in> set cs. x \<noteq> [] \<and> length x \<le> chunk_bound c) \<and> length rest \<le> chunk_bound c"
  proof (cases c)
    case (Fixed n)
    with ok have "0 < n" by (simp add: chunk_ok_def)
    with fixed_loop_returns [of n buffer "[]"] Fixed show ?thesis
      by (force simp: chunk_process_def fixed_process_def chunk_bound_def)
  next
    case (Cdc mn av mx)
    with ok cdc_loop_returns [of fc mn av mx buffer "[]"] show ?thesis
      by (auto simp: chunk_process_def cdc_process_def chunk_bound_def)
  qed
next
  show "chunk_finalize buffer = (if buffer \<noteq> [] then (Some buffer, []) else (None, []))" for buffer
    by (simp add: chunk_finalize_def)
qed

section \<open>Properties\<close>

text \<open>
  C17. Chunking loses nothing: however a body is split into frames, with a positive block size (or
  sizes FastCDC accepts) the streaming loop of the upload handlers terminates without panic, the
  chunks concatenate to the body, and each chunk is non-empty and no longer than the configured
  maximum block size.
\<close>

theorem stream_chunks_roundtrip:
  assumes "chunk_ok fc cfg"
  shows "\<exists>ds. stream_chunks (chunk_process fc cfg) chunk_finalize frames [] = Some (Value ds) \<and>
    concat ds = concat frames \<and> (\<forall>d \<in> set ds. d \<noteq> [] \<and> length d \<le> chunk_bound cfg)"
  using ck.stream_chunks_sound [OF assms, of "[]" frames] by simp

theorem stream_chunks_roundtrip_witness:
  "\<exists>ds. stream_chunks (chunk_process (\<lambda>mn av mx b. Value (Some (0, min mx (length b)))) (Cdc 64 256 1024))
      chunk_finalize [[1, 2], [3]] [] = Some (Value ds) \<and> concat ds = [1, 2, 3]"
proof -
  have "chunk_ok (\<lambda>mn av mx b. Value (Some (0, min mx (length b)))) (Cdc 64 256 1024)"
    by (auto simp: chunk_ok_def fastcdc_ok_def)
  from stream_chunks_roundtrip [OF this, of "[[1, 2], [3]]"] show ?thesis by auto
qed

text \<open>Fixed-size chunking is a function of the whole body.\<close>

function fixed_chunks :: "nat \<Rightarrow> bytes \<Rightarrow> bytes list" where
  "fixed_chunks n data =
     (if n = 0 \<or> data = [] then [] else take n data # fixed_chunks n (drop n data))"
  by pat_completeness auto
termination
  by (relation "measure (\<lambda>(n, data). length data)") auto

declare fixed_chunks.simps [simp del]

lemma fixed_chunks_Nil [simp]: "fixed_chunks n [] = []"
  by (simp add: fixed_chunks.simps)

lemma fixed_chunks_full:
  assumes "0 < n" and "\<forall>x \<in> set cs. length x = n"
  shows "fixed_chunks n (concat cs @ data) = cs @ fixed_chunks n data"
  using assms(2)
proof (induction cs)
  case (Cons x cs)
  then have "length x = n" and "x \<noteq> []" using assms(1) by auto
  with Cons show ?case by (subst fixed_chunks.simps) (use assms(1) in simp)
qed simp

lemma fixed_chunks_short: "0 < length data \<Longrightarrow> length data \<le> n \<Longrightarrow> fixed_chunks n data = [data]"
  by (subst fixed_chunks.simps) (cases data, auto)

lemma fixed_stream:
  assumes "0 < n" and "length buffer < n"
  shows "stream_chunks (chunk_process fc (Fixed n)) chunk_finalize frames buffer
    = Some (Value (fixed_chunks n (buffer @ concat frames)))"
  using assms(2)
proof (induction frames arbitrary: buffer)
  case Nil
  then show ?case by (cases "buffer = []") (simp_all add: chunk_finalize_def fixed_chunks_short)
next
  case (Cons frame frames)
  from fixed_loop_returns [OF assms(1), of "buffer @ frame" "[]"] obtain cs rest where
    p: "fixed_loop n (buffer @ frame) [] = Some (cs, rest)" "concat cs @ rest = buffer @ frame"
      "\<forall>x \<in> set cs. length x = n" "length rest < n" by auto
  have "buffer @ concat (frame # frames) = concat cs @ rest @ concat frames"
    using p(2) by (simp flip: append_assoc)
  then have "fixed_chunks n (buffer @ concat (frame # frames)) = cs @ fixed_chunks n (rest @ concat frames)"
    by (simp only: fixed_chunks_full [OF assms(1) p(3)])
  with Cons.IH [OF p(4)] p(1) show ?case
    by (simp add: chunk_process_def fixed_process_def del: concat.simps)
qed

text \<open>
  Deduplication does not depend on the network: with fixed-size chunking the streaming loop
  cuts a body into the same chunks however it is split into frames, namely into blocks of exactly
  the configured size and one shorter last block.
\<close>

theorem fixed_stream_reference:
  assumes "0 < n"
  shows "stream_chunks (chunk_process fc (Fixed n)) chunk_finalize frames []
    = Some (Value (fixed_chunks n (concat frames)))"
  using fixed_stream [OF assms, of "[]" fc frames] assms by simp

theorem fixed_stream_reference_witness:
  "stream_chunks (chunk_process (\<lambda>mn av mx b. Panic) (Fixed 2)) chunk_finalize [[1], [2, 3]] []
    = Some (Value (fixed_chunks 2 [1, 2, 3]))"
  using fixed_stream_reference [of 2 "\<lambda>mn av mx b. Panic" "[[1], [2, 3]]"] by simp

lemma fixed_loop_positive:
  assumes "fixed_loop n buffer acc = Some r"
  shows "0 < n"
proof (rule fixed_loop.raw_induct [where P = "\<lambda>n buffer acc r. 0 < n", OF _ assms])
  fix f n buffer acc r
  assume IH: "\<And>n buffer acc r. f n buffer acc = Some r \<Longrightarrow> 0 < n"
    and eq: "(if n \<le> length buffer then f n (drop n buffer) (acc @ [take n buffer])
              else Some (acc, buffer)) = Some r"
  show "0 < n"
  proof (cases "n \<le> length buffer")
    case True
    with eq show ?thesis by (auto intro: IH)
  qed auto
qed

text \<open>
  C34. The fixed-size loop terminates exactly when the block size is positive: a configuration with
  \<^verbatim>\<open>max_block_size = 0\<close>, which nothing rejects, makes every upload spin forever.
\<close>

theorem fixed_process_terminates_iff: "(\<exists>r. fixed_process n buffer = Some r) \<longleftrightarrow> 0 < n"
  using fixed_loop_returns [of n buffer "[]"] fixed_loop_positive [of n buffer "[]"]
  by (auto simp: fixed_process_def)

end
