(* ===== verification/Clock.thy ===== *)
theory Clock
  imports Shardscape_Prelude
begin

text \<open>
  The cluster clock of \<^verbatim>\<open>src/src/clock.rs\<close> and the two places of \<^verbatim>\<open>src/src/main.rs\<close> that set
  its offset: \<^verbatim>\<open>refresh_clock_offset\<close> and \<^verbatim>\<open>perform_join_handshake\<close>. A reading of the system
  clock (\<^verbatim>\<open>SystemTime::now\<close>) is an argument: the distance to the epoch in microseconds.
  \<^verbatim>\<open>unwrap_or_else(|e| e.duration())\<close> makes it non-negative for a clock set before 1970 too.
\<close>

record ClusterClock =
  offset_ms :: int

definition clock_new :: "int \<Rightarrow> ClusterClock" where
  "clock_new offset = \<lparr>offset_ms = offset\<rparr>"

definition set_offset :: "ClusterClock \<Rightarrow> int \<Rightarrow> ClusterClock" where
  "set_offset c offset = c\<lparr>offset_ms := offset\<rparr>"

definition get_offset :: "ClusterClock \<Rightarrow> int" where
  "get_offset c = offset_ms c"

text \<open>\<open>sys\<close> is the signed distance of the system clock from the Unix epoch, in microseconds.\<close>

definition clock_now_micros :: "ClusterClock \<Rightarrow> int \<Rightarrow> int" where
  "clock_now_micros c sys = wrap_i64 (wrap_i64 \<bar>sys\<bar> + wrap_i64 (offset_ms c * 1000))"

text \<open>The offset both callers compute from a peer's answer and the measured round trip.\<close>

definition offset_from_peer :: "int \<Rightarrow> int \<Rightarrow> int \<Rightarrow> int" where
  "offset_from_peer peer_micros rtt_micros local_now =
     (let adjusted_leader_time = wrap_i64 (peer_micros + wrap_i64 (rtt_micros div 2));
          offset_micros = wrap_i64 (adjusted_leader_time - local_now)
      in offset_micros sdiv 1000)"

text \<open>
  \<^verbatim>\<open>refresh_clock_offset\<close>: a failed request, or a local clock before the epoch
  (\<^verbatim>\<open>duration_since(UNIX_EPOCH)?\<close>), is an error and leaves the clock alone; otherwise the offset
  moves only when it differs by more than 10 ms.
\<close>

datatype clock_error = RequestFailed | BeforeEpoch

definition refresh_clock_offset ::
    "(int \<times> int) option \<Rightarrow> int \<Rightarrow> ClusterClock \<Rightarrow> (clock_error + unit) \<times> ClusterClock" where
  "refresh_clock_offset answer sys c =
     (case answer of
        None \<Rightarrow> (Inl RequestFailed, c)
      | Some (peer_micros, rtt_micros) \<Rightarrow>
          if sys < 0 then (Inl BeforeEpoch, c)
          else
            (let off = offset_from_peer peer_micros rtt_micros (wrap_i64 sys);
                 old = get_offset c
             in (Inr (), if \<bar>wrap_i64 (off - old)\<bar> > 10 then set_offset c off else c)))"

section \<open>Properties\<close>

lemma clock_now_exact:
  assumes "0 \<le> sys" "in_i64 sys" "in_i64 (offset_ms c * 1000)" "in_i64 (sys + offset_ms c * 1000)"
  shows "clock_now_micros c sys = sys + offset_ms c * 1000"
  using assms by (simp add: clock_now_micros_def)

lemma clock_now_mono:
  assumes "0 \<le> sys" "sys \<le> sys'" "in_i64 sys'" "in_i64 (offset_ms c * 1000)"
    and "in_i64 (sys + offset_ms c * 1000)" "in_i64 (sys' + offset_ms c * 1000)"
  shows "clock_now_micros c sys \<le> clock_now_micros c sys'"
proof -
  from assms have "in_i64 sys" by (auto simp: in_i64_def)
  with assms show ?thesis by (simp add: clock_now_exact)
qed

lemma sdiv_1000_bounds:
  fixes x :: int
  shows "\<bar>x - (x sdiv 1000) * 1000\<bar> < 1000"
proof (cases "0 \<le> x")
  case True
  then have "x sdiv 1000 = x div 1000" by (simp add: signed_divide_int_def sgn_if)
  then show ?thesis by simp
next
  case False
  then have "x sdiv 1000 = - (- x div 1000)" by (simp add: signed_divide_int_def)
  then show ?thesis by simp
qed

text \<open>The offset that is installed puts the clock at the peer's time plus half the round trip.\<close>

lemma offset_installed:
  assumes "0 \<le> sys" "sys < 2 ^ 62" "0 \<le> peer" "peer < 2 ^ 61" "0 \<le> rtt" "rtt < 2 ^ 61"
  defines "off \<equiv> offset_from_peer peer rtt (wrap_i64 sys)"
  shows "\<bar>clock_now_micros (set_offset c off) sys - (peer + rtt div 2)\<bar> < 1000"
    and "clock_now_micros (set_offset c off) sys = sys + off * 1000" "\<bar>off\<bar> < 2 ^ 62"
proof -
  define d where "d = peer + rtt div 2 - sys"
  have b: "in_i64 (rtt div 2)" "in_i64 (peer + rtt div 2)" "in_i64 sys" "in_i64 d"
    using assms by (auto simp: in_i64_def d_def)
  then have off: "off = d sdiv 1000"
    by (simp add: off_def offset_from_peer_def Let_def d_def)
  let ?m = "d sdiv 1000 * 1000"
  have m: "\<bar>d - ?m\<bar> < 1000" by (rule sdiv_1000_bounds)
  have "- (2 ^ 62) < d" "d < 2 ^ 62" "0 \<le> sys + d" "sys + d < 2 ^ 62"
    using assms by (auto simp: d_def)
  with m have "in_i64 ?m" "in_i64 (sys + ?m)"
    by (auto simp: in_i64_def abs_less_iff)
  then have now: "clock_now_micros (set_offset c (d sdiv 1000)) sys = sys + ?m"
    using assms b by (simp add: clock_now_exact set_offset_def)
  then show "clock_now_micros (set_offset c off) sys = sys + off * 1000" by (simp add: off)
  show "\<bar>off\<bar> < 2 ^ 62" using m \<open>- (2 ^ 62) < d\<close> \<open>d < 2 ^ 62\<close> unfolding off by (simp add: abs_less_iff)
  have "peer + rtt div 2 = sys + d" by (simp add: d_def)
  with now m show "\<bar>clock_now_micros (set_offset c off) sys - (peer + rtt div 2)\<bar> < 1000"
    by (simp add: off abs_minus_commute)
qed

lemma twice_abs_sum:
  fixes x y :: int
  assumes "2 * \<bar>x\<bar> < m" "2 * \<bar>y\<bar> \<le> n"
  shows "2 * \<bar>x + y\<bar> < m + n"
proof -
  have "2 * \<bar>x + y\<bar> \<le> 2 * \<bar>x\<bar> + 2 * \<bar>y\<bar>" using abs_triangle_ineq [of x y] by simp
  also have "\<dots> < m + n" by (rule add_less_le_mono) (rule assms)+
  finally show ?thesis .
qed

text \<open>
  C33. Clock synchronisation works: a request that took \<open>out\<close> microseconds to the peer and whose answer took \<open>back\<close>
  finds the peer's clock at \<open>peer + back\<close> when the answer is used. After \<^verbatim>\<open>refresh_clock_offset\<close> the site's clock differs
  from it by less than 11 ms and half the asymmetry of the link (the code leaves an offset alone that is 10 ms off or
  less), and by less than one millisecond and half the asymmetry if it was off by at least that much before.
\<close>

theorem refresh_synchronises:
  assumes "0 \<le> sys" "sys < 2 ^ 62" "0 \<le> peer" "peer < 2 ^ 61" "0 \<le> out" "0 \<le> back" "out + back < 2 ^ 61"
    and "\<bar>offset_ms c\<bar> < 2 ^ 50" "refresh_clock_offset (Some (peer, out + back)) sys c = (r, c')"
  defines "twice_off \<equiv> \<lambda>k. 2 * \<bar>clock_now_micros k sys - (peer + back)\<bar>"
  shows "r = Inr () \<and> twice_off c' < 22000 + \<bar>out - back\<bar> \<and>
    (22000 + \<bar>out - back\<bar> \<le> twice_off c \<longrightarrow> twice_off c' < 2000 + \<bar>out - back\<bar>)"
proof -
  define off where "off = offset_from_peer peer (out + back) (wrap_i64 sys)"
  note inst = offset_installed [OF assms(1-4), where rtt = "out + back", folded off_def]
  have new: "\<bar>sys + off * 1000 - (peer + (out + back) div 2)\<bar> < 1000" "\<bar>off\<bar> < 2 ^ 62"
    and at: "clock_now_micros (set_offset c off) sys = sys + off * 1000"
    using inst(1,2) [where c = c] inst(3) assms(5-7) by simp_all
  define h where "h = (out + back) div 2"
  have half: "\<bar>2 * (h - back)\<bar> \<le> \<bar>out - back\<bar> + 1" unfolding h_def by presburger
  have old: "clock_now_micros c sys = sys + offset_ms c * 1000"
    by (rule clock_now_exact) (use assms(1,2,8) in \<open>auto simp: in_i64_def abs_less_iff\<close>)
  have small: "in_i64 (off - offset_ms c)" using new(2) assms(8) by (auto simp: in_i64_def abs_less_iff)
  have near: "2 * \<bar>sys + off * 1000 - (peer + back)\<bar> < 2000 + \<bar>out - back\<bar>"
  proof -
    define x y where "x = sys + off * 1000 - (peer + h)" and "y = h - back"
    have "sys + off * 1000 - (peer + back) = x + y" by (simp add: x_def y_def)
    moreover have "2 * \<bar>x\<bar> < 1999" using new(1) by (simp add: x_def h_def)
    moreover have "2 * \<bar>y\<bar> \<le> \<bar>out - back\<bar> + 1" using half by (simp only: abs_mult y_def)
    ultimately show ?thesis using twice_abs_sum [of x 1999 y "\<bar>out - back\<bar> + 1"] by simp
  qed
  show ?thesis
  proof (cases "\<bar>off - offset_ms c\<bar> > 10")
    case True
    then have "r = Inr ()" "c' = set_offset c off"
      using assms(1,9) small by (auto simp: refresh_clock_offset_def get_offset_def Let_def off_def)
    with near show ?thesis by (simp add: twice_off_def at)
  next
    case False
    then have "r = Inr ()" "c' = c"
      using assms(1,9) small by (auto simp: refresh_clock_offset_def get_offset_def Let_def off_def)
    moreover have "2 * \<bar>sys + offset_ms c * 1000 - (peer + back)\<bar> < 22000 + \<bar>out - back\<bar>"
    proof -
      define x y where "x = sys + off * 1000 - (peer + back)" and "y = (offset_ms c - off) * 1000"
      have "sys + offset_ms c * 1000 - (peer + back) = x + y" by (simp add: x_def y_def algebra_simps)
      moreover have "2 * \<bar>x\<bar> < 2000 + \<bar>out - back\<bar>" using near by (simp add: x_def)
      moreover have "2 * \<bar>y\<bar> \<le> 20000" using False by (simp add: y_def abs_mult)
      ultimately show ?thesis using twice_abs_sum [of x "2000 + \<bar>out - back\<bar>" y 20000] by simp
    qed
    ultimately show ?thesis by (simp add: twice_off_def old)
  qed
qed

theorem refresh_synchronises_witness:
  "\<exists>c'. refresh_clock_offset (Some (5000000, 300 + 100)) 2000000 (clock_new 0) = (Inr (), c') \<and>
     2 * \<bar>clock_now_micros c' 2000000 - 5000100\<bar> < 2200"
proof -
  obtain r c' where r: "refresh_clock_offset (Some (5000000, 300 + 100)) 2000000 (clock_new 0) = (r, c')" by fastforce
  have "clock_now_micros (clock_new 0) 2000000 = 2000000" by code_simp
  with refresh_synchronises [OF _ _ _ _ _ _ _ _ r] show ?thesis using r by (simp add: clock_new_def)
qed

end
