(* ===== verification/Externals.thy ===== *)
theory Externals
  imports Hashing Policy Chunking Clock
begin

text \<open>
  The data that travels between sites (\<^verbatim>\<open>Fact\<close>, \<^verbatim>\<open>FactRecord\<close> of \<^verbatim>\<open>src/src/store.rs\<close>) and the code
  the repository only calls: the crates for digests, hexadecimal text, JSON, UUIDs and content-defined
  chunking, as one record of functions that the definitions take as an argument. What the code
  relies on of them is stated below as named predicates.
\<close>

section \<open>Results\<close>

text \<open>\<^verbatim>\<open>anyhow::Result\<close>: the code never inspects the error, only whether there is one.\<close>

datatype 'a result = Err | Ok 'a

definition bind_result :: "'a result \<Rightarrow> ('a \<Rightarrow> 'b result) \<Rightarrow> 'b result" where
  "bind_result r f = (case r of Err \<Rightarrow> Err | Ok x \<Rightarrow> f x)"

lemma bind_result_simps [simp]:
  "bind_result Err f = Err"
  "bind_result (Ok x) f = f x"
  by (simp_all add: bind_result_def)

fun collect_result :: "'a result list \<Rightarrow> 'a list result" where
  "collect_result [] = Ok []"
| "collect_result (Err # rs) = Err"
| "collect_result (Ok x # rs) = bind_result (collect_result rs) (\<lambda>xs. Ok (x # xs))"

lemma collect_result_map_Ok [simp]: "collect_result (map (\<lambda>x. Ok (f x)) xs) = Ok (map f xs)"
  by (induction xs) simp_all

lemma collect_result_length: "collect_result rs = Ok xs \<Longrightarrow> length xs = length rs"
  by (induction rs arbitrary: xs rule: collect_result.induct)
    (auto simp: bind_result_def split: result.splits)

section \<open>Facts\<close>

datatype json =
    JNull | JBool bool | JInt int | JStr string | JArr "json list" | JObj "(string \<times> json) list"

datatype Fact =
    ObjectPut (put_bucket: string) (put_key: string) (put_blocks: "string list")
      (put_size: int) (put_etag: string)
  | ObjectDelete (del_bucket: string) (del_key: string)
  | BlockAnnounce (ann_hash: string) (ann_location: location) (ann_fid: string) (ann_size: int)
  | UserPut (usr_access_key: string) (usr_secret_key: string) (usr_policy: json)

fun kind_str :: "Fact \<Rightarrow> string" where
  "kind_str (ObjectPut b k bl sz et) = ''object_put''"
| "kind_str (ObjectDelete b k) = ''object_delete''"
| "kind_str (BlockAnnounce h l f sz) = ''block_announce''"
| "kind_str (UserPut ak sk p) = ''user_put''"

record FactRecord =
  rec_seq :: int
  rec_ts :: int
  rec_fact :: Fact

section \<open>Crates\<close>

record Crates =
  blake3 :: "bytes \<Rightarrow> hash"
  md5 :: "bytes \<Rightarrow> bytes"
  hex_encode :: "bytes \<Rightarrow> string"
  hex_decode :: "string \<Rightarrow> bytes result"
  fact_to_json :: "Fact \<Rightarrow> json"
  fact_of_json :: "json \<Rightarrow> Fact result"
  policy_to_json :: "Policy \<Rightarrow> json"
  policy_of_json :: "json \<Rightarrow> Policy result"
  uuid_parse :: "string \<Rightarrow> string result"
  fastcdc_first :: fastcdc

definition hex_ok :: "Crates \<Rightarrow> bool" where
  "hex_ok C \<longleftrightarrow> (\<forall>b. hex_decode C (hex_encode C b) = Ok b \<and> length (hex_encode C b) = 2 * length b \<and>
     set (hex_encode C b) \<subseteq> set ''0123456789abcdef'')"

definition json_ok :: "Crates \<Rightarrow> bool" where
  "json_ok C \<longleftrightarrow> (\<forall>f. fact_of_json C (fact_to_json C f) = Ok f) \<and>
     (\<forall>p. policy_of_json C (policy_to_json C p) = Ok p)"

lemma hex_decode_encode [simp]: "hex_ok C \<Longrightarrow> hex_decode C (hex_encode C b) = Ok b"
  by (simp add: hex_ok_def)

lemma hex_length [simp]: "hex_ok C \<Longrightarrow> length (hex_encode C b) = 2 * length b"
  by (simp add: hex_ok_def)

lemma hex_chars: "hex_ok C \<Longrightarrow> set (hex_encode C b) \<subseteq> set ''0123456789abcdef''"
  by (simp only: hex_ok_def)

lemma hex_encode_inject: "hex_ok C \<Longrightarrow> hex_encode C a = hex_encode C b \<longleftrightarrow> a = b"
  by (metis hex_decode_encode result.inject)

lemma json_roundtrip [simp]:
  "json_ok C \<Longrightarrow> fact_of_json C (fact_to_json C f) = Ok f"
  "json_ok C \<Longrightarrow> policy_of_json C (policy_to_json C p) = Ok p"
  by (simp_all add: json_ok_def)

lemma collect_hex [simp]:
  "hex_ok C \<Longrightarrow> collect_result (map (\<lambda>b. hex_decode C (hex_encode C b)) bs) = Ok bs"
  by (induction bs) simp_all

section \<open>Concrete crates for evaluating examples\<close>

text \<open>
  Concrete functions that satisfy the hypotheses above, so that properties that assume them can be
  applied to inputs: lower-case hexadecimal text, serde's adjacently tagged objects, and a toy
  digest that pads or cuts its input to 32 bytes.
\<close>

definition hex_digit :: "nat \<Rightarrow> char" where
  "hex_digit n = ''0123456789abcdef'' ! n"

fun hex_value :: "char \<Rightarrow> nat option" where
  "hex_value c =
     (if 48 \<le> byte_of c \<and> byte_of c \<le> 57 then Some (byte_of c - 48)
      else if 97 \<le> byte_of c \<and> byte_of c \<le> 102 then Some (byte_of c - 87)
      else None)"

definition demo_hex_encode :: "bytes \<Rightarrow> string" where
  "demo_hex_encode b = concat (map (\<lambda>w. [hex_digit (unat w div 16), hex_digit (unat w mod 16)]) b)"

fun demo_hex_decode :: "string \<Rightarrow> bytes result" where
  "demo_hex_decode [] = Ok []"
| "demo_hex_decode [c] = Err"
| "demo_hex_decode (c # d # r) =
     (case (hex_value c, hex_value d) of
        (Some x, Some y) \<Rightarrow> bind_result (demo_hex_decode r) (\<lambda>b. Ok (of_nat (16 * x + y) # b))
      | _ \<Rightarrow> Err)"

fun json_str :: "json \<Rightarrow> string" where
  "json_str (JStr s) = s"
| "json_str _ = []"

fun json_strs :: "json \<Rightarrow> string list" where
  "json_strs (JArr js) = map json_str js"
| "json_strs _ = []"

fun json_int :: "json \<Rightarrow> int" where
  "json_int (JInt i) = i"
| "json_int _ = 0"

fun json_field :: "string \<Rightarrow> json \<Rightarrow> json" where
  "json_field name (JObj kvs) = (case map_of kvs name of Some v \<Rightarrow> v | None \<Rightarrow> JNull)"
| "json_field name _ = JNull"

fun demo_fact_to_json :: "Fact \<Rightarrow> json" where
  "demo_fact_to_json (ObjectPut b k bl sz et) =
     JObj [(''kind'', JStr ''ObjectPut''),
       (''data'', JObj [(''bucket'', JStr b), (''key'', JStr k), (''blocks'', JArr (map JStr bl)),
                        (''size'', JInt sz), (''etag'', JStr et)])]"
| "demo_fact_to_json (ObjectDelete b k) =
     JObj [(''kind'', JStr ''ObjectDelete''), (''data'', JObj [(''bucket'', JStr b), (''key'', JStr k)])]"
| "demo_fact_to_json (BlockAnnounce h l f sz) =
     JObj [(''kind'', JStr ''BlockAnnounce''),
       (''data'', JObj [(''hash'', JStr h), (''location_id'', JStr l), (''fid'', JStr f), (''size'', JInt sz)])]"
| "demo_fact_to_json (UserPut ak sk p) =
     JObj [(''kind'', JStr ''UserPut''),
       (''data'', JObj [(''access_key'', JStr ak), (''secret_key'', JStr sk), (''policy'', p)])]"

definition demo_fact_of_json :: "json \<Rightarrow> Fact result" where
  "demo_fact_of_json j =
     (let kind = json_str (json_field ''kind'' j); d = (\<lambda>name. json_field name (json_field ''data'' j))
      in if kind = ''ObjectPut'' then
           Ok (ObjectPut (json_str (d ''bucket'')) (json_str (d ''key'')) (json_strs (d ''blocks''))
                (json_int (d ''size'')) (json_str (d ''etag'')))
         else if kind = ''ObjectDelete'' then Ok (ObjectDelete (json_str (d ''bucket'')) (json_str (d ''key'')))
         else if kind = ''BlockAnnounce'' then
           Ok (BlockAnnounce (json_str (d ''hash'')) (json_str (d ''location_id'')) (json_str (d ''fid''))
                (json_int (d ''size'')))
         else if kind = ''UserPut'' then
           Ok (UserPut (json_str (d ''access_key'')) (json_str (d ''secret_key'')) (d ''policy''))
         else Err)"

definition demo_policy_to_json :: "Policy \<Rightarrow> json" where
  "demo_policy_to_json p =
     JArr (map (\<lambda>s. JObj [(''effect'', JStr (effect s)), (''actions'', JArr (map JStr (actions s))),
                        (''resources'', JArr (map JStr (resources s)))])
       (statements p))"

definition demo_statement_of_json :: "json \<Rightarrow> PolicyStatement" where
  "demo_statement_of_json j =
     \<lparr>effect = json_str (json_field ''effect'' j), actions = json_strs (json_field ''actions'' j),
      resources = json_strs (json_field ''resources'' j)\<rparr>"

fun demo_policy_of_json :: "json \<Rightarrow> Policy result" where
  "demo_policy_of_json (JArr js) = Ok \<lparr>statements = map demo_statement_of_json js\<rparr>"
| "demo_policy_of_json _ = Err"

definition demo_crates :: Crates where
  "demo_crates =
     \<lparr>blake3 = (\<lambda>d. take 32 (d @ replicate 32 0)), md5 = (\<lambda>d. take 16 (d @ replicate 16 0)),
      hex_encode = demo_hex_encode, hex_decode = demo_hex_decode,
      fact_to_json = demo_fact_to_json, fact_of_json = demo_fact_of_json,
      policy_to_json = demo_policy_to_json, policy_of_json = demo_policy_of_json,
      uuid_parse = Ok, fastcdc_first = (\<lambda>mn av mx b. Value (if b = [] then None else Some (0, min mx (length b))))\<rparr>"

lemma hex_value_digit: "n < 16 \<Longrightarrow> hex_value (hex_digit n) = Some n"
proof -
  have "list_all (\<lambda>n. hex_value (hex_digit n) = Some n) [0..<16]" by code_simp
  then show "n < 16 \<Longrightarrow> hex_value (hex_digit n) = Some n" by (simp add: list_all_iff)
qed

lemma unat_byte_less: "unat (w :: byte) < 256"
  using unsigned_less [of w, where ?'a = nat] by simp

lemma demo_hex_roundtrip: "demo_hex_decode (demo_hex_encode b) = Ok b"
proof (induction b)
  case (Cons w b)
  have "unat w div 16 < 16" using unat_byte_less [of w] by simp
  then have "hex_value (hex_digit (unat w div 16)) = Some (unat w div 16)"
    "hex_value (hex_digit (unat w mod 16)) = Some (unat w mod 16)"
    by (simp_all add: hex_value_digit del: hex_value.simps)
  moreover have "of_nat (16 * (unat w div 16) + unat w mod 16) = w"
    by (simp only: mult_div_mod_eq of_nat_unat ucast_id)
  ultimately show ?case using Cons by (simp add: demo_hex_encode_def del: hex_value.simps)
qed (simp add: demo_hex_encode_def)

lemma demo_hex_ok: "hex_ok demo_crates"
proof -
  have "length (demo_hex_encode b) = 2 * length b" for b
    by (induction b) (simp_all add: demo_hex_encode_def)
  moreover have hd: "hex_digit n \<in> set ''0123456789abcdef''" if "n < 16" for n
    unfolding hex_digit_def by (rule nth_mem) (use that in simp)
  have "set (demo_hex_encode b) \<subseteq> set ''0123456789abcdef''" for b
  proof (induction b)
    case (Cons w b)
    have "unat w div 16 < 16" using unat_byte_less [of w] by simp
    with hd [of "unat w div 16"] hd [of "unat w mod 16"] Cons show ?case
      by (simp only: demo_hex_encode_def) simp
  qed (simp add: demo_hex_encode_def)
  ultimately show ?thesis by (simp add: hex_ok_def demo_crates_def demo_hex_roundtrip)
qed

lemma map_json_str [simp]: "map (json_str \<circ> JStr) xs = xs"
  by (induction xs) simp_all

lemma demo_json_ok: "json_ok demo_crates"
proof -
  have "demo_fact_of_json (demo_fact_to_json f) = Ok f" for f
    by (cases f) (simp_all add: demo_fact_of_json_def)
  moreover have "demo_policy_of_json (demo_policy_to_json p) = Ok p" for p
    by (cases p) (simp add: demo_policy_to_json_def demo_statement_of_json_def comp_def map_idI)
  ultimately show ?thesis by (simp add: json_ok_def demo_crates_def)
qed

lemma demo_digest_ok: "digest_ok (blake3 demo_crates)"
  by (auto simp: digest_ok_def demo_crates_def min_def)

end
