(* ===== verification/Lww_Table.thy ===== *)
theory Lww_Table
  imports Shardscape_Prelude
begin

text \<open>
  The interface of a last-write-wins table: an update that carries a timestamp and only
  replaces an older row. Every replicated table of \<^verbatim>\<open>src/src/store.rs\<close> (objects, blocks, block
  locations, users) and the per-peer cursors provide it; the metadata store interprets the
  locale for each of them. The client lemmas say what replication relies on: a row's stamp
  never goes back, applying a write again changes nothing, two writes that do not tie
  commute, and two sites that have applied the same set of writes in any order, with any
  repetitions, hold the same rows.
\<close>

section \<open>Joining a row with a list of writes\<close>

definition join_all :: "('v \<Rightarrow> int) \<Rightarrow> 'v option \<Rightarrow> 'v list \<Rightarrow> 'v option" where
  "join_all stamp old vs = fold (\<lambda>v acc. Some (lww_join stamp acc v)) vs old"

lemma join_all_Nil [simp]: "join_all stamp old [] = old"
  by (simp add: join_all_def)

lemma join_all_Cons [simp]:
  "join_all stamp old (v # vs) = join_all stamp (Some (lww_join stamp old v)) vs"
  by (simp add: join_all_def)

lemma join_all_append [simp]:
  "join_all stamp old (vs @ ws) = join_all stamp (join_all stamp old vs) ws"
  by (simp add: join_all_def)

lemma join_all_None_iff [simp]: "join_all stamp old vs = None \<longleftrightarrow> old = None \<and> vs = []"
  by (induction vs arbitrary: old) auto

text \<open>The result is one of the candidates, and none of them is newer.\<close>

lemma join_all_newest:
  assumes "join_all stamp old vs = Some r"
  shows "r \<in> set_option old \<union> set vs \<and> (\<forall>v \<in> set_option old \<union> set vs. stamp v \<le> stamp r)"
  using assms
proof (induction vs arbitrary: old)
  case (Cons v vs)
  let ?j = "lww_join stamp old v"
  from Cons.prems have "join_all stamp (Some ?j) vs = Some r" by simp
  from Cons.IH [OF this] have "r \<in> insert ?j (set vs)"
    and "stamp ?j \<le> stamp r" and "\<forall>v \<in> set vs. stamp v \<le> stamp r"
    by auto
  then show ?case by (cases old) (auto split: if_splits)
qed simp

definition tie_free :: "('v \<Rightarrow> int) \<Rightarrow> 'v set \<Rightarrow> bool" where
  "tie_free stamp S \<longleftrightarrow> inj_on stamp S"

text \<open>Without ties the newest candidate is unique, so only the set of candidates matters.\<close>

lemma join_all_cong:
  assumes "set_option old \<union> set vs = set_option old' \<union> set ws"
    and "tie_free stamp (set_option old \<union> set vs)"
  shows "join_all stamp old vs = join_all stamp old' ws"
proof (cases "join_all stamp old vs")
  case None
  with assms(1) have "join_all stamp old' ws = None" by auto
  with None show ?thesis by simp
next
  case (Some r)
  with assms(1) have "join_all stamp old' ws \<noteq> None" by auto
  then obtain r' where r': "join_all stamp old' ws = Some r'" by blast
  let ?S = "set_option old \<union> set vs"
  note j1 = join_all_newest [OF Some] and j2 = join_all_newest [OF r', folded assms(1)]
  then have "stamp r = stamp r'" by (meson order_antisym)
  with j1 j2 assms(2) have "r = r'" by (meson tie_free_def inj_onD)
  with Some r' show ?thesis by simp
qed

section \<open>The interface\<close>

locale lww_table =
  fixes put :: "'k \<Rightarrow> 'v \<Rightarrow> 't \<Rightarrow> 't"
    and get :: "'t \<Rightarrow> 'k \<Rightarrow> 'v option"
    and stamp :: "'v \<Rightarrow> int"
  assumes get_put: "get (put k v t) = (get t)(k \<mapsto> lww_join stamp (get t k) v)"
begin

definition put_all :: "('k \<times> 'v) list \<Rightarrow> 't \<Rightarrow> 't" where
  "put_all ws t = fold (\<lambda>(k, v). put k v) ws t"

lemma put_all_simps [simp]:
  "put_all [] t = t"
  "put_all ((k, v) # ws) t = put_all ws (put k v t)"
  "put_all (ws @ us) t = put_all us (put_all ws t)"
  by (simp_all add: put_all_def)

lemma put_wins: "get t k = Some w \<Longrightarrow> stamp w < stamp v \<Longrightarrow> get (put k v t) k = Some v"
  by (simp add: get_put)

lemma put_fresh: "get t k = None \<Longrightarrow> get (put k v t) k = Some v"
  by (simp add: get_put)

lemma put_loses: "get t k = Some w \<Longrightarrow> stamp v \<le> stamp w \<Longrightarrow> get (put k v t) = get t"
  by (auto simp: get_put fun_eq_iff)

lemma put_other: "k' \<noteq> k \<Longrightarrow> get (put k v t) k' = get t k'"
  by (simp add: get_put)

lemma stamp_mono:
  "get t k = Some w \<Longrightarrow> \<exists>w'. get (put k' v t) k = Some w' \<and> stamp w \<le> stamp w'"
  by (auto simp: get_put)

lemma put_idem: "get (put k v (put k v t)) = get (put k v t)"
  by (auto simp: get_put fun_eq_iff lww_join_def split: option.split)

lemma put_commute:
  assumes "k = k' \<Longrightarrow> stamp v = stamp v' \<Longrightarrow> v = v'"
  shows "get (put k v (put k' v' t)) = get (put k' v' (put k v t))"
  using assms by (auto simp: get_put fun_eq_iff lww_join_def split: option.split)

lemma get_put_all:
  "get (put_all ws t) k = join_all stamp (get t k) (map snd (filter (\<lambda>w. fst w = k) ws))"
  by (induction ws arbitrary: t) (auto simp: get_put)

text \<open>Convergence: the same set of writes, without ties on a key, gives the same rows.\<close>

lemma put_all_converges:
  assumes "get s = get t" and "set ws = set us"
    and "\<And>k. tie_free stamp (set_option (get s k) \<union> {v. (k, v) \<in> set ws})"
  shows "get (put_all ws s) = get (put_all us t)"
proof
  fix k :: 'k
  let ?V = "\<lambda>ws. map snd (filter (\<lambda>w. fst w = k) ws)"
  have V: "set (?V zs) = {v. (k, v) \<in> set zs}" for zs
    by (auto simp: image_iff)
  have "join_all stamp (get s k) (?V ws) = join_all stamp (get t k) (?V us)"
    by (rule join_all_cong) (simp_all only: V assms(1,2) assms(3) [of k, unfolded assms(1,2)])
  then show "get (put_all ws s) k = get (put_all us t) k"
    by (simp only: get_put_all)
qed

end

section \<open>Replaying a log of facts\<close>

text \<open>
  The row a site should hold for a key, given the set of values it has seen written to that key:
  nothing if there are none, else one that no other is newer than.
\<close>

definition newest :: "('v \<Rightarrow> int) \<Rightarrow> 'v set \<Rightarrow> 'v option \<Rightarrow> bool" where
  "newest stamp S r \<longleftrightarrow> (case r of None \<Rightarrow> S = {} | Some v \<Rightarrow> v \<in> S \<and> (\<forall>w \<in> S. stamp w \<le> stamp v))"

lemma newest_simps [simp]:
  "newest stamp S None \<longleftrightarrow> S = {}"
  "newest stamp S (Some v) \<longleftrightarrow> v \<in> S \<and> (\<forall>w \<in> S. stamp w \<le> stamp v)"
  by (simp_all add: newest_def)

lemma newest_insert:
  "newest stamp S old \<Longrightarrow> newest stamp (insert v S) (Some (lww_join stamp old v))"
  by (cases old) (auto simp: lww_join_def)

lemma newest_unique:
  assumes "newest stamp S r" "newest stamp S r'" "tie_free stamp S"
  shows "r = r'"
proof (cases r)
  case (Some v)
  with assms(1,2) obtain v' where v': "r' = Some v'" by (cases r') auto
  with Some assms(1,2) have "stamp v = stamp v'" by (auto intro: order_antisym)
  with Some v' assms show ?thesis by (auto simp: tie_free_def dest: inj_onD)
qed (use assms in \<open>cases r'; auto\<close>)

definition candidates :: "('f \<Rightarrow> ('k \<times> 'v) option) \<Rightarrow> 'k \<Rightarrow> 'f set \<Rightarrow> 'v set" where
  "candidates wr k F = {v. \<exists>f \<in> F. wr f = Some (k, v)}"

lemma candidates_simps [simp]:
  "candidates wr k {} = {}"
  "candidates wr k (insert f F) =
     (case wr f of None \<Rightarrow> candidates wr k F
      | Some (k', v) \<Rightarrow> if k' = k then insert v (candidates wr k F) else candidates wr k F)"
  by (auto simp: candidates_def split: option.split)

lemma candidates_image: "candidates (\<lambda>q. w (snd q)) k Q = candidates w k (snd ` Q)"
  by (auto simp: candidates_def)

lemma candidates_Un: "candidates wr k (F \<union> G) = candidates wr k F \<union> candidates wr k G"
  by (auto simp: candidates_def)

text \<open>
  A store that applies facts one at a time, each fact writing at most one row of a table. Replaying
  facts keeps every row the newest of what was seen, so two stores that have seen the same facts
  agree, whatever the order and however often each fact came.
\<close>

locale lww_replay =
  fixes apply_one :: "'f \<Rightarrow> 't \<Rightarrow> 't"
    and get :: "'t \<Rightarrow> 'k \<Rightarrow> 'v option"
    and stamp :: "'v \<Rightarrow> int"
    and wr :: "'f \<Rightarrow> ('k \<times> 'v) option"
  assumes get_apply: "get (apply_one f t) =
    (case wr f of None \<Rightarrow> get t | Some (k, v) \<Rightarrow> (get t)(k \<mapsto> lww_join stamp (get t k) v))"
begin

lemma apply_newest:
  assumes "newest stamp (candidates wr k F) (get t k)"
  shows "newest stamp (candidates wr k (insert f F)) (get (apply_one f t) k)"
  using assms newest_insert [OF assms]
  by (auto simp: get_apply simp del: newest_simps split: option.split)

lemma replay_newest:
  assumes "newest stamp (candidates wr k F) (get t k)"
  shows "newest stamp (candidates wr k (F \<union> set fs)) (get (fold apply_one fs t) k)"
  using assms
proof (induction fs arbitrary: t F)
  case (Cons f fs)
  from Cons.IH [OF apply_newest [OF Cons.prems]] show ?case by (simp del: candidates_simps)
qed simp

text \<open>A replay leaves a row alone or replaces it by a strictly newer one.\<close>

lemma replay_keeps:
  "get (fold apply_one fs t) k = get t k \<or>
   (\<exists>w. get (fold apply_one fs t) k = Some w \<and> (\<forall>v. get t k = Some v \<longrightarrow> stamp v < stamp w))"
proof (induction fs arbitrary: t)
  case (Cons f fs)
  have "get (apply_one f t) k = get t k \<or>
      (\<exists>w. get (apply_one f t) k = Some w \<and> (\<forall>v. get t k = Some v \<longrightarrow> stamp v < stamp w))"
    by (cases "get t k") (auto simp: get_apply lww_join_def split: option.split)
  with Cons.IH [of "apply_one f t"] show ?case by fastforce
qed simp

lemma replay_converges:
  assumes "\<And>k. get s k = None" "\<And>k. get t k = None" "\<And>k. candidates wr k (set fs) = candidates wr k (set gs)"
    and "\<And>k. tie_free stamp (candidates wr k (set fs))"
  shows "get (fold apply_one fs s) = get (fold apply_one gs t)"
proof
  fix k
  have "newest stamp (candidates wr k ({} \<union> set fs)) (get (fold apply_one fs s) k)"
    by (rule replay_newest) (simp add: assms(1))
  moreover have "newest stamp (candidates wr k ({} \<union> set gs)) (get (fold apply_one gs t) k)"
    by (rule replay_newest) (simp add: assms(2))
  ultimately show "get (fold apply_one fs s) k = get (fold apply_one gs t) k"
    using assms(3,4) by (auto intro: newest_unique)
qed

end

text \<open>The row operation of the SQL statements provides the interface.\<close>

lemma upsert_newer_lww: "lww_table (upsert_newer stamp) map_of stamp"
  by unfold_locales (rule map_of_upsert_newer)

end
