(* ===== verification/Store.thy ===== *)
theory Store
  imports Externals Lww_Table
begin

text \<open>
  The embedded metadata store of \<^verbatim>\<open>src/src/store.rs\<close>: its schema as a record of tables, one
  definition per method, and the invariant of the schema. A method that reads the clock takes the
  reading of the system clock as its argument \<open>sys\<close> (microseconds). A method runs under the
  connection mutex and in one transaction, so it is one atomic change of the record; the SQL
  statements are taken to execute as SQL defines them, without I/O errors of the database file.
\<close>

section \<open>Schema\<close>

record object_row =
  obj_blocks :: bytes
  obj_size :: int
  obj_etag :: string
  obj_shard_id :: int
  obj_updated_at :: int
  obj_deleted :: bool

record block_row =
  blk_size :: int
  blk_updated_at :: int

record location_row =
  loc_fid :: fid
  loc_updated_at :: int

record user_row =
  usr_secret :: string
  usr_pol :: json
  usr_updated_at :: int

record part_row =
  part_blocks :: bytes
  part_size :: int
  part_etag :: string

record node_row =
  api_url :: string
  last_heartbeat :: int

record queue_row =
  q_next_attempt_at :: int
  q_attempts :: int
  q_enqueued_at :: int

record log_row =
  log_ts :: int
  log_kind :: string
  log_payload :: json

record Store =
  objects :: "(string \<times> string, object_row) table"
  blocks :: "(hash, block_row) table"
  block_locations :: "(hash \<times> location, location_row) table"
  pending_deletions :: "(hash, int) table"
  users :: "(string, user_row) table"
  multipart_uploads :: "(string \<times> string, string) table"
  parts :: "(string \<times> string \<times> int, part_row) table"
  nodes :: "(location, node_row) table"
  replication_queue :: "(location \<times> hash, queue_row) table"
  fact_log :: "(int, log_row) table"
  replication_cursors :: "(location, int) table"
  local_location_id :: location
  clock :: ClusterClock

definition store_new :: "location \<Rightarrow> ClusterClock \<Rightarrow> Store" where
  "store_new loc clk =
     \<lparr>objects = [], blocks = [], block_locations = [], pending_deletions = [], users = [],
      multipart_uploads = [], parts = [], nodes = [], replication_queue = [], fact_log = [],
      replication_cursors = [], local_location_id = loc, clock = clk\<rparr>"

definition store_now_micros :: "Store \<Rightarrow> int \<Rightarrow> int" where
  "store_now_micros s sys = clock_now_micros (clock s) sys"

definition store_now_millis :: "Store \<Rightarrow> int \<Rightarrow> int" where
  "store_now_millis s sys = store_now_micros s sys sdiv 1000"

section \<open>Block hash lists\<close>

definition encode_blocks :: "hash list \<Rightarrow> bytes" where
  "encode_blocks bs = concat bs"

function decode_blocks :: "bytes \<Rightarrow> hash list" where
  "decode_blocks raw = (if length raw < 32 then [] else take 32 raw # decode_blocks (drop 32 raw))"
  by pat_completeness auto
termination
  by (relation "measure length") auto

declare decode_blocks.simps [simp del]

section \<open>Blocks\<close>

definition get_block_fids :: "Store \<Rightarrow> hash \<Rightarrow> (location \<times> fid) list option" where
  "get_block_fids s h =
     (let rows = map (\<lambda>((_, loc), r). (loc, loc_fid r)) (filter (\<lambda>((h', _), _). h' = h) (block_locations s))
      in if rows = [] then None else Some rows)"

definition block_sizes :: "Store \<Rightarrow> hash list \<Rightarrow> int list" where
  "block_sizes s hs = map (\<lambda>h. case map_of (blocks s) h of None \<Rightarrow> 0 | Some r \<Rightarrow> blk_size r) hs"

definition get_local_block_fid :: "Store \<Rightarrow> hash \<Rightarrow> fid option" where
  "get_local_block_fid s h = map_option loc_fid (map_of (block_locations s) (h, local_location_id s))"

definition upsert_block_location :: "hash \<Rightarrow> location \<Rightarrow> fid \<Rightarrow> int \<Rightarrow> int \<Rightarrow> Store \<Rightarrow> Store" where
  "upsert_block_location h loc f sz ts s =
     s\<lparr>blocks := upsert_newer blk_updated_at h \<lparr>blk_size = sz, blk_updated_at = ts\<rparr> (blocks s),
       block_locations := upsert_newer loc_updated_at (h, loc) \<lparr>loc_fid = f, loc_updated_at = ts\<rparr>
         (block_locations s)\<rparr>"

definition insert_block :: "int \<Rightarrow> hash \<Rightarrow> fid \<Rightarrow> int \<Rightarrow> Store \<Rightarrow> Store" where
  "insert_block sys h f sz s =
     upsert_block_location h (local_location_id s) f sz (store_now_micros s sys) s"

text \<open>\<^verbatim>\<open>AUTOINCREMENT\<close>: one more than the largest sequence number.\<close>

definition next_seq :: "(int, log_row) table \<Rightarrow> int" where
  "next_seq log = 1 + fold (\<lambda>r m. max (fst r) m) log 0"

definition append_fact_tx :: "Crates \<Rightarrow> int \<Rightarrow> Fact \<Rightarrow> Store \<Rightarrow> Store" where
  "append_fact_tx C ts f s =
     s\<lparr>fact_log := fact_log s @
        [(next_seq (fact_log s), \<lparr>log_ts = ts, log_kind = kind_str f, log_payload = fact_to_json C f\<rparr>)]\<rparr>"

definition store_local_block :: "Crates \<Rightarrow> int \<Rightarrow> hash \<Rightarrow> fid \<Rightarrow> int \<Rightarrow> Store \<Rightarrow> Store" where
  "store_local_block C sys h f sz s =
     (let ts = store_now_micros s sys;
          s1 = upsert_block_location h (local_location_id s) f sz ts s
      in append_fact_tx C ts
           (BlockAnnounce (hex_encode C h) (local_location_id s) (hex_encode C f) sz) s1)"

definition add_block_location :: "int \<Rightarrow> hash \<Rightarrow> location \<Rightarrow> fid \<Rightarrow> Store \<Rightarrow> Store" where
  "add_block_location sys h loc f s =
     (let ts = store_now_micros s sys;
          sz = (case map_of (blocks s) h of None \<Rightarrow> 0 | Some r \<Rightarrow> blk_size r)
      in upsert_block_location h loc f sz ts s)"

section \<open>Objects\<close>

definition list_buckets :: "Store \<Rightarrow> (string \<times> int) list" where
  "list_buckets s =
     (let live = filter (\<lambda>(_, r). \<not> obj_deleted r) (objects s)
      in map (\<lambda>b. (b, Min (set (map (\<lambda>(_, r). obj_updated_at r) (filter (\<lambda>((b', _), _). b' = b) live)))))
           (sort (remdups (map (\<lambda>((b, _), _). b) live))))"

definition put_object_row :: "string \<Rightarrow> string \<Rightarrow> object_row \<Rightarrow> Store \<Rightarrow> Store" where
  "put_object_row b k row s = s\<lparr>objects := upsert_newer obj_updated_at (b, k) row (objects s)\<rparr>"

definition insert_object ::
    "Crates \<Rightarrow> int \<Rightarrow> string \<Rightarrow> int \<Rightarrow> string \<Rightarrow> hash list \<Rightarrow> int \<Rightarrow> string \<Rightarrow> Store \<Rightarrow> Store" where
  "insert_object C sys b shard k bs sz et s =
     (let ts = store_now_micros s sys;
          s1 = put_object_row b k
                 \<lparr>obj_blocks = encode_blocks bs, obj_size = sz, obj_etag = et, obj_shard_id = shard,
                  obj_updated_at = ts, obj_deleted = False\<rparr> s
      in append_fact_tx C ts (ObjectPut b k (map (hex_encode C) bs) sz et) s1)"

definition get_object :: "Store \<Rightarrow> string \<Rightarrow> string \<Rightarrow> (hash list \<times> int \<times> string) option" where
  "get_object s b k =
     (case map_of (objects s) (b, k) of
        None \<Rightarrow> None
      | Some r \<Rightarrow> if obj_deleted r then None
                  else Some (decode_blocks (obj_blocks r), obj_size r, obj_etag r))"

definition tombstone :: "Crates \<Rightarrow> string \<Rightarrow> int \<Rightarrow> object_row" where
  "tombstone C k ts =
     \<lparr>obj_blocks = [], obj_size = 0, obj_etag = '''', obj_shard_id = compute_shard_id (blake3 C) k,
      obj_updated_at = ts, obj_deleted = True\<rparr>"

definition delete_object :: "Crates \<Rightarrow> int \<Rightarrow> string \<Rightarrow> string \<Rightarrow> Store \<Rightarrow> Store" where
  "delete_object C sys b k s =
     (let ts = store_now_micros s sys;
          s1 = put_object_row b k (tombstone C k ts) s
      in append_fact_tx C ts (ObjectDelete b k) s1)"

section \<open>Garbage collection state\<close>

definition compute_live_block_set :: "Store \<Rightarrow> hash set" where
  "compute_live_block_set s =
     set (concat (map (\<lambda>(_, r). decode_blocks (obj_blocks r)) (filter (\<lambda>(_, r). \<not> obj_deleted r) (objects s)))) \<union>
     set (concat (map (\<lambda>(_, r). decode_blocks (part_blocks r)) (parts s)))"

definition list_local_block_hashes :: "Store \<Rightarrow> hash list" where
  "list_local_block_hashes s =
     map (\<lambda>((h, _), _). h) (filter (\<lambda>((_, loc), _). loc = local_location_id s) (block_locations s))"

text \<open>\<open>not_before\<close> is the time in milliseconds after the epoch; the caller computes it from the
  system clock, so the error of a time before the epoch is the caller's.\<close>

definition add_pending_deletion :: "hash \<Rightarrow> int \<Rightarrow> Store \<Rightarrow> Store" where
  "add_pending_deletion h not_before s =
     s\<lparr>pending_deletions := AList.update h not_before (pending_deletions s)\<rparr>"

definition get_pending_deletions :: "Store \<Rightarrow> (hash \<times> int) list" where
  "get_pending_deletions s = pending_deletions s"

definition remove_pending_deletion :: "hash \<Rightarrow> Store \<Rightarrow> Store" where
  "remove_pending_deletion h s = s\<lparr>pending_deletions := AList.delete h (pending_deletions s)\<rparr>"

definition delete_local_block :: "hash \<Rightarrow> Store \<Rightarrow> bool \<times> Store" where
  "delete_local_block h s =
     (let removed = (map_of (block_locations s) (h, local_location_id s) \<noteq> None);
          s1 = s\<lparr>block_locations := AList.delete (h, local_location_id s) (block_locations s)\<rparr>;
          remaining = length (filter (\<lambda>((h', _), _). h' = h) (block_locations s1));
          s2 = (if remaining = 0 then s1\<lparr>blocks := AList.delete h (blocks s1)\<rparr> else s1)
      in (removed, s2))"

section \<open>Multipart uploads\<close>

text \<open>Upload ids are the canonical text of a UUID.\<close>

definition insert_multipart :: "string \<Rightarrow> string \<Rightarrow> string \<Rightarrow> Store \<Rightarrow> Store" where
  "insert_multipart b upload_id k s =
     s\<lparr>multipart_uploads := AList.update (b, upload_id) k (multipart_uploads s)\<rparr>"

definition get_multipart_key :: "Store \<Rightarrow> string \<Rightarrow> string \<Rightarrow> string option" where
  "get_multipart_key s b upload_id = map_of (multipart_uploads s) (b, upload_id)"

definition delete_parts :: "string \<Rightarrow> string \<Rightarrow> Store \<Rightarrow> Store" where
  "delete_parts b upload_id s =
     s\<lparr>parts := delete_where (\<lambda>((b', u', _), _). b' = b \<and> u' = upload_id) (parts s)\<rparr>"

definition delete_multipart_upload :: "string \<Rightarrow> string \<Rightarrow> Store \<Rightarrow> Store" where
  "delete_multipart_upload b upload_id s =
     (let s1 = s\<lparr>multipart_uploads := AList.delete (b, upload_id) (multipart_uploads s)\<rparr>
      in s1\<lparr>parts := delete_where (\<lambda>((b', u', _), _). b' = b \<and> u' = upload_id) (parts s1)\<rparr>)"

definition insert_part ::
    "string \<Rightarrow> string \<Rightarrow> int \<Rightarrow> hash list \<Rightarrow> int \<Rightarrow> string \<Rightarrow> Store \<Rightarrow> Store" where
  "insert_part b upload_id n bs sz et s =
     s\<lparr>parts := AList.update (b, upload_id, n)
        \<lparr>part_blocks = encode_blocks bs, part_size = sz, part_etag = et\<rparr> (parts s)\<rparr>"

definition list_parts :: "Store \<Rightarrow> string \<Rightarrow> string \<Rightarrow> (int \<times> hash list \<times> int \<times> string) list" where
  "list_parts s b upload_id =
     sort_key fst
       (map (\<lambda>((_, _, n), r). (n, decode_blocks (part_blocks r), part_size r, part_etag r))
         (filter (\<lambda>((b', u', _), _). b' = b \<and> u' = upload_id) (parts s)))"

text \<open>
  SQL's \<^verbatim>\<open>LIKE\<close> in SQLite: \<^verbatim>\<open>%\<close> matches any sequence, \<^verbatim>\<open>_\<close> one character (here: a byte and the UTF-8
  continuation bytes after it), and ASCII letters match in either case.
\<close>

definition ascii_lower :: "char \<Rightarrow> char" where
  "ascii_lower c = (if 65 \<le> byte_of c \<and> byte_of c \<le> 90 then char_of (byte_of c + 32) else c)"

definition skip_char :: "string \<Rightarrow> string" where
  "skip_char s = dropWhile (\<lambda>c. utf8_cont (byte_of c)) s"

lemma length_skip_char [simp]: "length (skip_char s) \<le> length s"
  by (simp add: skip_char_def length_dropWhile_le)

function like_match :: "string \<Rightarrow> string \<Rightarrow> bool" where
  "like_match [] s = (s = [])"
| "like_match (p # ps) s =
     (if p = CHR ''%'' then
        like_match ps s \<or> (case s of [] \<Rightarrow> False | _ # t \<Rightarrow> like_match (p # ps) (skip_char t))
      else case s of
             [] \<Rightarrow> False
           | c # t \<Rightarrow>
               if p = CHR ''_'' then like_match ps (skip_char t)
               else ascii_lower p = ascii_lower c \<and> like_match ps t)"
  by pat_completeness auto
termination
  by (relation "measure (\<lambda>(p, s). length p + length s)") (auto simp: less_Suc_eq_le intro: le_SucI)

definition list_multipart_uploads ::
    "Store \<Rightarrow> string \<Rightarrow> string option \<Rightarrow> string option \<Rightarrow> nat \<Rightarrow> (string \<times> string) list" where
  "list_multipart_uploads s b pfx key_marker max_uploads =
     (let rows = filter (\<lambda>((b', _), k). b' = b \<and>
                   (case pfx of None \<Rightarrow> True | Some p \<Rightarrow> like_match (p @ ''%'') k) \<and>
                   (case key_marker of None \<Rightarrow> True | Some m \<Rightarrow> k > m)) (multipart_uploads s)
      in take (max_uploads + 1)
           (sort_key fst (sort_key snd (map (\<lambda>((_, u), k). (k, u)) rows))))"

section \<open>Nodes\<close>

definition upsert_node :: "int \<Rightarrow> location \<Rightarrow> string \<Rightarrow> Store \<Rightarrow> Store" where
  "upsert_node sys loc url s =
     s\<lparr>nodes := AList.update loc \<lparr>api_url = url, last_heartbeat = store_now_millis s sys\<rparr> (nodes s)\<rparr>"

definition register_node :: "int \<Rightarrow> string \<Rightarrow> Store \<Rightarrow> Store" where
  "register_node sys url s = upsert_node sys (local_location_id s) url s"

definition record_peer :: "int \<Rightarrow> location \<Rightarrow> string \<Rightarrow> Store \<Rightarrow> Store" where
  "record_peer sys loc url s = (if loc = local_location_id s then s else upsert_node sys loc url s)"

definition all_nodes :: "Store \<Rightarrow> (location \<times> string) list" where
  "all_nodes s = map (\<lambda>(loc, r). (loc, api_url r)) (nodes s)"

definition get_peers :: "Store \<Rightarrow> (location \<times> string) list" where
  "get_peers s = filter (\<lambda>(loc, _). loc \<noteq> local_location_id s) (all_nodes s)"

definition get_peers_with_urls :: "Store \<Rightarrow> (location \<times> string) list" where
  "get_peers_with_urls s = get_peers s"

section \<open>Replication queue\<close>

definition REPLICATION_BACKOFF_BASE_MS :: int where
  "REPLICATION_BACKOFF_BASE_MS = 60000"

definition REPLICATION_BACKOFF_CAP_MS :: int where
  "REPLICATION_BACKOFF_CAP_MS = 6 * 60 * 60 * 1000"

definition REPLICATION_DRAIN_PAGE :: nat where
  "REPLICATION_DRAIN_PAGE = 500"

definition REPLICATION_STUCK_ATTEMPTS :: int where
  "REPLICATION_STUCK_ATTEMPTS = 10"

text \<open>\<^verbatim>\<open>checked_shl\<close> is \<^verbatim>\<open>None\<close> only for a shift of at least the width; bits shifted out are lost.\<close>

definition checked_shl_i64 :: "int \<Rightarrow> nat \<Rightarrow> int option" where
  "checked_shl_i64 x n = (if n < 64 then Some (wrap_i64 (x * 2 ^ n)) else None)"

definition replication_backoff_ms :: "int \<Rightarrow> int" where
  "replication_backoff_ms attempts =
     (if attempts \<le> 0 then REPLICATION_BACKOFF_BASE_MS
      else
        (let shift = nat (min attempts 40)
         in min (case checked_shl_i64 REPLICATION_BACKOFF_BASE_MS shift of
                   None \<Rightarrow> REPLICATION_BACKOFF_CAP_MS | Some x \<Rightarrow> x) REPLICATION_BACKOFF_CAP_MS))"

record ReplicationEntry =
  ent_hash :: hash
  ent_next_attempt_at :: int
  ent_attempts :: int
  ent_enqueued_at :: int

definition enqueue_replication :: "int \<Rightarrow> hash \<Rightarrow> location list \<Rightarrow> Store \<Rightarrow> Store" where
  "enqueue_replication sys h targets s =
     (let now_ms = store_now_millis s sys
      in s\<lparr>replication_queue :=
             fold (\<lambda>t q. insert_ignore (t, h)
                     \<lparr>q_next_attempt_at = 0, q_attempts = 0, q_enqueued_at = now_ms\<rparr> q)
               targets (replication_queue s)\<rparr>)"

definition get_replication_queue :: "int \<Rightarrow> Store \<Rightarrow> ReplicationEntry list" where
  "get_replication_queue sys s =
     (let now = store_now_millis s sys
      in take REPLICATION_DRAIN_PAGE
           (sort_key ent_next_attempt_at
             (map (\<lambda>((_, h), r). \<lparr>ent_hash = h, ent_next_attempt_at = q_next_attempt_at r,
                                  ent_attempts = q_attempts r, ent_enqueued_at = q_enqueued_at r\<rparr>)
               (filter (\<lambda>((t, _), r). t = local_location_id s \<and> q_next_attempt_at r \<le> now)
                 (replication_queue s)))))"

definition dequeue_replication :: "hash \<Rightarrow> Store \<Rightarrow> Store" where
  "dequeue_replication h s =
     s\<lparr>replication_queue := AList.delete (local_location_id s, h) (replication_queue s)\<rparr>"

definition defer_replication :: "int \<Rightarrow> ReplicationEntry \<Rightarrow> Store \<Rightarrow> Store" where
  "defer_replication sys entry s =
     (let new_next = wrap_i64 (store_now_millis s sys + replication_backoff_ms (ent_attempts entry));
          key = (local_location_id s, ent_hash entry)
      in case map_of (replication_queue s) key of
           None \<Rightarrow> s
         | Some r \<Rightarrow> s\<lparr>replication_queue := AList.update key
               (r\<lparr>q_next_attempt_at := new_next, q_attempts := q_attempts r + 1\<rparr>) (replication_queue s)\<rparr>)"

definition get_stuck_replications :: "Store \<Rightarrow> (hash \<times> int \<times> int) list" where
  "get_stuck_replications s =
     map (\<lambda>((_, h), r). (h, q_attempts r, q_enqueued_at r))
       (filter (\<lambda>((t, _), r). t = local_location_id s \<and> q_attempts r \<ge> REPLICATION_STUCK_ATTEMPTS)
         (replication_queue s))"

section \<open>Users and statistics\<close>

definition put_user_row :: "string \<Rightarrow> user_row \<Rightarrow> Store \<Rightarrow> Store" where
  "put_user_row access_key row s = s\<lparr>users := upsert_newer usr_updated_at access_key row (users s)\<rparr>"

definition create_user :: "Crates \<Rightarrow> int \<Rightarrow> string \<Rightarrow> string \<Rightarrow> Policy \<Rightarrow> Store \<Rightarrow> Store" where
  "create_user C sys access_key secret_key policy s =
     (let ts = store_now_micros s sys;
          policy_value = policy_to_json C policy;
          s1 = put_user_row access_key
                 \<lparr>usr_secret = secret_key, usr_pol = policy_value, usr_updated_at = ts\<rparr> s
      in append_fact_tx C ts (UserPut access_key secret_key policy_value) s1)"

definition get_user :: "Crates \<Rightarrow> Store \<Rightarrow> string \<Rightarrow> (string \<times> Policy) option result" where
  "get_user C s access_key =
     (case map_of (users s) access_key of
        None \<Rightarrow> Ok None
      | Some r \<Rightarrow> bind_result (policy_of_json C (usr_pol r)) (\<lambda>p. Ok (Some (usr_secret r, p))))"

definition local_block_bytes :: "Store \<Rightarrow> int" where
  "local_block_bytes s =
     sum_list (map (\<lambda>h. case map_of (blocks s) h of None \<Rightarrow> 0 | Some r \<Rightarrow> blk_size r)
       (list_local_block_hashes s))"

record StoreStats =
  st_live_objects :: nat
  st_local_blocks :: nat
  st_local_block_bytes :: int
  st_pending_deletions :: nat
  st_pending_pulls :: nat
  st_fact_count :: nat

definition stats :: "Store \<Rightarrow> StoreStats" where
  "stats s =
     \<lparr>st_live_objects = length (filter (\<lambda>(_, r). \<not> obj_deleted r) (objects s)),
      st_local_blocks = length (list_local_block_hashes s),
      st_local_block_bytes = local_block_bytes s,
      st_pending_deletions = length (pending_deletions s),
      st_pending_pulls = length (filter (\<lambda>((t, _), _). t = local_location_id s) (replication_queue s)),
      st_fact_count = length (fact_log s)\<rparr>"

lemmas store_op_defs [store_defs] =
  upsert_block_location_def insert_block_def append_fact_tx_def store_local_block_def
  add_block_location_def put_object_row_def insert_object_def delete_object_def
  add_pending_deletion_def remove_pending_deletion_def delete_local_block_def
  insert_multipart_def delete_parts_def delete_multipart_upload_def insert_part_def
  upsert_node_def register_node_def record_peer_def enqueue_replication_def
  dequeue_replication_def defer_replication_def put_user_row_def create_user_def

section \<open>The tables as last-write-wins tables\<close>

interpretation objs: lww_table "\<lambda>bk. put_object_row (fst bk) (snd bk)" "\<lambda>s. map_of (objects s)" obj_updated_at
  by unfold_locales (simp add: put_object_row_def map_of_upsert_newer)

interpretation usrs: lww_table put_user_row "\<lambda>s. map_of (users s)" usr_updated_at
  by unfold_locales (simp add: put_user_row_def map_of_upsert_newer)

lemma map_of_locations_upsert:
  "map_of (block_locations (upsert_block_location h loc (loc_fid r) sz (loc_updated_at r) s)) =
     (map_of (block_locations s))((h, loc) \<mapsto> lww_join loc_updated_at (map_of (block_locations s) (h, loc)) r)"
  by (cases r) (simp add: upsert_block_location_def map_of_upsert_newer)

lemma map_of_blocks_upsert:
  "map_of (blocks (upsert_block_location h loc f (blk_size r) (blk_updated_at r) s)) =
     (map_of (blocks s))(h \<mapsto> lww_join blk_updated_at (map_of (blocks s) h) r)"
  by (cases r) (simp add: upsert_block_location_def map_of_upsert_newer)

interpretation locs: lww_table
  "\<lambda>hl r. upsert_block_location (fst hl) (snd hl) (loc_fid r) sz (loc_updated_at r)"
  "\<lambda>s. map_of (block_locations s)" loc_updated_at
  for sz
  by unfold_locales (simp add: map_of_locations_upsert)

interpretation blks: lww_table
  "\<lambda>h r. upsert_block_location h loc f (blk_size r) (blk_updated_at r)"
  "\<lambda>s. map_of (blocks s)" blk_updated_at
  for loc f
  by unfold_locales (simp add: map_of_blocks_upsert)

section \<open>Invariant of the schema\<close>

text \<open>Primary keys are unique, and the log is numbered from 1 without gaps.\<close>

definition log_numbered :: "(int, log_row) table \<Rightarrow> bool" where
  "log_numbered log \<longleftrightarrow> map fst log = map int [1..<Suc (length log)]"

definition store_ok :: "Store \<Rightarrow> bool" where
  "store_ok s \<longleftrightarrow>
     table_ok (objects s) \<and> table_ok (blocks s) \<and> table_ok (block_locations s) \<and>
     table_ok (pending_deletions s) \<and> table_ok (users s) \<and> table_ok (multipart_uploads s) \<and>
     table_ok (parts s) \<and> table_ok (nodes s) \<and> table_ok (replication_queue s) \<and>
     log_numbered (fact_log s) \<and> table_ok (replication_cursors s)"

lemma fold_max_ints: "fold (\<lambda>r m. max (fst r) m) log (m :: int) = fold max (map fst log) m"
  by (simp add: fold_map comp_def)

lemma fold_max_upto: "fold max (map int [1..<Suc n]) 0 = int n"
  by (induction n) auto

lemma next_seq_numbered [simp]: "log_numbered log \<Longrightarrow> next_seq log = int (length log) + 1"
  by (simp only: next_seq_def fold_max_ints log_numbered_def fold_max_upto)

lemma log_numbered_snoc:
  "log_numbered log \<Longrightarrow> log_numbered (log @ [(int (length log) + 1, r)])"
  by (simp add: log_numbered_def)

lemma store_ok_new [simp]: "store_ok (store_new loc clk)"
  by (simp add: store_ok_def store_new_def log_numbered_def)

lemma table_ok_fold_insert_ignore:
  "table_ok t \<Longrightarrow> table_ok (fold (\<lambda>x q. insert_ignore (k x) (v x) q) xs t)"
  by (induction xs arbitrary: t) simp_all

lemma store_ok_append_fact [simp]: "store_ok s \<Longrightarrow> store_ok (append_fact_tx C ts f s)"
  by (auto simp: store_ok_def append_fact_tx_def intro: log_numbered_snoc)

lemma store_ok_writes [simp]:
  assumes "store_ok s"
  shows "store_ok (put_object_row b k row s)" "store_ok (put_user_row ak urow s)"
    "store_ok (upsert_block_location h loc f sz ts s)"
    "store_ok (add_pending_deletion h t s)" "store_ok (remove_pending_deletion h s)"
    "store_ok (insert_multipart b u k s)" "store_ok (delete_parts b u s)"
    "store_ok (delete_multipart_upload b u s)" "store_ok (insert_part b u n bs sz et s)"
    "store_ok (upsert_node sys loc url s)" "store_ok (dequeue_replication h s)"
  using assms by (simp_all add: store_ok_def store_defs Let_def)

lemma store_ok_delete_local [simp]: "store_ok s \<Longrightarrow> store_ok (snd (delete_local_block h s))"
  by (simp add: store_ok_def delete_local_block_def Let_def)

lemma store_ok_enqueue [simp]: "store_ok s \<Longrightarrow> store_ok (enqueue_replication sys h ts s)"
  by (simp add: store_ok_def enqueue_replication_def Let_def table_ok_fold_insert_ignore)

lemma store_ok_defer [simp]: "store_ok s \<Longrightarrow> store_ok (defer_replication sys e s)"
  by (simp add: store_ok_def defer_replication_def Let_def split: option.split)

lemma store_ok_ops [simp]:
  assumes "store_ok s"
  shows "store_ok (insert_object C sys b sh k bs sz et s)" "store_ok (delete_object C sys b k s)"
    "store_ok (store_local_block C sys h f sz s)" "store_ok (create_user C sys ak sk p s)"
    "store_ok (insert_block sys h f sz s)" "store_ok (add_block_location sys h loc f s)"
    "store_ok (register_node sys url s)" "store_ok (record_peer sys loc url s)"
  using assms
  by (simp_all add: insert_object_def delete_object_def store_local_block_def create_user_def
      insert_block_def add_block_location_def register_node_def record_peer_def Let_def)

end
