(* ===== verification/Store_Props.thy ===== *)
theory Store_Props
  imports Store
begin

text \<open>
  What each method of the metadata store does to what a reader sees: manifests, tombstones,
  multipart parts, users, peers, the replication queue.
\<close>

section \<open>Manifests\<close>

lemma decode_blocks_short [simp]: "length raw < 32 \<Longrightarrow> decode_blocks raw = []"
  by (simp add: decode_blocks.simps)

lemma decode_blocks_append:
  "length h = 32 \<Longrightarrow> decode_blocks (h @ raw) = h # decode_blocks raw"
  by (subst decode_blocks.simps) simp

definition hashes_ok :: "hash list \<Rightarrow> bool" where
  "hashes_ok hs \<longleftrightarrow> (\<forall>h \<in> set hs. length h = 32)"

lemma decode_encode_blocks [simp]: "hashes_ok hs \<Longrightarrow> decode_blocks (encode_blocks hs) = hs"
  by (induction hs) (auto simp: hashes_ok_def encode_blocks_def decode_blocks_append)

lemma decode_blocks_length: "h \<in> set (decode_blocks raw) \<Longrightarrow> length h = 32"
proof (induction raw rule: decode_blocks.induct)
  case (1 raw)
  then show ?case
    by (cases "length raw < 32") (auto simp: decode_blocks.simps [of raw])
qed

lemma get_object_put_row:
  "get_object (put_object_row b k row s) b' k' =
     (if (b', k') = (b, k) then
        (let r = lww_join obj_updated_at (map_of (objects s) (b, k)) row
         in if obj_deleted r then None else Some (decode_blocks (obj_blocks r), obj_size r, obj_etag r))
      else get_object s b' k')"
  by (simp add: get_object_def put_object_row_def map_of_upsert_newer Let_def)

lemma objects_append_fact [simp]: "objects (append_fact_tx C ts f s) = objects s"
  by (simp add: append_fact_tx_def)

lemma get_object_append_fact [simp]: "get_object (append_fact_tx C ts f s) = get_object s"
  by (simp add: get_object_def fun_eq_iff)

definition row_time :: "Store \<Rightarrow> string \<Rightarrow> string \<Rightarrow> int option" where
  "row_time s b k = map_option obj_updated_at (map_of (objects s) (b, k))"

text \<open>
  Reading back a write: after \<^verbatim>\<open>insert_object\<close> the key holds exactly the written manifest
  (hashes in order, size, etag) when the clock reading is newer than the key's stored timestamp;
  otherwise the write is dropped without an error and the key reads as before. Every other key is
  untouched either way.
\<close>

theorem insert_object_get:
  assumes "hashes_ok bs"
  shows "get_object (insert_object C sys b shard k bs sz et s) b' k' =
    (if (b', k') = (b, k) \<and> (\<forall>t. row_time s b k = Some t \<longrightarrow> t < store_now_micros s sys)
     then Some (bs, sz, et) else get_object s b' k')"
  using assms
  by (cases "map_of (objects s) (b, k)")
    (auto simp: insert_object_def Let_def put_object_row_def map_of_upsert_newer row_time_def get_object_def)

theorem insert_object_get_witness:
  "get_object (insert_object demo_crates 5 ''b'' 0 ''k'' [replicate 32 7] 9 ''e'' (store_new ''a'' (clock_new 0))) ''b'' ''k''
    = Some ([replicate 32 7], 9, ''e'')"
proof -
  have "hashes_ok [replicate 32 7]" by (simp add: hashes_ok_def)
  from insert_object_get [OF this, of demo_crates 5 "''b''" 0 "''k''" 9 "''e''"
      "store_new ''a'' (clock_new 0)" "''b''" "''k''"]
  show ?thesis by (simp add: row_time_def store_new_def)
qed

text \<open>
  Deletes are last-write-wins tombstones: after \<^verbatim>\<open>delete_object\<close> with a newer clock reading the
  key is gone, and no manifest with an older or equal timestamp, whenever it arrives, brings it
  back; a strictly newer one does.
\<close>

theorem tombstone_not_resurrected:
  fixes C s sys b k
  defines "s' \<equiv> delete_object C sys b k s"
  assumes "\<forall>t. row_time s b k = Some t \<longrightarrow> t < store_now_micros s sys"
  shows "get_object s' b k = None \<and>
    (\<not> obj_deleted row \<longrightarrow>
       (get_object (put_object_row b k row s') b k \<noteq> None) = (store_now_micros s sys < obj_updated_at row))"
proof -
  have row: "map_of (objects s') (b, k) = Some (tombstone C k (store_now_micros s sys))"
    using assms(2) unfolding s'_def
    by (cases "map_of (objects s) (b, k)")
      (auto simp: delete_object_def Let_def put_object_row_def map_of_upsert_newer row_time_def tombstone_def)
  then show ?thesis
    by (simp add: get_object_def put_object_row_def map_of_upsert_newer tombstone_def)
qed

theorem tombstone_not_resurrected_witness:
  "get_object (delete_object demo_crates 5 ''b'' ''k'' (store_new ''a'' (clock_new 0))) ''b'' ''k'' = None"
proof -
  have "\<forall>t. row_time (store_new ''a'' (clock_new 0)) ''b'' ''k'' = Some t \<longrightarrow>
    t < store_now_micros (store_new ''a'' (clock_new 0)) 5"
    by (simp add: row_time_def store_new_def)
  from tombstone_not_resurrected [OF this] show ?thesis by blast
qed

section \<open>Users\<close>

lemma users_append_fact [simp]: "users (append_fact_tx C ts f s) = users s"
  by (simp add: append_fact_tx_def)

text \<open>
  A created credential authenticates: with a clock reading newer than the stored row,
  \<^verbatim>\<open>get_user\<close> returns the secret and the policy \<^verbatim>\<open>create_user\<close> was given, through their JSON form.
\<close>

theorem create_user_get:
  assumes "json_ok C"
    and "\<forall>r. map_of (users s) ak = Some r \<longrightarrow> usr_updated_at r < store_now_micros s sys"
  shows "get_user C (create_user C sys ak sk p s) ak = Ok (Some (sk, p))"
  using assms
  by (cases "map_of (users s) ak")
    (auto simp: get_user_def create_user_def Let_def put_user_row_def map_of_upsert_newer)

theorem create_user_get_witness:
  "get_user demo_crates (create_user demo_crates 5 ''AK'' ''SK'' admin_policy (store_new ''a'' (clock_new 0))) ''AK''
    = Ok (Some (''SK'', admin_policy))"
  by (rule create_user_get) (simp_all add: demo_json_ok store_new_def)

section \<open>Peers\<close>

text \<open>
  The peer registry protects the site's own entry: whatever a peer announces, \<^verbatim>\<open>record_peer\<close>
  leaves the site's own address alone, \<^verbatim>\<open>get_peers\<close> never contains the site itself, and a recorded
  peer is listed with the recorded address.
\<close>

theorem record_peer_registry:
  fixes s sys loc url
  assumes "store_ok s"
  defines "s' \<equiv> record_peer sys loc url s"
  shows "map_of (all_nodes s') (local_location_id s) = map_of (all_nodes s) (local_location_id s) \<and>
    local_location_id s \<notin> fst ` set (get_peers s') \<and>
    (loc \<noteq> local_location_id s \<longrightarrow> (loc, url) \<in> set (get_peers s'))"
proof -
  have m: "map_of (all_nodes t) = map_option api_url \<circ> map_of (nodes t)" for t
    using map_of_map [of api_url "nodes t"] by (simp add: all_nodes_def)
  have k: "local_location_id s' = local_location_id s"
    by (simp add: s'_def record_peer_def upsert_node_def)
  have "loc \<noteq> local_location_id s \<Longrightarrow> map_of (all_nodes s') loc = Some url"
    by (simp add: m s'_def record_peer_def upsert_node_def AList.update_conv')
  then have "loc \<noteq> local_location_id s \<Longrightarrow> (loc, url) \<in> set (get_peers s')"
    by (auto simp: get_peers_def k dest: map_of_SomeD)
  moreover have "map_of (all_nodes s') (local_location_id s) = map_of (all_nodes s) (local_location_id s)"
    by (simp add: m s'_def record_peer_def upsert_node_def AList.update_conv')
  moreover have "local_location_id s \<notin> fst ` set (get_peers s')"
    by (auto simp: get_peers_def k)
  ultimately show ?thesis by blast
qed

theorem record_peer_registry_witness:
  "(''b'', ''http://b'') \<in> set (get_peers (record_peer 0 ''b'' ''http://b'' (store_new ''a'' (clock_new 0))))"
  using record_peer_registry [OF store_ok_new [of "''a''" "clock_new 0"], of 0 "''b''" "''http://b''"]
  by (simp add: store_new_def)

section \<open>Replication queue\<close>

lemma backoff_shift:
  assumes "0 \<le> n" "n \<le> (40 :: nat)"
  shows "checked_shl_i64 REPLICATION_BACKOFF_BASE_MS n = Some (60000 * 2 ^ n)"
proof -
  have "(2 :: int) ^ n \<le> 2 ^ 40" using assms by (intro power_increasing) auto
  then have "60000 * 2 ^ n < (2 :: int) ^ 63" by simp
  moreover have "- (2 ^ 63) \<le> 60000 * (2 :: int) ^ n" by (rule order_trans [of _ 0]) simp_all
  ultimately have "in_i64 (60000 * 2 ^ n)" unfolding in_i64_def by blast
  then show ?thesis using assms by (simp add: checked_shl_i64_def REPLICATION_BACKOFF_BASE_MS_def)
qed

text \<open>
  The retry schedule is what its comment says for every attempt count: one minute, doubling
  with each attempt, capped at six hours. The shift never overflows 64 bits.
\<close>

theorem replication_backoff_schedule:
  assumes "0 \<le> attempts"
  shows "replication_backoff_ms attempts = min (60000 * 2 ^ nat attempts) (6 * 60 * 60 * 1000)"
proof (cases "attempts \<le> 40")
  case True
  with assms backoff_shift [of "nat attempts"] show ?thesis
    by (cases "attempts = 0")
      (simp_all add: replication_backoff_ms_def REPLICATION_BACKOFF_BASE_MS_def
        REPLICATION_BACKOFF_CAP_MS_def min_def Let_def)
next
  case False
  have "(2 :: int) ^ 40 \<le> 2 ^ nat attempts" using False by (intro power_increasing) auto
  then have "min (60000 * 2 ^ nat attempts) (6 * 60 * 60 * 1000) = (21600000 :: int)" by simp
  moreover have "replication_backoff_ms attempts = 21600000"
    using False backoff_shift [of 40]
    by (simp add: replication_backoff_ms_def REPLICATION_BACKOFF_CAP_MS_def Let_def)
  ultimately show ?thesis by simp
qed

theorem replication_backoff_schedule_witness: "replication_backoff_ms 3 = 480000"
  using replication_backoff_schedule [of 3] by simp

end
