(* ===== verification/Blob_Store.thy ===== *)
theory Blob_Store
  imports Externals
begin

text \<open>
  The byte stores behind the block store. \<^verbatim>\<open>BlobStore\<close> of \<^verbatim>\<open>src/src/storage.rs\<close> (lines 103-111) is a
  trait object, modelled as a locale with the laws the block store relies on; \<^verbatim>\<open>LocalBlob\<close> (lines
  139-179) is the file-system implementation, over a table of files with faults of the operating
  system as an argument, and interprets the locale.
\<close>

section \<open>The interface\<close>

text \<open>
  \<open>stored b h f\<close> is what the byte store \<open>b\<close> holds for the hash \<open>h\<close> under the token \<open>f\<close>. A write that
  returns a token has stored exactly the data; a failed write changes nothing a reader can see; a
  read returns stored data or fails; operations on one hash leave the others alone.
\<close>

locale blob_store =
  fixes put :: "nat \<Rightarrow> hash \<Rightarrow> bytes \<Rightarrow> 'b \<Rightarrow> fid result \<times> 'b"
    and get :: "nat \<Rightarrow> hash \<Rightarrow> fid \<Rightarrow> 'b \<Rightarrow> bytes result"
    and del :: "nat \<Rightarrow> hash \<Rightarrow> fid \<Rightarrow> 'b \<Rightarrow> unit result \<times> 'b"
    and stored :: "'b \<Rightarrow> hash \<Rightarrow> fid \<Rightarrow> bytes option"
    and good :: "hash \<Rightarrow> bool"
  assumes put_stored: "good h \<Longrightarrow> put n h d b = (Ok f, b') \<Longrightarrow> stored b' h f = Some d"
    and put_failed: "good h \<Longrightarrow> good h' \<Longrightarrow> put n h d b = (Err, b') \<Longrightarrow> stored b' h' f = stored b h' f"
    and put_other: "good h \<Longrightarrow> good h' \<Longrightarrow> put n h d b = (r, b') \<Longrightarrow> h' \<noteq> h \<Longrightarrow> stored b' h' f = stored b h' f"
    and get_stored: "good h \<Longrightarrow> get n h f b = Ok d \<Longrightarrow> stored b h f = Some d"
    and del_other: "good h \<Longrightarrow> good h' \<Longrightarrow> del n h g b = (q, b') \<Longrightarrow> h' \<noteq> h \<Longrightarrow> stored b' h' f = stored b h' f"
begin

text \<open>What was written is what a successful read returns, also after other hashes were written or
  deleted.\<close>

lemma get_after_put:
  assumes "good h" "put n h d b = (Ok f, b')" "get m h f b' = Ok d'"
  shows "d' = d"
  using put_stored [OF assms(1,2)] get_stored [OF assms(1,3)] by simp

lemma get_after_delete_other:
  assumes "good h" "good h'" "h \<noteq> h'" "put n h d b = (Ok f, b1)" "del m h' g b1 = (q, b2)" "get k h f b2 = Ok d'"
  shows "d' = d"
  using put_stored [OF assms(1,4)] del_other [OF assms(2,1,5,3)] get_stored [OF assms(1,6)] by simp

end

section \<open>Files\<close>

datatype fs_op =
    CreateDirAll string | WriteFile string | RenameFile string string | ReadFile string | RemoveFile string

text \<open>
  Whether the operating system performs an operation, and how much of the data is in the file after
  a failed write (nothing changed for \<open>None\<close>).
\<close>

record FsFaults =
  io_ok :: "nat \<Rightarrow> fs_op \<Rightarrow> bool"
  io_cut :: "nat \<Rightarrow> nat option"

type_synonym files = "(string, bytes) table"

definition path_for :: "Crates \<Rightarrow> string \<Rightarrow> hash \<Rightarrow> string" where
  "path_for C root h =
     (let hex = hex_encode C h
      in root @ ''/'' @ take 2 hex @ ''/'' @ take 2 (drop 2 hex) @ ''/'' @ hex)"

definition parent_for :: "Crates \<Rightarrow> string \<Rightarrow> hash \<Rightarrow> string" where
  "parent_for C root h =
     (let hex = hex_encode C h in root @ ''/'' @ take 2 hex @ ''/'' @ take 2 (drop 2 hex))"

definition local_put ::
    "Crates \<Rightarrow> string \<Rightarrow> FsFaults \<Rightarrow> nat \<Rightarrow> hash \<Rightarrow> bytes \<Rightarrow> files \<Rightarrow> fid result \<times> files" where
  "local_put C root io n h data fs =
     (let path = path_for C root h; tmp = path @ ''.tmp''
      in if \<not> io_ok io n (CreateDirAll (parent_for C root h)) then (Err, fs)
         else if \<not> io_ok io n (WriteFile tmp) then
           (Err, case io_cut io n of None \<Rightarrow> fs | Some c \<Rightarrow> AList.update tmp (take c data) fs)
         else (let fs1 = AList.update tmp data fs
               in if \<not> io_ok io n (RenameFile tmp path) then (Err, fs1)
                  else (Ok (as_bytes ''local''), AList.update path data (AList.delete tmp fs1))))"

definition local_get :: "Crates \<Rightarrow> string \<Rightarrow> FsFaults \<Rightarrow> nat \<Rightarrow> hash \<Rightarrow> fid \<Rightarrow> files \<Rightarrow> bytes result" where
  "local_get C root io n h f fs =
     (let path = path_for C root h
      in if \<not> io_ok io n (ReadFile path) then Err
         else (case map_of fs path of None \<Rightarrow> Err | Some d \<Rightarrow> Ok d))"

definition local_delete ::
    "Crates \<Rightarrow> string \<Rightarrow> FsFaults \<Rightarrow> nat \<Rightarrow> hash \<Rightarrow> fid \<Rightarrow> files \<Rightarrow> unit result \<times> files" where
  "local_delete C root io n h f fs =
     (let path = path_for C root h
      in if map_of fs path = None then (Ok (), fs)
         else if \<not> io_ok io n (RemoveFile path) then (Err, fs)
         else (Ok (), AList.delete path fs))"

definition local_stored :: "Crates \<Rightarrow> string \<Rightarrow> files \<Rightarrow> hash \<Rightarrow> fid \<Rightarrow> bytes option" where
  "local_stored C root fs h f = map_of fs (path_for C root h)"

definition hash_good :: "Crates \<Rightarrow> hash \<Rightarrow> bool" where
  "hash_good C h \<longleftrightarrow> hex_ok C \<and> length h = 32"

lemma path_for_inject:
  assumes "hash_good C h" "hash_good C h'"
  shows "path_for C root h = path_for C root h' \<longleftrightarrow> h = h'"
proof
  assume "path_for C root h = path_for C root h'"
  then have "hex_encode C h = hex_encode C h'"
    using assms by (simp add: path_for_def Let_def hash_good_def append_eq_append_conv)
  then show "h = h'" using assms by (simp add: hash_good_def hex_encode_inject)
qed simp

lemma path_for_not_tmp:
  assumes "hash_good C h" "hash_good C h'"
  shows "path_for C root h \<noteq> path_for C root h' @ ''.tmp''"
proof
  assume "path_for C root h = path_for C root h' @ ''.tmp''"
  from arg_cong [OF this, of length] assms show False by (simp add: path_for_def Let_def hash_good_def)
qed

interpretation lb: blob_store "local_put C root io" "local_get C root io" "local_delete C root io"
    "local_stored C root" "hash_good C"
  for C root io
proof
  fix h h' n d b b' f g and r :: "fid result" and q :: "unit result"
  show "hash_good C h \<Longrightarrow> local_put C root io n h d b = (Ok f, b') \<Longrightarrow> local_stored C root b' h f = Some d"
    by (auto simp: local_put_def local_stored_def Let_def AList.update_conv' split: if_splits)
  show "hash_good C h \<Longrightarrow> hash_good C h' \<Longrightarrow> local_put C root io n h d b = (Err, b') \<Longrightarrow>
      local_stored C root b' h' f = local_stored C root b h' f"
    by (auto simp: local_put_def local_stored_def Let_def AList.update_conv' path_for_not_tmp
        split: if_splits option.splits)
  show "hash_good C h \<Longrightarrow> hash_good C h' \<Longrightarrow> local_put C root io n h d b = (r, b') \<Longrightarrow> h' \<noteq> h \<Longrightarrow>
      local_stored C root b' h' f = local_stored C root b h' f"
    by (auto simp: local_put_def local_stored_def Let_def AList.update_conv' AList.delete_conv'
        path_for_not_tmp path_for_inject split: if_splits option.splits)
  show "hash_good C h \<Longrightarrow> local_get C root io n h f b = Ok d \<Longrightarrow> local_stored C root b h f = Some d"
    by (auto simp: local_get_def local_stored_def Let_def split: if_splits option.splits)
  show "hash_good C h \<Longrightarrow> hash_good C h' \<Longrightarrow> local_delete C root io n h g b = (q, b') \<Longrightarrow> h' \<noteq> h \<Longrightarrow>
      local_stored C root b' h' f = local_stored C root b h' f"
    by (auto simp: local_delete_def local_stored_def Let_def AList.delete_conv' path_for_inject split: if_splits)
qed

section \<open>Properties\<close>

text \<open>
  C22. A block file is never partial: whatever step of writing a block fails and however much of the
  data reached the temporary file, every block's file holds what it held before, and after a write
  that succeeded the block's file holds exactly the data and every other block's file is unchanged.
\<close>

theorem local_put_atomic:
  assumes "hash_good C h" "hash_good C h'" "local_put C root io n h d fs = (r, fs')"
  shows "map_of fs' (path_for C root h') =
    (if r \<noteq> Err \<and> h' = h then Some d else map_of fs (path_for C root h'))"
proof (cases r)
  case Err
  with lb.put_failed [OF assms(1,2)] assms(3) show ?thesis by (simp add: local_stored_def)
next
  case (Ok f)
  with lb.put_stored [OF assms(1), of root io n d fs f fs'] lb.put_other [OF assms] assms(3) show ?thesis
    by (simp add: local_stored_def)
qed

theorem local_put_atomic_witness:
  "let h = replicate 32 1; io = \<lparr>io_ok = (\<lambda>n op. case op of WriteFile p \<Rightarrow> False | _ \<Rightarrow> True), io_cut = (\<lambda>_. Some 1)\<rparr>;
       fs = [(path_for demo_crates ''/d'' h, [9, 9])]
   in map_of (snd (local_put demo_crates ''/d'' io 0 h [1, 2, 3] fs)) (path_for demo_crates ''/d'' h) = Some [9, 9]"
proof -
  let ?h = "replicate 32 1 :: hash"
  let ?io = "\<lparr>io_ok = (\<lambda>n op. case op of WriteFile p \<Rightarrow> False | _ \<Rightarrow> True), io_cut = (\<lambda>_. Some 1)\<rparr>"
  let ?fs = "[(path_for demo_crates ''/d'' ?h, [9, 9])] :: files"
  have "hash_good demo_crates ?h" by (simp add: hash_good_def demo_hex_ok)
  moreover have "fst (local_put demo_crates ''/d'' ?io 0 ?h [1, 2, 3] ?fs) = Err"
    by (simp add: local_put_def Let_def)
  ultimately show ?thesis
    using local_put_atomic [of demo_crates ?h ?h "''/d''" ?io 0 "[1, 2, 3]" ?fs Err]
    by (simp add: Let_def prod_eq_iff)
qed

end
