(* ===== verification/Decimal.thy ===== *)
theory Decimal
  imports Externals
begin

text \<open>
  Integers as text, the parts of Rust's \<^verbatim>\<open>str::parse\<close> and \<^verbatim>\<open>to_string\<close> that the request handlers use
  for part numbers, byte ranges and log positions.
\<close>

text \<open>\<^verbatim>\<open>str::parse\<close> on integers: an optional sign, then at least one digit, in the range of the type.\<close>

definition digit_value :: "char \<Rightarrow> nat option" where
  "digit_value c = (if 48 \<le> byte_of c \<and> byte_of c \<le> 57 then Some (byte_of c - 48) else None)"

fun parse_digits :: "nat \<Rightarrow> string \<Rightarrow> nat option" where
  "parse_digits acc [] = Some acc"
| "parse_digits acc (c # cs) =
     (case digit_value c of None \<Rightarrow> None | Some v \<Rightarrow> parse_digits (10 * acc + v) cs)"

definition parse_nat :: "string \<Rightarrow> nat option" where
  "parse_nat s = (if s = [] then None else parse_digits 0 s)"

definition parse_u64 :: "string \<Rightarrow> int option" where
  "parse_u64 s =
     (case parse_nat (if take 1 s = ''+'' then drop 1 s else s) of
        Some n \<Rightarrow> if int n < 2 ^ 64 then Some (int n) else None
      | None \<Rightarrow> None)"

definition parse_signed :: "nat \<Rightarrow> string \<Rightarrow> int option" where
  "parse_signed w s =
     (let neg = (take 1 s = ''-'');
          digits = (if neg \<or> take 1 s = ''+'' then drop 1 s else s)
      in case parse_nat digits of
           None \<Rightarrow> None
         | Some n \<Rightarrow>
             (let v = (if neg then - int n else int n)
              in if - (2 ^ (w - 1)) \<le> v \<and> v < 2 ^ (w - 1) then Some v else None))"

definition parse_i32 :: "string \<Rightarrow> int option" where
  "parse_i32 s = parse_signed 32 s"

definition parse_i64 :: "string \<Rightarrow> int option" where
  "parse_i64 s = parse_signed 64 s"

text \<open>\<^verbatim>\<open>to_string\<close> on integers.\<close>

fun show_nat :: "nat \<Rightarrow> string" where
  "show_nat n = (if n < 10 then [char_of (48 + n)] else show_nat (n div 10) @ [char_of (48 + n mod 10)])"

declare show_nat.simps [simp del]

definition show_int :: "int \<Rightarrow> string" where
  "show_int i = (if i < 0 then ''-'' @ show_nat (nat (- i)) else show_nat (nat i))"

lemma digit_value_char [simp]: "d < 10 \<Longrightarrow> digit_value (char_of (48 + d)) = Some d"
  by (simp add: digit_value_def)

lemma parse_digits_snoc:
  "parse_digits acc (xs @ [c]) =
     (case parse_digits acc xs of None \<Rightarrow> None | Some v \<Rightarrow> map_option (\<lambda>d. 10 * v + d) (digit_value c))"
  by (induction acc xs rule: parse_digits.induct) (auto split: option.split)

lemma parse_digits_show [simp]: "parse_digits 0 (show_nat n) = Some n"
proof (induction n rule: show_nat.induct)
  case (1 n)
  then show ?case by (subst show_nat.simps) (simp add: parse_digits_snoc)
qed

lemma show_nat_hd: "\<exists>d r. show_nat n = char_of (48 + d) # r \<and> d < (10 :: nat)"
proof (induction n rule: show_nat.induct)
  case (1 n)
  show ?case
  proof (cases "n < 10")
    case True
    then show ?thesis by (intro exI [of _ n] exI [of _ "[]"]) (simp add: show_nat.simps [of n])
  next
    case False
    with 1 obtain d r where "show_nat (n div 10) = char_of (48 + d) # r" "d < (10 :: nat)" by blast
    with False show ?thesis
      by (intro exI [of _ d] exI [of _ "r @ [char_of (48 + n mod 10)]"]) (simp add: show_nat.simps [of n])
  qed
qed

lemma parse_nat_show [simp]: "parse_nat (show_nat n) = Some n"
  using show_nat_hd [of n] by (auto simp: parse_nat_def)

lemma show_nat_unsigned: "take 1 (show_nat n) \<noteq> ''+''" "take 1 (show_nat n) \<noteq> ''-''"
proof -
  obtain d r where d: "show_nat n = char_of (48 + d) # r" "d < (10 :: nat)" using show_nat_hd by blast
  have "byte_of (char_of (48 + d) :: char) = 48 + d" using d(2) by simp
  then have "char_of (48 + d) \<noteq> CHR ''+''" "char_of (48 + d) \<noteq> CHR ''-''" by force+
  then show "take 1 (show_nat n) \<noteq> ''+''" "take 1 (show_nat n) \<noteq> ''-''" by (simp_all add: d(1))
qed

lemma parse_signed_show: "- (2 ^ (w - 1)) \<le> i \<Longrightarrow> i < 2 ^ (w - 1) \<Longrightarrow> parse_signed w (show_int i) = Some i"
  using show_nat_unsigned by (auto simp: parse_signed_def show_int_def Let_def)

lemma parse_show_int: "- (2 ^ 31) \<le> i \<Longrightarrow> i < 2 ^ 31 \<Longrightarrow> parse_i32 (show_int i) = Some i"
  unfolding parse_i32_def by (rule parse_signed_show) simp_all

lemma parse_show_i64: "in_i64 i \<Longrightarrow> parse_i64 (show_int i) = Some i"
  unfolding parse_i64_def in_i64_def by (rule parse_signed_show) simp_all

end
