(* ===== verification/Size_Text.thy ===== *)
theory Size_Text
  imports Decimal
begin

text \<open>
  Sizes as text, \<^verbatim>\<open>parse_size\<close> and \<^verbatim>\<open>format_bytes\<close> of \<^verbatim>\<open>src/src/disk.rs\<close>. Both compute with \<^verbatim>\<open>f64\<close>; a
  non-negative \<^verbatim>\<open>f64\<close> is a significand and an exponent of two, and every operation rounds to the nearest
  representable number, ties to even, as IEEE 754 prescribes.
\<close>

section \<open>Binary floating point\<close>

datatype f64 = Finite int int | Infinity

function bit_length :: "int \<Rightarrow> nat" where
  "bit_length n = (if n \<le> 0 then 0 else Suc (bit_length (n div 2)))"
  by pat_completeness auto
termination
  by (relation "measure nat") auto

declare bit_length.simps [simp del]

definition round_half_even :: "int \<Rightarrow> int \<Rightarrow> int" where
  "round_half_even a b =
     (let q = a div b; r = a mod b in if 2 * r < b \<or> 2 * r = b \<and> even q then q else q + 1)"

text \<open>The fraction \<open>a / b\<close> times \<open>2\<^sup>e\<close>, as a fraction.\<close>

definition scale2 :: "int \<Rightarrow> int \<times> int \<Rightarrow> int \<times> int" where
  "scale2 e p = (if 0 \<le> e then (fst p * 2 ^ nat e, snd p) else (fst p, snd p * 2 ^ nat (- e)))"

text \<open>The exponent of the leading bit of a fraction.\<close>

definition log2_floor :: "int \<times> int \<Rightarrow> int" where
  "log2_floor p =
     (let e = int (bit_length (fst p)) - int (bit_length (snd p)); q = scale2 (- e) p
      in if snd q \<le> fst q then e else e - 1)"

text \<open>
  The nearest \<^verbatim>\<open>f64\<close> to the fraction \<open>a / b\<close>: 53 significant bits, exponents from -1074, and infinity beyond the
  largest number.
\<close>

definition f64_of_fraction :: "int \<times> int \<Rightarrow> f64" where
  "f64_of_fraction p =
     (if fst p = 0 then Finite 0 0
      else
        (let e = max (log2_floor p - 52) (- 1074); q = scale2 (- e) p; m = round_half_even (fst q) (snd q)
         in if 0 \<le> e \<and> 2 ^ 1024 \<le> m * 2 ^ nat e then Infinity else Finite m e))"

definition fraction :: "int \<Rightarrow> int \<Rightarrow> int \<times> int" where
  "fraction m e = scale2 e (m, 1)"

definition f64_mult :: "f64 \<Rightarrow> int \<Rightarrow> f64" where
  "f64_mult x c =
     (case x of Infinity \<Rightarrow> Infinity | Finite m e \<Rightarrow> f64_of_fraction (fst (fraction m e) * c, snd (fraction m e)))"

text \<open>\<^verbatim>\<open>as u64\<close> cuts off the fraction and saturates.\<close>

definition f64_to_u64 :: "f64 \<Rightarrow> int" where
  "f64_to_u64 x =
     (case x of Infinity \<Rightarrow> 2 ^ 64 - 1 | Finite m e \<Rightarrow> min (2 ^ 64 - 1) (fst (fraction m e) div snd (fraction m e)))"

section \<open>Parsing a size\<close>

text \<open>The characters of Unicode that \<^verbatim>\<open>str::trim\<close> removes, in UTF-8.\<close>

definition whitespace :: "string list" where
  "whitespace =
     map (\<lambda>c. [c]) [CHR 0x09, CHR 0x0A, CHR 0x0B, CHR 0x0C, CHR 0x0D, CHR 0x20] @
     [[CHR 0xC2, CHR 0x85], [CHR 0xC2, CHR 0xA0], [CHR 0xE1, CHR 0x9A, CHR 0x80]] @
     map (\<lambda>c. [CHR 0xE2, CHR 0x80, c])
       [CHR 0x80, CHR 0x81, CHR 0x82, CHR 0x83, CHR 0x84, CHR 0x85, CHR 0x86, CHR 0x87, CHR 0x88, CHR 0x89, CHR 0x8A,
        CHR 0xA8, CHR 0xA9, CHR 0xAF] @
     [[CHR 0xE2, CHR 0x81, CHR 0x9F], [CHR 0xE3, CHR 0x80, CHR 0x80]]"

function trim_front :: "string list \<Rightarrow> string \<Rightarrow> string" where
  "trim_front ws s =
     (case find (\<lambda>w. w \<noteq> [] \<and> prefix w s) ws of None \<Rightarrow> s | Some w \<Rightarrow> trim_front ws (drop (length w) s))"
  by pat_completeness auto
termination
  by (relation "measure (\<lambda>(ws, s). length s)") (auto simp: find_Some_iff prefix_def)

declare trim_front.simps [simp del]

definition trim_text :: "string \<Rightarrow> string" where
  "trim_text s = rev (trim_front (map rev whitespace) (rev (trim_front whitespace s)))"

definition to_ascii_lowercase :: "string \<Rightarrow> string" where
  "to_ascii_lowercase s = map (\<lambda>c. if 65 \<le> byte_of c \<and> byte_of c \<le> 90 then char_of (byte_of c + 32) else c) s"

text \<open>
  \<^verbatim>\<open>str::parse::<f64>\<close> on digits and dots: at least one digit and at most one dot.
\<close>

definition parse_f64 :: "string \<Rightarrow> f64 option" where
  "parse_f64 s =
     (let whole = takeWhile (\<lambda>c. c \<noteq> CHR ''.'') s; frac = drop 1 (dropWhile (\<lambda>c. c \<noteq> CHR ''.'') s)
      in case parse_nat (whole @ frac) of
           None \<Rightarrow> None
         | Some n \<Rightarrow> Some (f64_of_fraction (int n, 10 ^ length frac)))"

definition size_units :: "(string \<times> int) list" where
  "size_units =
     [('''', 1), (''b'', 1), (''k'', 1000), (''kb'', 1000), (''ki'', 1024), (''kib'', 1024),
      (''m'', 1000000), (''mb'', 1000000), (''mi'', 1024 ^ 2), (''mib'', 1024 ^ 2),
      (''g'', 1000000000), (''gb'', 1000000000), (''gi'', 1024 ^ 3), (''gib'', 1024 ^ 3),
      (''t'', 1000000000000), (''tb'', 1000000000000), (''ti'', 1024 ^ 4), (''tib'', 1024 ^ 4)]"

definition parse_size :: "string \<Rightarrow> int result" where
  "parse_size text =
     (let s = trim_text text
      in if s = [] then Err
         else
           (let numeric = (\<lambda>c. digit_value c \<noteq> None \<or> c = CHR ''.'');
                num = takeWhile numeric s; unit_text = dropWhile numeric s
            in case parse_f64 num of
                 None \<Rightarrow> Err
               | Some n \<Rightarrow>
                   (case map_of size_units (to_ascii_lowercase (trim_text unit_text)) of
                      None \<Rightarrow> Err
                    | Some factor \<Rightarrow> Ok (f64_to_u64 (f64_mult n factor)))))"

section \<open>Formatting a size\<close>

definition f64_ge :: "f64 \<Rightarrow> int \<Rightarrow> bool" where
  "f64_ge x c = (case x of Infinity \<Rightarrow> True | Finite m e \<Rightarrow> c * snd (fraction m e) \<le> fst (fraction m e))"

definition f64_div :: "f64 \<Rightarrow> int \<Rightarrow> f64" where
  "f64_div x c =
     (case x of Infinity \<Rightarrow> Infinity | Finite m e \<Rightarrow> f64_of_fraction (fst (fraction m e), snd (fraction m e) * c))"

fun unit_loop :: "nat \<Rightarrow> f64 \<Rightarrow> nat \<Rightarrow> f64 \<times> nat" where
  "unit_loop 0 v u = (v, u)"
| "unit_loop (Suc left) v u = (if f64_ge v 1024 then unit_loop left (f64_div v 1024) (u + 1) else (v, u))"

text \<open>\<^verbatim>\<open>{v:.1}\<close> prints the exact value to one decimal, ties to even.\<close>

definition show_tenths :: "f64 \<Rightarrow> string" where
  "show_tenths x =
     (case x of
        Infinity \<Rightarrow> ''inf''
      | Finite m e \<Rightarrow>
          (let t = nat (round_half_even (10 * fst (fraction m e)) (snd (fraction m e)))
           in show_nat (t div 10) @ ''.'' @ show_nat (t mod 10)))"

definition UNITS :: "string list" where
  "UNITS = [''B'', ''Ki'', ''Mi'', ''Gi'', ''Ti'']"

definition format_bytes :: "int \<Rightarrow> string" where
  "format_bytes bytes =
     (let (v, u) = unit_loop (length UNITS - 1) (f64_of_fraction (bytes, 1)) 0
      in if u = 0 then show_int bytes @ UNITS ! 0 else show_tenths v @ UNITS ! u)"

end
