(* ===== verification/Disk.thy ===== *)
theory Disk
  imports Size_Text
begin

text \<open>
  The write guard of \<^verbatim>\<open>src/src/disk.rs\<close>: two limits, each disabled at 0, checked against cached
  readings of the free space and of the local block usage. Reading the free space of the volume that holds the
  database (\<^verbatim>\<open>statvfs\<close>) is an argument.
\<close>

datatype GuardTrip = LowFreeSpace | OverQuota

record DiskGuard =
  min_free_bytes :: int
  free_bytes :: int
  max_bytes :: int
  local_usage :: int

definition u64_max :: int where
  "u64_max = 2 ^ 64 - 1"

definition guard_refresh :: "int result \<Rightarrow> DiskGuard \<Rightarrow> DiskGuard" where
  "guard_refresh reading g =
     (if min_free_bytes g > 0
      then (case reading of Ok f \<Rightarrow> g\<lparr>free_bytes := f\<rparr> | Err \<Rightarrow> g)
      else g)"

definition limit_of_config :: "string option \<Rightarrow> int" where
  "limit_of_config cfg =
     (case cfg of
        None \<Rightarrow> 0
      | Some s \<Rightarrow> if s = '''' then 0 else (case parse_size s of Ok v \<Rightarrow> v | Err \<Rightarrow> 0))"

definition guard_from_config :: "int result \<Rightarrow> string option \<Rightarrow> string option \<Rightarrow> DiskGuard" where
  "guard_from_config reading min_cfg max_cfg =
     guard_refresh reading
       \<lparr>min_free_bytes = limit_of_config min_cfg, free_bytes = u64_max,
        max_bytes = limit_of_config max_cfg, local_usage = 0\<rparr>"

definition guard_disabled :: DiskGuard where
  "guard_disabled = \<lparr>min_free_bytes = 0, free_bytes = u64_max, max_bytes = 0, local_usage = 0\<rparr>"

definition set_local_usage :: "int \<Rightarrow> DiskGuard \<Rightarrow> DiskGuard" where
  "set_local_usage n g = g\<lparr>local_usage := n\<rparr>"

definition guard_enabled :: "DiskGuard \<Rightarrow> bool" where
  "guard_enabled g \<longleftrightarrow> min_free_bytes g > 0 \<or> max_bytes g > 0"

definition free_space_enabled :: "DiskGuard \<Rightarrow> bool" where
  "free_space_enabled g \<longleftrightarrow> min_free_bytes g > 0"

definition quota_enabled :: "DiskGuard \<Rightarrow> bool" where
  "quota_enabled g \<longleftrightarrow> max_bytes g > 0"

definition guard_check :: "DiskGuard \<Rightarrow> GuardTrip option" where
  "guard_check g =
     (if min_free_bytes g > 0 \<and> free_bytes g < min_free_bytes g then Some LowFreeSpace
      else if max_bytes g > 0 \<and> local_usage g \<ge> max_bytes g then Some OverQuota
      else None)"

definition writes_allowed :: "DiskGuard \<Rightarrow> bool" where
  "writes_allowed g \<longleftrightarrow> guard_check g = None"

text \<open>
  The guard fails open and only on evidence: a guard built from a configuration without limits
  or with limits that do not parse never refuses a write, whatever usage is reported to it and
  whatever the free-space readings are, and a failed reading never changes a decision.
\<close>

theorem guard_fails_open:
  assumes "\<forall>c \<in> {min_cfg, max_cfg}. c = None \<or> c = Some '''' \<or> (\<exists>s. c = Some s \<and> parse_size s = Err)"
  shows "writes_allowed (set_local_usage n (guard_refresh r (guard_from_config r0 min_cfg max_cfg))) \<and>
    guard_check (guard_refresh Err g) = guard_check g"
  using assms
  by (auto simp: writes_allowed_def guard_check_def set_local_usage_def guard_refresh_def guard_from_config_def
      limit_of_config_def split: option.split)

theorem guard_fails_open_witness:
  "writes_allowed (set_local_usage 999 (guard_refresh (Ok 0) (guard_from_config (Ok 0) (Some ''10Qi'') None)))"
proof -
  have "parse_size ''10Qi'' = Err" by code_simp
  then show ?thesis using guard_fails_open [of "Some ''10Qi''" None 999 "Ok 0" "Ok 0" guard_disabled] by simp
qed

end
