(* ===== verification/Block_Store.thy ===== *)
theory Block_Store
  imports Store_Props Blob_Store Disk
begin

text \<open>
  A running site and its block store, \<^verbatim>\<open>DistributedBlockStore\<close> of \<^verbatim>\<open>src/src/storage.rs\<close> (lines
  314-435): storing a block, reading it locally or from a peer, and read-repair. What the site's code
  calls outside the repository is the record \<open>Env\<close>: the crates, the system clock, the byte store
  behind the \<^verbatim>\<open>BlobStore\<close> trait object, the request to a peer and the file system's free space. Each
  call is indexed by the site's counter \<open>tick\<close>, so that two calls may answer differently. Operations
  of one request run one after the other on the site's state.
\<close>

section \<open>A site\<close>

record 'b Env =
  crates :: Crates
  sys_micros :: "nat \<Rightarrow> int"
  blob_put :: "nat \<Rightarrow> hash \<Rightarrow> bytes \<Rightarrow> 'b \<Rightarrow> fid result \<times> 'b"
  blob_get :: "nat \<Rightarrow> hash \<Rightarrow> fid \<Rightarrow> 'b \<Rightarrow> bytes result"
  blob_delete :: "nat \<Rightarrow> hash \<Rightarrow> fid \<Rightarrow> 'b \<Rightarrow> unit result \<times> 'b"
  fetch_block :: "nat \<Rightarrow> string \<Rightarrow> hash \<Rightarrow> bytes result"
  statvfs_free :: "nat \<Rightarrow> int result"
  hash_order :: "nat \<Rightarrow> (location \<times> string) list \<Rightarrow> (location \<times> string) list"

record 'b Site =
  st :: Store
  blobs :: 'b
  disk_guard :: DiskGuard
  tick :: nat

definition ticked :: "'b Site \<Rightarrow> 'b Site" where
  "ticked \<sigma> = \<sigma>\<lparr>tick := Suc (tick \<sigma>)\<rparr>"

abbreviation sys_now :: "'b Env \<Rightarrow> 'b Site \<Rightarrow> int" where
  "sys_now E \<sigma> \<equiv> sys_micros E (tick \<sigma>)"

section \<open>Storing and reading blocks\<close>

definition promote_block_locally :: "'b Env \<Rightarrow> hash \<Rightarrow> bytes \<Rightarrow> 'b Site \<Rightarrow> unit result \<times> 'b Site" where
  "promote_block_locally E h data \<sigma> =
     (if get_local_block_fid (st \<sigma>) h \<noteq> None then (Ok (), \<sigma>)
      else
        (let sz = int (length data);
             p = blob_put E (tick \<sigma>) h data (blobs \<sigma>);
             \<sigma>1 = ticked (\<sigma>\<lparr>blobs := snd p\<rparr>)
         in case fst p of
              Err \<Rightarrow> (Err, \<sigma>1)
            | Ok f \<Rightarrow> (Ok (), ticked (\<sigma>1\<lparr>st := store_local_block (crates E) (sys_now E \<sigma>1) h f sz (st \<sigma>1)\<rparr>))))"

definition store_block :: "'b Env \<Rightarrow> bytes \<Rightarrow> int \<Rightarrow> 'b Site \<Rightarrow> hash result \<times> 'b Site" where
  "store_block E data sz \<sigma> =
     (let h = blake3 (crates E) data
      in if get_local_block_fid (st \<sigma>) h = None then
           (let p = blob_put E (tick \<sigma>) h data (blobs \<sigma>);
                \<sigma>1 = ticked (\<sigma>\<lparr>blobs := snd p\<rparr>)
            in case fst p of
                 Err \<Rightarrow> (Err, \<sigma>1)
               | Ok f \<Rightarrow> (Ok h, ticked (\<sigma>1\<lparr>st := store_local_block (crates E) (sys_now E \<sigma>1) h f sz (st \<sigma>1)\<rparr>)))
         else (Ok h, \<sigma>))"

fun fetch_loop ::
    "'b Env \<Rightarrow> hash \<Rightarrow> location list \<Rightarrow> (location \<times> string) list \<Rightarrow> 'b Site \<Rightarrow> bytes result \<times> 'b Site" where
  "fetch_loop E h locations [] \<sigma> = (Err, \<sigma>)"
| "fetch_loop E h locations (p # peers) \<sigma> =
     (if fst p \<in> set locations then
        (case fetch_block E (tick \<sigma>) (snd p) h of
           Err \<Rightarrow> fetch_loop E h locations peers (ticked \<sigma>)
         | Ok data \<Rightarrow>
             (let r = promote_block_locally E h data (ticked \<sigma>)
              in case fst r of
                   Ok u \<Rightarrow> (Ok data, snd r)
                 | Err \<Rightarrow> (Ok data, ticked ((snd r)\<lparr>st :=
                     enqueue_replication (sys_now E (snd r)) h [local_location_id (st (snd r))] (st (snd r))\<rparr>))))
      else fetch_loop E h locations peers \<sigma>)"

definition get_block :: "'b Env \<Rightarrow> hash \<Rightarrow> 'b Site \<Rightarrow> bytes result \<times> 'b Site" where
  "get_block E h \<sigma> =
     (case get_local_block_fid (st \<sigma>) h of
        Some f \<Rightarrow> (blob_get E (tick \<sigma>) h f (blobs \<sigma>), ticked \<sigma>)
      | None \<Rightarrow>
          (case get_block_fids (st \<sigma>) h of
             None \<Rightarrow> (Err, \<sigma>)
           | Some locations \<Rightarrow>
               fetch_loop E h (map fst locations) (hash_order E (tick \<sigma>) (get_peers_with_urls (st \<sigma>))) (ticked \<sigma>)))"

definition delete_block :: "'b Env \<Rightarrow> hash \<Rightarrow> fid \<Rightarrow> 'b Site \<Rightarrow> unit result \<times> 'b Site" where
  "delete_block E h f \<sigma> =
     (let p = blob_delete E (tick \<sigma>) h f (blobs \<sigma>) in (fst p, ticked (\<sigma>\<lparr>blobs := snd p\<rparr>)))"

lemma ticked_simps [simp]:
  "st (ticked \<sigma>) = st \<sigma>" "blobs (ticked \<sigma>) = blobs \<sigma>" "disk_guard (ticked \<sigma>) = disk_guard \<sigma>"
  "tick (ticked \<sigma>) = Suc (tick \<sigma>)"
  by (simp_all add: ticked_def)

section \<open>What a site holds\<close>

lemma local_fid_store_local [simp]:
  "get_local_block_fid s h = None \<Longrightarrow>
    get_local_block_fid (store_local_block C sys h f sz s) h' =
      (if h' = h then Some f else get_local_block_fid s h')"
  by (auto simp: store_local_block_def Let_def append_fact_tx_def get_local_block_fid_def
      upsert_block_location_def map_of_upsert_newer)

lemma local_id_store_local [simp]: "local_location_id (store_local_block C sys h f sz s) = local_location_id s"
  by (simp add: store_local_block_def Let_def append_fact_tx_def upsert_block_location_def)

lemma objects_store_local [simp]:
  "objects (store_local_block C sys h f sz s) = objects s"
  "parts (store_local_block C sys h f sz s) = parts s"
  "users (store_local_block C sys h f sz s) = users s"
  "clock (store_local_block C sys h f sz s) = clock s"
  "multipart_uploads (store_local_block C sys h f sz s) = multipart_uploads s"
  by (simp_all add: store_local_block_def Let_def append_fact_tx_def upsert_block_location_def)

lemma local_fid_enqueue [simp]:
  "get_local_block_fid (enqueue_replication sys h ts s) = get_local_block_fid s"
  by (simp add: fun_eq_iff get_local_block_fid_def enqueue_replication_def Let_def)

text \<open>
  A site under a byte store that keeps the laws. \<open>holds stored \<sigma> h d\<close>: the site has a local location
  row for the hash and the byte store holds the data under its token.
\<close>

definition holds :: "('b \<Rightarrow> hash \<Rightarrow> fid \<Rightarrow> bytes option) \<Rightarrow> 'b Site \<Rightarrow> hash \<Rightarrow> bytes \<Rightarrow> bool" where
  "holds stored \<sigma> h d \<longleftrightarrow> (\<exists>f. get_local_block_fid (st \<sigma>) h = Some f \<and> stored (blobs \<sigma>) h f = Some d)"

lemma holds_unique: "holds stored \<sigma> h d \<Longrightarrow> holds stored \<sigma> h d' \<Longrightarrow> d = d'"
  by (auto simp: holds_def)

lemma holds_ticked [simp]: "holds stored (ticked \<sigma>) = holds stored \<sigma>"
  by (simp add: holds_def fun_eq_iff)

locale block_site =
  blob_store "blob_put E" "blob_get E" "blob_delete E" stored good
  for E :: "'b Env" and stored :: "'b \<Rightarrow> hash \<Rightarrow> fid \<Rightarrow> bytes option" and good :: "hash \<Rightarrow> bool"
begin

lemma get_block_local:
  assumes "good h" "holds stored \<sigma> h d" "get_block E h \<sigma> = (Ok d', \<sigma>')"
  shows "d' = d \<and> \<sigma>' = ticked \<sigma>"
  using assms get_stored by (fastforce simp: holds_def get_block_def)

lemma store_block_holds:
  assumes "store_block E d sz \<sigma> = (Ok h, \<sigma>')" "good h"
  shows "h = blake3 (crates E) d \<and>
    (if get_local_block_fid (st \<sigma>) h = None then holds stored \<sigma>' h d else \<sigma>' = \<sigma>)"
proof -
  obtain q b where p: "blob_put E (tick \<sigma>) h d (blobs \<sigma>) = (q, b)" by (cases "blob_put E (tick \<sigma>) h d (blobs \<sigma>)")
  have "h = blake3 (crates E) d" using assms(1) by (auto simp: store_block_def Let_def split: if_splits result.splits)
  then show ?thesis
    using assms p put_stored [OF assms(2), of "tick \<sigma>" d "blobs \<sigma>" _ b]
    by (auto simp: store_block_def Let_def holds_def split: if_splits result.splits)
qed

lemma store_block_keeps:
  assumes "store_block E d sz \<sigma> = (r, \<sigma>')" "good (blake3 (crates E) d)" "good h'" "holds stored \<sigma> h' d'"
  shows "holds stored \<sigma>' h' d'"
proof -
  let ?h = "blake3 (crates E) d"
  obtain q b where p: "blob_put E (tick \<sigma>) ?h d (blobs \<sigma>) = (q, b)" by (cases "blob_put E (tick \<sigma>) ?h d (blobs \<sigma>)")
  have "h' \<noteq> ?h" if "get_local_block_fid (st \<sigma>) ?h = None" using assms(4) that by (auto simp: holds_def)
  then show ?thesis
    using assms(1,4) put_other [OF assms(2,3) p] put_failed [OF assms(2,3)] p
    by (auto simp: store_block_def Let_def holds_def split: if_splits result.splits)
qed

lemma promote_holds:
  assumes "promote_block_locally E h d \<sigma> = (Ok u, \<sigma>')" "good h" "get_local_block_fid (st \<sigma>) h = None"
  shows "holds stored \<sigma>' h d"
proof -
  obtain q b where p: "blob_put E (tick \<sigma>) h d (blobs \<sigma>) = (q, b)" by (cases "blob_put E (tick \<sigma>) h d (blobs \<sigma>)")
  then show ?thesis
    using assms put_stored [OF assms(2), of "tick \<sigma>" d "blobs \<sigma>" _ b]
    by (auto simp: promote_block_locally_def Let_def holds_def split: result.splits)
qed

lemma promote_keeps:
  assumes "promote_block_locally E h d \<sigma> = (r, \<sigma>')" "good h" "good h'" "holds stored \<sigma> h' d'"
  shows "holds stored \<sigma>' h' d'"
proof -
  obtain q b where p: "blob_put E (tick \<sigma>) h d (blobs \<sigma>) = (q, b)" by (cases "blob_put E (tick \<sigma>) h d (blobs \<sigma>)")
  have "h' \<noteq> h" if "get_local_block_fid (st \<sigma>) h = None" using assms(4) that by (auto simp: holds_def)
  then show ?thesis
    using assms(1,4) put_other [OF assms(2,3) p] p
    by (auto simp: promote_block_locally_def Let_def holds_def split: if_splits result.splits)
qed

lemma fetch_loop_keeps:
  assumes "fetch_loop E h locs peers \<sigma> = (r, \<sigma>')" "good h" "good h'" "holds stored \<sigma> h' d'"
  shows "holds stored \<sigma>' h' d'"
  using assms(1,4)
proof (induction peers arbitrary: \<sigma>)
  case (Cons p peers)
  show ?case
  proof (cases "fst p \<in> set locs \<and> fetch_block E (tick \<sigma>) (snd p) h \<noteq> Err")
    case True
    then obtain data where data: "fetch_block E (tick \<sigma>) (snd p) h = Ok data"
      by (cases "fetch_block E (tick \<sigma>) (snd p) h") auto
    obtain q \<sigma>1 where q: "promote_block_locally E h data (ticked \<sigma>) = (q, \<sigma>1)"
      by (cases "promote_block_locally E h data (ticked \<sigma>)")
    from promote_keeps [OF q assms(2,3)] Cons.prems(2) have "holds stored \<sigma>1 h' d'" by simp
    with Cons.prems(1) True data q show ?thesis by (auto simp: Let_def holds_def split: result.splits)
  next
    case False
    then have "fetch_loop E h locs peers (ticked \<sigma>) = (r, \<sigma>') \<or> fetch_loop E h locs peers \<sigma> = (r, \<sigma>')"
      using Cons.prems(1) by (auto split: if_splits)
    then show ?thesis using Cons.IH [of "ticked \<sigma>"] Cons.IH [of \<sigma>] Cons.prems(2) by auto
  qed
qed simp

text \<open>Reading a block never loses another one.\<close>

lemma get_block_keeps:
  assumes "get_block E h \<sigma> = (r, \<sigma>')" "good h" "good h'" "holds stored \<sigma> h' d'"
  shows "holds stored \<sigma>' h' d'"
  using assms fetch_loop_keeps [OF _ assms(2,3), of _ _ "ticked \<sigma>" r \<sigma>' d']
  by (auto simp: get_block_def split: option.splits)

end

section \<open>A site with the file-system byte store\<close>

definition local_env ::
    "Crates \<Rightarrow> string \<Rightarrow> FsFaults \<Rightarrow> (nat \<Rightarrow> int) \<Rightarrow> (nat \<Rightarrow> string \<Rightarrow> hash \<Rightarrow> bytes result) \<Rightarrow>
     (nat \<Rightarrow> int result) \<Rightarrow> (nat \<Rightarrow> (location \<times> string) list \<Rightarrow> (location \<times> string) list) \<Rightarrow> files Env" where
  "local_env C root io sys fetch free order =
     \<lparr>crates = C, sys_micros = sys, blob_put = local_put C root io, blob_get = local_get C root io,
      blob_delete = local_delete C root io, fetch_block = fetch, statvfs_free = free, hash_order = order\<rparr>"

interpretation lsite: block_site "local_env C root io sys fetch free order" "local_stored C root" "hash_good C"
  for C root io sys fetch free order
  unfolding block_site_def local_env_def by (simp add: lb.blob_store_axioms)

end
