(* ===== verification/GC.thy ===== *)
theory GC
  imports Block_Store
begin

text \<open>
  Mark-and-sweep garbage collection, \<^verbatim>\<open>sweep_orphaned_blocks\<close> of \<^verbatim>\<open>src/src/storage.rs\<close> (lines
  437-518): the live set is recomputed from the manifests, local blocks outside it wait out the grace
  period as pending deletions and are then deleted.
\<close>

section \<open>Definitions\<close>

text \<open>Milliseconds since the epoch, as \<^verbatim>\<open>duration_since(UNIX_EPOCH)?.as_millis() as i64\<close>.\<close>

definition epoch_millis :: "int \<Rightarrow> int result" where
  "epoch_millis micros = (if micros < 0 then Err else Ok (wrap_i64 (micros div 1000)))"

definition grace_millis :: "int \<Rightarrow> int" where
  "grace_millis grace_secs = wrap_i64 (wrap_i64 grace_secs * 1000)"

text \<open>
  The body of the loop for one local block: \<open>now\<close> is the time of the sweep, \<open>grace\<close> the configured
  seconds. An orphan seen for the first time gets a pending deletion; an orphan whose time has come
  loses its location row, its bytes and its pending deletion.
\<close>

definition mark_pending :: "'b Env \<Rightarrow> int \<Rightarrow> (hash \<times> int) list \<Rightarrow> hash \<Rightarrow> 'b Site \<Rightarrow> 'b Site" where
  "mark_pending E grace pending h \<sigma> =
     (case map_of pending h of
        Some t \<Rightarrow> \<sigma>
      | None \<Rightarrow>
          (case epoch_millis (sys_now E \<sigma> + grace * 1000000) of
             Ok ms \<Rightarrow> ticked (\<sigma>\<lparr>st := add_pending_deletion h ms (st \<sigma>)\<rparr>)
           | Err \<Rightarrow> ticked \<sigma>))"

definition reap_time :: "int \<Rightarrow> (hash \<times> int) list \<Rightarrow> int \<Rightarrow> hash \<Rightarrow> int" where
  "reap_time grace pending now h =
     (case map_of pending h of Some t \<Rightarrow> t | None \<Rightarrow> wrap_i64 (now + grace_millis grace))"

definition delete_orphan :: "'b Env \<Rightarrow> hash \<Rightarrow> 'b Site \<Rightarrow> 'b Site" where
  "delete_orphan E h \<sigma> =
     (let \<sigma>1 = (case get_local_block_fid (st \<sigma>) h of
                  None \<Rightarrow> \<sigma>
                | Some f \<Rightarrow>
                    (let d = delete_local_block h (st \<sigma>); \<sigma>' = \<sigma>\<lparr>st := snd d\<rparr>
                     in if fst d then snd (delete_block E h f \<sigma>') else \<sigma>'))
      in \<sigma>1\<lparr>st := remove_pending_deletion h (st \<sigma>1)\<rparr>)"

definition sweep_one ::
    "'b Env \<Rightarrow> bool \<Rightarrow> int \<Rightarrow> hash set \<Rightarrow> (hash \<times> int) list \<Rightarrow> int \<Rightarrow> hash \<Rightarrow> 'b Site \<Rightarrow> 'b Site" where
  "sweep_one E force grace live pending now h \<sigma> =
     (if h \<in> live then
        (if map_of pending h \<noteq> None then \<sigma>\<lparr>st := remove_pending_deletion h (st \<sigma>)\<rparr> else \<sigma>)
      else
        (let \<sigma>1 = mark_pending E grace pending h \<sigma>
         in if \<not> force \<and> now < reap_time grace pending now h then \<sigma>1 else delete_orphan E h \<sigma>1))"

definition drop_stale :: "hash list \<Rightarrow> hash \<times> int \<Rightarrow> 'b Site \<Rightarrow> 'b Site" where
  "drop_stale local p \<sigma> =
     (if fst p \<in> set local then \<sigma> else \<sigma>\<lparr>st := remove_pending_deletion (fst p) (st \<sigma>)\<rparr>)"

definition sweep_orphaned_blocks :: "'b Env \<Rightarrow> int \<Rightarrow> bool \<Rightarrow> 'b Site \<Rightarrow> unit result \<times> 'b Site" where
  "sweep_orphaned_blocks E grace force \<sigma> =
     (let live = compute_live_block_set (st \<sigma>);
          local = list_local_block_hashes (st \<sigma>);
          pending = get_pending_deletions (st \<sigma>)
      in case epoch_millis (sys_now E \<sigma>) of
           Err \<Rightarrow> (Err, ticked \<sigma>)
         | Ok now \<Rightarrow>
             (let \<sigma>1 = fold (sweep_one E force grace live pending now) local (ticked \<sigma>);
                  \<sigma>2 = fold (drop_stale local) pending \<sigma>1
              in (Ok (), \<sigma>2)))"

definition reap_orphaned_blocks :: "'b Env \<Rightarrow> int \<Rightarrow> 'b Site \<Rightarrow> unit result \<times> 'b Site" where
  "reap_orphaned_blocks E grace \<sigma> = sweep_orphaned_blocks E grace False \<sigma>"

definition force_sweep_orphaned_blocks :: "'b Env \<Rightarrow> int \<Rightarrow> 'b Site \<Rightarrow> unit result \<times> 'b Site" where
  "force_sweep_orphaned_blocks E grace \<sigma> = sweep_orphaned_blocks E grace True \<sigma>"

section \<open>What a sweep leaves alone\<close>

definition same_manifests :: "'b Site \<Rightarrow> 'b Site \<Rightarrow> bool" where
  "same_manifests \<sigma> \<sigma>' \<longleftrightarrow>
     objects (st \<sigma>') = objects (st \<sigma>) \<and> parts (st \<sigma>') = parts (st \<sigma>) \<and>
     multipart_uploads (st \<sigma>') = multipart_uploads (st \<sigma>) \<and> clock (st \<sigma>') = clock (st \<sigma>) \<and>
     local_location_id (st \<sigma>') = local_location_id (st \<sigma>) \<and> fact_log (st \<sigma>') = fact_log (st \<sigma>)"

lemma same_manifests_refl [simp]: "same_manifests \<sigma> \<sigma>"
  by (simp add: same_manifests_def)

lemma same_manifests_trans: "same_manifests \<sigma> \<sigma>1 \<Longrightarrow> same_manifests \<sigma>1 \<sigma>2 \<Longrightarrow> same_manifests \<sigma> \<sigma>2"
  by (simp add: same_manifests_def)

lemma same_manifests_live:
  "same_manifests \<sigma> \<sigma>' \<Longrightarrow> compute_live_block_set (st \<sigma>') = compute_live_block_set (st \<sigma>)"
  "same_manifests \<sigma> \<sigma>' \<Longrightarrow> get_object (st \<sigma>') = get_object (st \<sigma>)"
  by (simp_all add: same_manifests_def compute_live_block_set_def get_object_def fun_eq_iff)

lemma pending_keeps [simp]:
  "get_local_block_fid (add_pending_deletion h t s) = get_local_block_fid s"
  "get_local_block_fid (remove_pending_deletion h s) = get_local_block_fid s"
  by (simp_all add: add_pending_deletion_def remove_pending_deletion_def get_local_block_fid_def fun_eq_iff)

lemma delete_local_fid [simp]:
  "get_local_block_fid (snd (delete_local_block h s)) h' = (if h' = h then None else get_local_block_fid s h')"
  "fst (delete_local_block h s) \<longleftrightarrow> get_local_block_fid s h \<noteq> None"
  by (simp_all add: delete_local_block_def Let_def get_local_block_fid_def AList.delete_conv')

lemma mark_pending_keeps [simp]:
  "get_local_block_fid (st (mark_pending E grace pending h \<sigma>)) = get_local_block_fid (st \<sigma>)"
  "blobs (mark_pending E grace pending h \<sigma>) = blobs \<sigma>"
  by (auto simp: mark_pending_def split: option.split result.split)

lemma mark_pending_manifests [simp]: "same_manifests \<sigma> (mark_pending E grace pending h \<sigma>)"
  by (auto simp: mark_pending_def same_manifests_def add_pending_deletion_def split: option.split result.split)

lemma delete_orphan_fid [simp]:
  "get_local_block_fid (st (delete_orphan E h \<sigma>)) h' = (if h' = h then None else get_local_block_fid (st \<sigma>) h')"
  by (simp add: delete_orphan_def Let_def delete_block_def split: option.split)

lemma delete_orphan_manifests: "same_manifests \<sigma> (delete_orphan E h \<sigma>)"
  by (simp add: delete_orphan_def same_manifests_def Let_def delete_block_def remove_pending_deletion_def
      delete_local_block_def split: option.split)

lemma sweep_one_manifests: "same_manifests \<sigma> (sweep_one E force grace live pending now h \<sigma>)"
proof -
  have "same_manifests \<sigma> (\<sigma>\<lparr>st := remove_pending_deletion h (st \<sigma>)\<rparr>)"
    by (simp add: same_manifests_def remove_pending_deletion_def)
  then show ?thesis
    by (auto simp: sweep_one_def Let_def intro: same_manifests_trans [OF _ delete_orphan_manifests])
qed

lemma sweep_one_other:
  "h' \<noteq> h \<or> h' \<in> live \<Longrightarrow>
    get_local_block_fid (st (sweep_one E force grace live pending now h \<sigma>)) h' = get_local_block_fid (st \<sigma>) h'"
  by (auto simp: sweep_one_def Let_def)

lemma sweep_one_fid:
  "get_local_block_fid (st (sweep_one E force grace live pending now h \<sigma>)) h =
    (if h \<in> live \<or> \<not> force \<and> now < reap_time grace pending now h then get_local_block_fid (st \<sigma>) h else None)"
  by (auto simp: sweep_one_def Let_def)

lemma fold_sweep_manifests: "same_manifests \<sigma> (fold (sweep_one E force grace live pending now) hs \<sigma>)"
  by (induction hs arbitrary: \<sigma>) (auto intro: same_manifests_trans sweep_one_manifests)

lemma fold_sweep_other:
  "h \<notin> set hs \<or> h \<in> live \<Longrightarrow>
    get_local_block_fid (st (fold (sweep_one E force grace live pending now) hs \<sigma>)) h = get_local_block_fid (st \<sigma>) h"
  by (induction hs arbitrary: \<sigma>) (auto simp: sweep_one_other)

lemma fold_stale_keeps:
  "same_manifests \<sigma> (fold (drop_stale local) ps \<sigma>)"
  "get_local_block_fid (st (fold (drop_stale local) ps \<sigma>)) = get_local_block_fid (st \<sigma>)"
  "blobs (fold (drop_stale local) ps \<sigma>) = blobs \<sigma>"
  by (induction ps arbitrary: \<sigma>)
    (auto simp: drop_stale_def same_manifests_def remove_pending_deletion_def get_local_block_fid_def fun_eq_iff)

lemma local_hashes_iff: "store_ok s \<Longrightarrow> h \<in> set (list_local_block_hashes s) \<longleftrightarrow> get_local_block_fid s h \<noteq> None"
  by (force simp: list_local_block_hashes_def get_local_block_fid_def store_ok_def map_of_eq_None_iff image_iff)

lemma local_hashes_distinct:
  assumes "store_ok s"
  shows "distinct (list_local_block_hashes s)"
proof -
  have "distinct (map fst (filter (\<lambda>((_, loc), _). loc = local_location_id s) (block_locations s)))"
    using assms by (simp add: store_ok_def distinct_map_filter)
  then show ?thesis
    unfolding list_local_block_hashes_def by (simp only: distinct_map) (auto simp: inj_on_def)
qed

lemma sweep_fid:
  assumes "sweep_orphaned_blocks E grace force \<sigma> = (Ok u, \<sigma>')" "store_ok (st \<sigma>)" "epoch_millis (sys_now E \<sigma>) = Ok now"
    and "get_local_block_fid (st \<sigma>) h = Some f"
  shows "get_local_block_fid (st \<sigma>') h =
    (if h \<in> compute_live_block_set (st \<sigma>) \<or>
        \<not> force \<and> now < reap_time grace (pending_deletions (st \<sigma>)) now h
     then Some f else None)"
proof -
  let ?live = "compute_live_block_set (st \<sigma>)" and ?hs = "list_local_block_hashes (st \<sigma>)"
  let ?one = "sweep_one E force grace ?live (pending_deletions (st \<sigma>)) now"
  have "h \<in> set ?hs" using local_hashes_iff [OF assms(2)] assms(4) by simp
  then obtain xs ys where hs: "?hs = xs @ h # ys" by (meson split_list)
  have "distinct ?hs" by (rule local_hashes_distinct [OF assms(2)])
  then have notin: "h \<notin> set xs" "h \<notin> set ys" by (simp_all add: hs)
  let ?\<sigma>1 = "fold ?one xs (ticked \<sigma>)"
  have "get_local_block_fid (st ?\<sigma>1) h = Some f" using notin assms(4) by (simp add: fold_sweep_other)
  have "get_local_block_fid (st \<sigma>') h = get_local_block_fid (st (fold ?one ?hs (ticked \<sigma>))) h"
    using assms(1,3) by (auto simp: sweep_orphaned_blocks_def Let_def fold_stale_keeps get_pending_deletions_def)
  also have "\<dots> = get_local_block_fid (st (?one h ?\<sigma>1)) h"
    unfolding hs using notin by (simp add: fold_sweep_other)
  finally show ?thesis using \<open>get_local_block_fid (st ?\<sigma>1) h = Some f\<close> by (simp add: sweep_one_fid)
qed

lemma sweep_manifests:
  assumes "sweep_orphaned_blocks E grace force \<sigma> = (r, \<sigma>')"
  shows "same_manifests \<sigma> \<sigma>'"
proof -
  have "same_manifests \<sigma> (ticked \<sigma>)" by (simp add: same_manifests_def)
  then show ?thesis
    using assms by (auto simp: sweep_orphaned_blocks_def Let_def split: result.splits
        intro: same_manifests_trans [OF _ same_manifests_trans [OF fold_sweep_manifests fold_stale_keeps(1)]])
qed

section \<open>The bytes of live blocks\<close>

context block_site
begin

lemma delete_orphan_bytes:
  assumes "good h" "good h'" "h' \<noteq> h"
  shows "stored (blobs (delete_orphan E h \<sigma>)) h' f = stored (blobs \<sigma>) h' f"
proof (cases "get_local_block_fid (st \<sigma>) h")
  case (Some g)
  obtain q b where p: "blob_delete E (tick \<sigma>) h g (blobs \<sigma>) = (q, b)" by (cases "blob_delete E (tick \<sigma>) h g (blobs \<sigma>)")
  with Some del_other [OF assms(1,2) p assms(3)] show ?thesis
    by (simp add: delete_orphan_def Let_def delete_block_def)
qed (simp add: delete_orphan_def)

lemma sweep_one_bytes:
  assumes "good h" "good h'" "h' \<noteq> h \<or> h' \<in> live"
  shows "stored (blobs (sweep_one E force grace live pending now h \<sigma>)) h' f = stored (blobs \<sigma>) h' f"
  using assms delete_orphan_bytes [OF assms(1,2)] by (auto simp: sweep_one_def Let_def)

lemma fold_sweep_bytes:
  assumes "\<forall>h \<in> set hs. good h" "good h'" "h' \<in> live"
  shows "stored (blobs (fold (sweep_one E force grace live pending now) hs \<sigma>)) h' f = stored (blobs \<sigma>) h' f"
  using assms by (induction hs arbitrary: \<sigma>) (simp_all add: sweep_one_bytes)

lemma sweep_holds:
  assumes "sweep_orphaned_blocks E grace force \<sigma> = (r, \<sigma>')"
    and "\<forall>h \<in> set (list_local_block_hashes (st \<sigma>)). good h" "good h" "h \<in> compute_live_block_set (st \<sigma>)"
    and "holds stored \<sigma> h d"
  shows "holds stored \<sigma>' h d"
  using assms
  by (auto simp: sweep_orphaned_blocks_def Let_def holds_def fold_stale_keeps fold_sweep_other
      fold_sweep_bytes split: result.splits)

end

section \<open>Properties\<close>

lemma manifest_live:
  assumes "hashes_ok bs" "h \<in> set bs"
    and "(\<exists>bk row. map_of (objects s) bk = Some row \<and> \<not> obj_deleted row \<and> obj_blocks row = encode_blocks bs) \<or>
      (\<exists>p row. map_of (parts s) p = Some row \<and> part_blocks row = encode_blocks bs)"
  shows "h \<in> compute_live_block_set s"
  using assms by (fastforce simp: compute_live_block_set_def dest: map_of_SomeD)

text \<open>
  C10. Garbage collection never loses a referenced block: let \<open>bs\<close> be the blocks in the manifest of an object that is not
  deleted, or of a part of an unfinished upload. A sweep, scheduled or forced, keeps the local location and the bytes
  of each of them, and leaves every object and every part as it was. This holds for every byte store that keeps
  the laws, whatever the clock and the configured grace period.
\<close>

theorem sweep_keeps_live:
  assumes "block_site E stored good" "\<forall>h \<in> set (list_local_block_hashes (st \<sigma>)). good h"
    and "sweep_orphaned_blocks E grace force \<sigma> = (r, \<sigma>')"
    and "hashes_ok bs" "h \<in> set bs" "good h" "holds stored \<sigma> h d"
    and "(\<exists>bk row. map_of (objects (st \<sigma>)) bk = Some row \<and> \<not> obj_deleted row \<and> obj_blocks row = encode_blocks bs) \<or>
      (\<exists>p row. map_of (parts (st \<sigma>)) p = Some row \<and> part_blocks row = encode_blocks bs)"
  shows "holds stored \<sigma>' h d \<and> get_object (st \<sigma>') = get_object (st \<sigma>) \<and> parts (st \<sigma>') = parts (st \<sigma>)"
proof -
  have "h \<in> compute_live_block_set (st \<sigma>)" by (rule manifest_live [OF assms(4,5,8)])
  from block_site.sweep_holds [OF assms(1,3,2,6) this assms(7)] same_manifests_live [OF sweep_manifests [OF assms(3)]]
    sweep_manifests [OF assms(3)]
  show ?thesis by (simp add: same_manifests_def)
qed

definition demo_io :: FsFaults where
  "demo_io = \<lparr>io_ok = (\<lambda>n op. True), io_cut = (\<lambda>n. None)\<rparr>"

definition demo_env :: "files Env" where
  "demo_env = local_env demo_crates ''/d'' demo_io (\<lambda>n. 1000000) (\<lambda>n url h. Err) (\<lambda>n. Err) (\<lambda>n ps. ps)"

definition demo_hash :: hash where
  "demo_hash = blake3 demo_crates [1, 2]"

text \<open>A site that stored one block and refers to it from one object.\<close>

definition demo_live_site :: "files Site" where
  "demo_live_site =
     (let \<sigma> = snd (store_block demo_env [1, 2] 2
                 \<lparr>st = store_new ''a'' (clock_new 0), blobs = [], disk_guard = guard_disabled, tick = 0\<rparr>)
      in \<sigma>\<lparr>st := insert_object demo_crates 1000000 ''b'' 0 ''k'' [demo_hash] 2 ''e'' (st \<sigma>)\<rparr>)"

lemma demo_block_site: "block_site demo_env (local_stored demo_crates ''/d'') (hash_good demo_crates)"
  unfolding demo_env_def by (rule lsite.block_site_axioms)

lemma demo_hash_good: "hash_good demo_crates demo_hash" "length demo_hash = 32"
  using demo_digest_ok by (simp_all add: hash_good_def demo_hex_ok demo_hash_def digest_ok_def)

lemma demo_stored_site:
  defines "\<sigma> \<equiv> store_block demo_env [1, 2] 2
       \<lparr>st = store_new ''a'' (clock_new 0), blobs = [], disk_guard = guard_disabled, tick = 0\<rparr>"
  shows "fst \<sigma> = Ok demo_hash"
    "st (snd \<sigma>) = store_local_block demo_crates 1000000 demo_hash (as_bytes ''local'') 2 (store_new ''a'' (clock_new 0))"
    "blobs (snd \<sigma>) = [(path_for demo_crates ''/d'' demo_hash, [1, 2])]"
    "sys_micros demo_env n = 1000000" "crates demo_env = demo_crates"
proof -
  have fresh: "get_local_block_fid (store_new ''a'' (clock_new 0)) h = None" for h
    by (simp add: get_local_block_fid_def store_new_def)
  show C: "crates demo_env = demo_crates" and sys: "sys_micros demo_env n = 1000000" for n
    by (simp_all add: demo_env_def local_env_def)
  have p: "blob_put demo_env 0 demo_hash [1, 2] [] =
      (Ok (as_bytes ''local''), [(path_for demo_crates ''/d'' demo_hash, [1, 2])])"
    by (simp add: demo_env_def local_env_def local_put_def demo_io_def Let_def)
  show "fst \<sigma> = Ok demo_hash"
    "st (snd \<sigma>) = store_local_block demo_crates 1000000 demo_hash (as_bytes ''local'') 2 (store_new ''a'' (clock_new 0))"
    "blobs (snd \<sigma>) = [(path_for demo_crates ''/d'' demo_hash, [1, 2])]"
    by (simp_all add: \<sigma>_def store_block_def Let_def C demo_hash_def [symmetric] fresh p sys)
qed

lemma demo_stored_local:
  defines "s \<equiv> store_local_block demo_crates 1000000 demo_hash (as_bytes ''local'') 2 (store_new ''a'' (clock_new 0))"
  shows "list_local_block_hashes s = [demo_hash]" "compute_live_block_set s = {}"
    "get_local_block_fid s demo_hash = Some (as_bytes ''local'')" "store_ok s"
  by (simp_all add: s_def list_local_block_hashes_def append_fact_tx_def compute_live_block_set_def Let_def
      store_local_block_def upsert_block_location_def upsert_newer_def store_new_def get_local_block_fid_def)
    (simp_all add: store_ok_def log_numbered_def next_seq_def)

lemma demo_live_site_facts:
  "list_local_block_hashes (st demo_live_site) = [demo_hash]"
  "demo_hash \<in> compute_live_block_set (st demo_live_site)"
  "holds (local_stored demo_crates ''/d'') demo_live_site demo_hash [1, 2]"
proof -
  have site: "st demo_live_site = insert_object demo_crates 1000000 ''b'' 0 ''k'' [demo_hash] 2 ''e''
      (store_local_block demo_crates 1000000 demo_hash (as_bytes ''local'') 2 (store_new ''a'' (clock_new 0)))"
    "blobs demo_live_site = [(path_for demo_crates ''/d'' demo_hash, [1, 2])]"
    by (simp_all add: demo_live_site_def Let_def demo_stored_site)
  have keeps: "block_locations (insert_object C sys b sh k bs sz et s) = block_locations s"
    "local_location_id (insert_object C sys b sh k bs sz et s) = local_location_id s" for C sys b sh k bs sz et s
    by (simp_all add: insert_object_def Let_def append_fact_tx_def put_object_row_def)
  show "list_local_block_hashes (st demo_live_site) = [demo_hash]"
    using demo_stored_local(1) by (simp add: site list_local_block_hashes_def keeps)
  show "demo_hash \<in> compute_live_block_set (st demo_live_site)"
    using demo_hash_good
    by (simp add: site compute_live_block_set_def insert_object_def put_object_row_def append_fact_tx_def
        upsert_newer_def hashes_ok_def Let_def) (simp add: store_new_def hashes_ok_def)
  show "holds (local_stored demo_crates ''/d'') demo_live_site demo_hash [1, 2]"
    using demo_stored_local(3) by (auto simp: site holds_def get_local_block_fid_def keeps local_stored_def)
qed

text \<open>A site that stored one block and refers to it from a part of an upload only.\<close>

definition demo_part_site :: "files Site" where
  "demo_part_site =
     (let \<sigma> = snd (store_block demo_env [1, 2] 2
                 \<lparr>st = store_new ''a'' (clock_new 0), blobs = [], disk_guard = guard_disabled, tick = 0\<rparr>)
      in \<sigma>\<lparr>st := insert_part ''b'' ''u'' 1 [demo_hash] 2 ''e'' (st \<sigma>)\<rparr>)"

lemma demo_part_site_facts:
  "list_local_block_hashes (st demo_part_site) = [demo_hash]"
  "map_of (parts (st demo_part_site)) (''b'', ''u'', 1) = Some \<lparr>part_blocks = encode_blocks [demo_hash], part_size = 2, part_etag = ''e''\<rparr>"
  "holds (local_stored demo_crates ''/d'') demo_part_site demo_hash [1, 2]"
proof -
  have site: "st demo_part_site = insert_part ''b'' ''u'' 1 [demo_hash] 2 ''e''
      (store_local_block demo_crates 1000000 demo_hash (as_bytes ''local'') 2 (store_new ''a'' (clock_new 0)))"
    "blobs demo_part_site = [(path_for demo_crates ''/d'' demo_hash, [1, 2])]"
    by (simp_all add: demo_part_site_def Let_def demo_stored_site)
  have keeps: "block_locations (insert_part b u n bs sz et s) = block_locations s"
    "local_location_id (insert_part b u n bs sz et s) = local_location_id s" for b u n bs sz et s
    by (simp_all add: insert_part_def)
  show "list_local_block_hashes (st demo_part_site) = [demo_hash]"
    using demo_stored_local(1) by (simp add: site list_local_block_hashes_def keeps)
  show "map_of (parts (st demo_part_site)) (''b'', ''u'', 1) =
      Some \<lparr>part_blocks = encode_blocks [demo_hash], part_size = 2, part_etag = ''e''\<rparr>"
    by (simp add: site insert_part_def AList.update_conv')
  show "holds (local_stored demo_crates ''/d'') demo_part_site demo_hash [1, 2]"
    using demo_stored_local(3) by (auto simp: site holds_def get_local_block_fid_def keeps local_stored_def)
qed

theorem sweep_keeps_live_witness:
  "holds (local_stored demo_crates ''/d'') (snd (sweep_orphaned_blocks demo_env 300 True demo_part_site)) demo_hash [1, 2]"
  using sweep_keeps_live [where \<sigma> = demo_part_site and h = demo_hash and d = "[1, 2]" and bs = "[demo_hash]",
      OF demo_block_site _ prod.collapse [symmetric]] demo_part_site_facts demo_hash_good
  by (force simp: hashes_ok_def)

text \<open>
  C23. Exactly what a sweep deletes: a local block loses its location if and only if no manifest
  refers to it and, unless the sweep is forced, its pending deletion has come due (for a block seen
  for the first time: the grace period is over at once, which a positive grace period excludes).
\<close>

theorem sweep_deletes_exactly:
  assumes "store_ok (st \<sigma>)" "epoch_millis (sys_now E \<sigma>) = Ok now"
    and "h \<in> set (list_local_block_hashes (st \<sigma>))"
  shows "get_local_block_fid (st (snd (sweep_orphaned_blocks E grace force \<sigma>))) h = None \<longleftrightarrow>
    h \<notin> compute_live_block_set (st \<sigma>) \<and>
    (force \<or> reap_time grace (pending_deletions (st \<sigma>)) now h \<le> now)"
proof -
  from assms(1,3) obtain f where f: "get_local_block_fid (st \<sigma>) h = Some f" by (auto simp: local_hashes_iff)
  have "sweep_orphaned_blocks E grace force \<sigma> = (Ok (), snd (sweep_orphaned_blocks E grace force \<sigma>))"
    using assms(2) by (simp add: sweep_orphaned_blocks_def Let_def)
  from sweep_fid [OF this assms(1,2) f] show ?thesis by auto
qed

theorem sweep_deletes_exactly_witness:
  "get_local_block_fid (st (snd (sweep_orphaned_blocks demo_env 300 True demo_live_site))) demo_hash \<noteq> None"
proof -
  have "store_ok (st demo_live_site)"
    by (simp add: demo_live_site_def store_block_def Let_def split: result.split)
  moreover have "epoch_millis (sys_now demo_env demo_live_site) = Ok 1000"
    by (simp add: epoch_millis_def demo_env_def local_env_def in_i64_def)
  ultimately show ?thesis
    using sweep_deletes_exactly [of demo_live_site demo_env 1000 demo_hash 300 True] demo_live_site_facts(1,2)
    by simp
qed

section \<open>Pending deletions\<close>

abbreviation pending_of :: "'b Site \<Rightarrow> hash \<Rightarrow> int option" where
  "pending_of \<sigma> \<equiv> map_of (pending_deletions (st \<sigma>))"

lemma mark_pending_other [simp]: "h' \<noteq> h \<Longrightarrow> pending_of (mark_pending E grace pending h \<sigma>) h' = pending_of \<sigma> h'"
  by (simp add: mark_pending_def add_pending_deletion_def AList.update_conv' split: option.split result.split)

lemma delete_orphan_pending:
  "pending_of (delete_orphan E h \<sigma>) h' = (if h' = h then None else pending_of \<sigma> h')"
  by (simp add: delete_orphan_def Let_def delete_block_def delete_local_block_def remove_pending_deletion_def
      AList.delete_conv' split: option.split)

lemma sweep_one_pending_other:
  "h' \<noteq> h \<Longrightarrow> pending_of (sweep_one E force grace live pending now h \<sigma>) h' = pending_of \<sigma> h'"
  by (simp add: sweep_one_def Let_def delete_orphan_pending remove_pending_deletion_def AList.delete_conv')

lemma fold_sweep_pending_other:
  "h \<notin> set hs \<Longrightarrow> pending_of (fold (sweep_one E force grace live pending now) hs \<sigma>) h = pending_of \<sigma> h"
  by (induction hs arbitrary: \<sigma>) (simp_all add: sweep_one_pending_other)

lemma sweep_one_pending:
  assumes "pending_of \<sigma> h = map_of pending h" "0 \<le> sys_micros E (tick \<sigma>) + grace * 1000000"
  shows "\<exists>n. pending_of (sweep_one E force grace live pending now h \<sigma>) h =
    (if h \<in> live \<or> force \<or> reap_time grace pending now h \<le> now then None
     else Some (case map_of pending h of Some t \<Rightarrow> t
                | None \<Rightarrow> wrap_i64 ((sys_micros E n + grace * 1000000) div 1000)))"
  using assms
  by (auto simp: sweep_one_def Let_def delete_orphan_pending remove_pending_deletion_def AList.delete_conv'
      mark_pending_def add_pending_deletion_def AList.update_conv' epoch_millis_def split: option.split)

lemma fold_stale_pending:
  "pending_of (fold (drop_stale local) ps \<sigma>) h =
    (if h \<in> fst ` set ps \<and> h \<notin> set local then None else pending_of \<sigma> h)"
  by (induction ps arbitrary: \<sigma>)
    (auto simp: drop_stale_def remove_pending_deletion_def AList.delete_conv')

text \<open>
  The pending deletions after a sweep: an orphan that stays has its earlier due time, or, when it
  was seen for the first time, one grace period after a clock reading of this sweep; a block that is
  referenced, was deleted, or is not held here has none. A block that is referenced again before it is
  reaped therefore starts a new grace period the next time it becomes an orphan.
\<close>

theorem sweep_pending_deletions:
  assumes "store_ok (st \<sigma>)" "epoch_millis (sys_now E \<sigma>) = Ok now" "\<forall>n. 0 \<le> sys_micros E n" "0 \<le> grace"
  shows "\<exists>n. pending_of (snd (sweep_orphaned_blocks E grace force \<sigma>)) h =
    (if h \<notin> set (list_local_block_hashes (st \<sigma>)) \<or> h \<in> compute_live_block_set (st \<sigma>) \<or> force \<or>
        reap_time grace (pending_deletions (st \<sigma>)) now h \<le> now
     then None
     else Some (case pending_of \<sigma> h of Some t \<Rightarrow> t
                | None \<Rightarrow> wrap_i64 ((sys_micros E n + grace * 1000000) div 1000)))"
proof -
  let ?live = "compute_live_block_set (st \<sigma>)" and ?hs = "list_local_block_hashes (st \<sigma>)"
  let ?one = "sweep_one E force grace ?live (pending_deletions (st \<sigma>)) now"
  have sw: "pending_of (snd (sweep_orphaned_blocks E grace force \<sigma>)) h =
      (if h \<in> dom (pending_of \<sigma>) \<and> h \<notin> set ?hs then None else pending_of (fold ?one ?hs (ticked \<sigma>)) h)"
    using assms(2) by (simp add: sweep_orphaned_blocks_def Let_def fold_stale_pending get_pending_deletions_def
        dom_map_of_conv_image_fst)
  show ?thesis
  proof (cases "h \<in> set ?hs")
    case False
    then have "pending_of (fold ?one ?hs (ticked \<sigma>)) h = pending_of \<sigma> h" by (simp add: fold_sweep_pending_other)
    with False sw show ?thesis by (auto simp: dom_def)
  next
    case True
    then obtain xs ys where hs: "?hs = xs @ h # ys" by (meson split_list)
    with local_hashes_distinct [OF assms(1)] have notin: "h \<notin> set xs" "h \<notin> set ys" by simp_all
    let ?\<sigma>1 = "fold ?one xs (ticked \<sigma>)"
    have "pending_of ?\<sigma>1 h = pending_of \<sigma> h" using notin by (simp add: fold_sweep_pending_other)
    moreover have "0 \<le> sys_micros E (tick ?\<sigma>1) + grace * 1000000" using assms(3,4) by simp
    moreover have "pending_of (fold ?one ?hs (ticked \<sigma>)) h = pending_of (?one h ?\<sigma>1) h"
      unfolding hs using notin by (simp add: fold_sweep_pending_other)
    ultimately show ?thesis
      using sweep_one_pending [of ?\<sigma>1 h "pending_deletions (st \<sigma>)" E grace force ?live now] True sw by simp
  qed
qed

theorem sweep_pending_deletions_witness:
  "pending_of (snd (sweep_orphaned_blocks demo_env 300 False demo_live_site)) demo_hash = None"
proof -
  have "store_ok (st demo_live_site)"
    by (simp add: demo_live_site_def store_block_def Let_def split: result.split)
  moreover have "epoch_millis (sys_now demo_env demo_live_site) = Ok 1000" "\<forall>n. 0 \<le> sys_micros demo_env n"
    by (simp_all add: epoch_millis_def demo_env_def local_env_def in_i64_def)
  ultimately show ?thesis
    using sweep_pending_deletions [of demo_live_site demo_env 1000 300 False demo_hash] demo_live_site_facts(1,2)
    by simp
qed

text \<open>
  C38. A forced sweep between storing a block and writing the manifest that refers to it loses the
  block: the object is then listed and its manifest names the block, but the site no longer holds it.
  The grace period closes this window for scheduled sweeps only.
\<close>

theorem forced_sweep_drops_inflight_block:
  assumes "store_ok (st \<tau>)" "epoch_millis (sys_now E \<tau>) = Ok now"
    and "store_block E d sz \<sigma> = (Ok h, \<tau>)" "length h = 32" "h \<in> set (list_local_block_hashes (st \<tau>))"
    and "h \<notin> compute_live_block_set (st \<tau>)" "\<rho> = snd (force_sweep_orphaned_blocks E grace \<tau>)"
    and "map_of (objects (st \<rho>)) (b, k) = None"
  shows "get_object (insert_object (crates E) sys b shard k [h] sz et (st \<rho>)) b k = Some ([h], sz, et) \<and>
    get_local_block_fid (insert_object (crates E) sys b shard k [h] sz et (st \<rho>)) h = None"
proof -
  have "sweep_orphaned_blocks E grace True \<tau> = (Ok (), \<rho>)"
    using assms(2,7) by (simp add: force_sweep_orphaned_blocks_def sweep_orphaned_blocks_def Let_def)
  moreover obtain f where "get_local_block_fid (st \<tau>) h = Some f" using assms(1,5) by (auto simp: local_hashes_iff)
  ultimately have "get_local_block_fid (st \<rho>) h = None"
    using sweep_fid [OF _ assms(1,2)] assms(6) by simp
  moreover have "get_local_block_fid (insert_object (crates E) sys b shard k [h] sz et s) = get_local_block_fid s" for s
    by (simp add: insert_object_def Let_def append_fact_tx_def put_object_row_def get_local_block_fid_def fun_eq_iff)
  moreover have "get_object (insert_object (crates E) sys b shard k [h] sz et (st \<rho>)) b k = Some ([h], sz, et)"
    using assms(4,8)
    by (simp add: insert_object_def Let_def get_object_def put_object_row_def map_of_upsert_newer
        hashes_ok_def)
  ultimately show ?thesis by simp
qed

theorem forced_sweep_drops_inflight_block_witness:
  "\<exists>\<tau> \<rho>. store_block demo_env [1, 2] 2
       \<lparr>st = store_new ''a'' (clock_new 0), blobs = [], disk_guard = guard_disabled, tick = 0\<rparr> = (Ok demo_hash, \<tau>) \<and>
     \<rho> = snd (force_sweep_orphaned_blocks demo_env 300 \<tau>) \<and>
     get_local_block_fid (insert_object demo_crates 0 ''b'' 0 ''k'' [demo_hash] 2 ''e'' (st \<rho>)) demo_hash = None"
proof -
  let ?\<sigma> = "\<lparr>st = store_new ''a'' (clock_new 0), blobs = [], disk_guard = guard_disabled, tick = 0\<rparr> :: files Site"
  define \<tau> where "\<tau> = snd (store_block demo_env [1, 2] 2 ?\<sigma>)"
  define \<rho> where "\<rho> = snd (force_sweep_orphaned_blocks demo_env 300 \<tau>)"
  note d = demo_stored_site [folded \<tau>_def]
  have "objects (st \<rho>) = objects (st \<tau>)"
    using sweep_manifests [where E = demo_env and grace = 300 and force = True and \<sigma> = \<tau>, OF prod.collapse [symmetric]]
    by (simp add: \<rho>_def force_sweep_orphaned_blocks_def same_manifests_def)
  then have "map_of (objects (st \<rho>)) (''b'', ''k'') = None"
    by (simp add: d(2)) (simp add: store_new_def)
  then have "get_local_block_fid (insert_object (crates demo_env) 0 ''b'' 0 ''k'' [demo_hash] 2 ''e'' (st \<rho>)) demo_hash = None"
    using forced_sweep_drops_inflight_block [where E = demo_env and \<tau> = \<tau> and now = 1000 and d = "[1, 2]"
        and sz = 2 and \<sigma> = ?\<sigma> and h = demo_hash and \<rho> = \<rho> and grace = 300 and b = "''b''" and k = "''k''"
        and sys = 0 and shard = 0 and et = "''e''"]
      d demo_hash_good(2) demo_stored_local
    by (simp add: \<tau>_def [symmetric] \<rho>_def [symmetric] epoch_millis_def in_i64_def prod_eq_iff)
  then show ?thesis
    using d(1) by (intro exI [of _ \<tau>] exI [of _ \<rho>]) (simp add: \<rho>_def \<tau>_def prod_eq_iff d(5))
qed

end
