(* ===== verification/Replication.thy ===== *)
theory Replication
  imports GC
begin

text \<open>
  The replication drainer of \<^verbatim>\<open>src/src/storage.rs\<close> (lines 520-686): for every due entry of the site's
  queue decide from the metadata what to do, fetch the block from a peer that has it, store it, and
  dequeue or reschedule the entry. While the disk guard refuses writes the drainer reclaims orphans
  instead of pulling.
\<close>

section \<open>Definitions\<close>

datatype ReplicationPlan = Drop | Defer | FetchFrom "(location \<times> string) list"

definition plan_replication ::
    "ReplicationEntry \<Rightarrow> (location \<times> fid) list \<Rightarrow> location \<Rightarrow> (location \<times> string) list \<Rightarrow> ReplicationPlan" where
  "plan_replication entry locations local_id peers =
     (if locations = [] \<or> local_id \<in> fst ` set locations then Drop
      else
        (let cands = filter (\<lambda>p. fst p \<in> fst ` set locations) peers
         in if cands = [] then Defer else FetchFrom cands))"

definition defer_entry :: "'b Env \<Rightarrow> ReplicationEntry \<Rightarrow> 'b Site \<Rightarrow> 'b Site" where
  "defer_entry E entry \<sigma> = ticked (\<sigma>\<lparr>st := defer_replication (sys_now E \<sigma>) entry (st \<sigma>)\<rparr>)"

fun fetch_first :: "'b Env \<Rightarrow> hash \<Rightarrow> (location \<times> string) list \<Rightarrow> 'b Site \<Rightarrow> bytes option \<times> 'b Site" where
  "fetch_first E h [] \<sigma> = (None, \<sigma>)"
| "fetch_first E h (p # cands) \<sigma> =
     (case fetch_block E (tick \<sigma>) (snd p) h of
        Ok data \<Rightarrow> (Some data, ticked \<sigma>)
      | Err \<Rightarrow> fetch_first E h cands (ticked \<sigma>))"

definition drain_entry :: "'b Env \<Rightarrow> (location \<times> string) list \<Rightarrow> ReplicationEntry \<Rightarrow> 'b Site \<Rightarrow> 'b Site" where
  "drain_entry E peers entry \<sigma> =
     (let h = ent_hash entry;
          locations = (case get_block_fids (st \<sigma>) h of None \<Rightarrow> [] | Some l \<Rightarrow> l)
      in case plan_replication entry locations (local_location_id (st \<sigma>)) peers of
           Drop \<Rightarrow> \<sigma>\<lparr>st := dequeue_replication h (st \<sigma>)\<rparr>
         | Defer \<Rightarrow> defer_entry E entry \<sigma>
         | FetchFrom cands \<Rightarrow>
             (let fetched = fetch_first E h cands \<sigma>;
                  outcome = (case fst fetched of
                               Some data \<Rightarrow> promote_block_locally E h data (snd fetched)
                             | None \<Rightarrow> (Err, snd fetched));
                  \<sigma>1 = snd outcome
              in case fst outcome of
                   Ok u \<Rightarrow> \<sigma>1\<lparr>st := dequeue_replication h (st \<sigma>1)\<rparr>
                 | Err \<Rightarrow> defer_entry E entry \<sigma>1))"

definition drain_replication_queue :: "'b Env \<Rightarrow> int \<Rightarrow> 'b Site \<Rightarrow> 'b Site" where
  "drain_replication_queue E grace \<sigma> =
     (case guard_check (disk_guard \<sigma>) of
        Some trip \<Rightarrow>
          (let \<sigma>1 = snd (force_sweep_orphaned_blocks E grace \<sigma>);
               g1 = guard_refresh (statvfs_free E (tick \<sigma>1)) (disk_guard \<sigma>1);
               g2 = set_local_usage (wrap_u64 (local_block_bytes (st \<sigma>1))) g1
           in ticked (\<sigma>1\<lparr>disk_guard := g2\<rparr>))
      | None \<Rightarrow>
          (let entries = get_replication_queue (sys_now E \<sigma>) (st \<sigma>)
           in if entries = [] then ticked \<sigma>
              else (let peers = hash_order E (tick \<sigma>) (get_peers_with_urls (st \<sigma>))
                    in fold (drain_entry E peers) entries (ticked \<sigma>))))"

section \<open>Lemmas\<close>

definition queued :: "Store \<Rightarrow> hash \<Rightarrow> bool" where
  "queued s h \<longleftrightarrow> map_of (replication_queue s) (local_location_id s, h) \<noteq> None"

text \<open>A pull is settled when the block is here or no site is known to have it.\<close>

definition settled :: "Store \<Rightarrow> hash \<Rightarrow> bool" where
  "settled s h \<longleftrightarrow> get_local_block_fid s h \<noteq> None \<or> get_block_fids s h = None"

lemma get_block_fids_None: "get_block_fids s h = None \<longleftrightarrow> (\<forall>loc. map_of (block_locations s) (h, loc) = None)"
  by (force simp: get_block_fids_def Let_def map_of_eq_None_iff filter_empty_conv)

lemma fetch_first_st [simp]: "st (snd (fetch_first E h cs \<sigma>)) = st \<sigma>"
  by (induction E h cs \<sigma> rule: fetch_first.induct) (auto split: result.split)

lemma queue_store_local [simp]:
  "replication_queue (store_local_block C sys h f sz s) = replication_queue s"
  by (simp add: store_local_block_def Let_def append_fact_tx_def upsert_block_location_def)

lemma queued_store_local [simp]: "queued (store_local_block C sys h f sz s) = queued s"
  by (simp add: queued_def fun_eq_iff)

lemma settled_store_local:
  assumes "settled s h" "get_local_block_fid s h' = None"
  shows "settled (store_local_block C sys h' f sz s) h"
  using assms
  by (auto simp: settled_def get_block_fids_None store_local_block_def Let_def append_fact_tx_def
      upsert_block_location_def map_of_upsert_newer get_local_block_fid_def)

lemma promote_queue:
  assumes "promote_block_locally E h d \<sigma> = (r, \<sigma>')"
  shows "queued (st \<sigma>') = queued (st \<sigma>)" "settled (st \<sigma>) h' \<Longrightarrow> settled (st \<sigma>') h'"
    "r \<noteq> Err \<Longrightarrow> settled (st \<sigma>') h" "local_location_id (st \<sigma>') = local_location_id (st \<sigma>)"
  using assms
  by (auto simp: promote_block_locally_def Let_def settled_store_local settled_def [of "st \<sigma>" h]
      split: if_splits result.splits)
    (simp_all add: settled_def)

lemma dequeue_other:
  "queued (dequeue_replication h s) h' \<longleftrightarrow> queued s h' \<and> h' \<noteq> h"
  "settled (dequeue_replication h s) = settled s"
  by (auto simp: queued_def dequeue_replication_def AList.delete_conv' settled_def fun_eq_iff
      get_local_block_fid_def get_block_fids_def)

lemma defer_keeps:
  "queued (defer_replication sys e s) = queued s" "settled (defer_replication sys e s) = settled s"
  by (auto simp: queued_def defer_replication_def Let_def AList.update_conv' settled_def fun_eq_iff
      get_local_block_fid_def get_block_fids_def split: option.split)

lemma block_fids_dom:
  "get_block_fids s h = Some l \<Longrightarrow> loc \<in> fst ` set l \<longleftrightarrow> map_of (block_locations s) (h, loc) \<noteq> None"
  by (force simp: get_block_fids_def Let_def map_of_eq_None_iff split: if_splits)

lemma plan_Drop_settled:
  assumes "plan_replication e (case get_block_fids s h of None \<Rightarrow> [] | Some l \<Rightarrow> l) (local_location_id s) peers = Drop"
  shows "settled s h"
proof (cases "get_block_fids s h")
  case (Some l)
  then have "l \<noteq> []" by (auto simp: get_block_fids_def Let_def split: if_splits)
  with assms Some have "local_location_id s \<in> fst ` set l"
    by (auto simp: plan_replication_def Let_def split: if_splits)
  with block_fids_dom [OF Some] show ?thesis by (simp add: settled_def get_local_block_fid_def)
qed (simp add: settled_def)

lemma plan_FetchFrom:
  "plan_replication e locations local_id peers = FetchFrom cs \<Longrightarrow>
    cs \<noteq> [] \<and> set cs \<subseteq> set peers \<and> fst ` set cs \<subseteq> fst ` set locations \<and> local_id \<notin> fst ` set locations"
  by (auto simp: plan_replication_def Let_def split: if_splits)

lemma drain_entry_keeps:
  assumes "queued (st \<sigma>) h \<or> settled (st \<sigma>) h"
  shows "queued (st (drain_entry E peers e \<sigma>)) h \<or> settled (st (drain_entry E peers e \<sigma>)) h"
proof -
  let ?h = "ent_hash e"
  let ?plan = "plan_replication e (case get_block_fids (st \<sigma>) ?h of None \<Rightarrow> [] | Some l \<Rightarrow> l)
      (local_location_id (st \<sigma>)) peers"
  show ?thesis
  proof (cases ?plan)
    case Drop
    then have "settled (st \<sigma>) ?h" by (rule plan_Drop_settled)
    with assms Drop show ?thesis by (auto simp: drain_entry_def Let_def dequeue_other)
  next
    case Defer
    with assms show ?thesis by (simp add: drain_entry_def Let_def defer_entry_def defer_keeps)
  next
    case (FetchFrom cs)
    show ?thesis
    proof (cases "fst (fetch_first E ?h cs \<sigma>)")
      case None
      with FetchFrom assms show ?thesis by (simp add: drain_entry_def Let_def defer_entry_def defer_keeps)
    next
      case (Some data)
      obtain r \<sigma>1 where p: "promote_block_locally E ?h data (snd (fetch_first E ?h cs \<sigma>)) = (r, \<sigma>1)"
        by (cases "promote_block_locally E ?h data (snd (fetch_first E ?h cs \<sigma>))")
      note q = promote_queue [OF p, simplified]
      have "queued (st \<sigma>1) h \<or> settled (st \<sigma>1) h" using assms q(1,2) by auto
      moreover have "r \<noteq> Err \<Longrightarrow> settled (st \<sigma>1) ?h" by (rule q(3))
      ultimately show ?thesis using FetchFrom Some p
        by (cases r) (auto simp: drain_entry_def Let_def defer_entry_def defer_keeps dequeue_other)
    qed
  qed
qed

lemma fold_drain_keeps:
  "queued (st \<sigma>) h \<or> settled (st \<sigma>) h \<Longrightarrow>
    queued (st (fold (drain_entry E peers) es \<sigma>)) h \<or> settled (st (fold (drain_entry E peers) es \<sigma>)) h"
  by (induction es arbitrary: \<sigma>) (simp_all add: drain_entry_keeps)

lemma mark_pending_queue: "replication_queue (st (mark_pending E grace pending h \<sigma>)) = replication_queue (st \<sigma>)"
  by (simp add: mark_pending_def add_pending_deletion_def split: option.split result.split)

lemma delete_orphan_queue: "replication_queue (st (delete_orphan E h \<sigma>)) = replication_queue (st \<sigma>)"
  by (simp add: delete_orphan_def delete_block_def Let_def remove_pending_deletion_def delete_local_block_def
      split: option.split)

lemma fold_sweep_queue:
  "replication_queue (st (fold (sweep_one E force grace live pending now) hs \<sigma>)) = replication_queue (st \<sigma>)"
  by (induction hs arbitrary: \<sigma>)
    (simp_all add: sweep_one_def Let_def delete_orphan_queue mark_pending_queue remove_pending_deletion_def)

lemma fold_stale_queue: "replication_queue (st (fold (drop_stale local) ps \<sigma>)) = replication_queue (st \<sigma>)"
  by (induction ps arbitrary: \<sigma>) (simp_all add: drop_stale_def remove_pending_deletion_def)

lemma sweep_queue:
  "replication_queue (st (snd (sweep_orphaned_blocks E grace force \<sigma>))) = replication_queue (st \<sigma>)"
  by (simp add: sweep_orphaned_blocks_def Let_def fold_stale_queue fold_sweep_queue split: result.split)

section \<open>Properties\<close>

text \<open>
  C20. A queued pull is never lost: after a drain, whatever fetches and writes failed and also when the
  disk guard stopped the drain, every block that was queued is still queued, or the site now holds it,
  or no site is known to hold it.
\<close>

theorem drain_never_loses_pull:
  assumes "queued (st \<sigma>) h"
  shows "queued (st (drain_replication_queue E grace \<sigma>)) h \<or> settled (st (drain_replication_queue E grace \<sigma>)) h"
proof (cases "guard_check (disk_guard \<sigma>)")
  case None
  with assms fold_drain_keeps [of "ticked \<sigma>" h] show ?thesis
    by (simp add: drain_replication_queue_def Let_def)
next
  case (Some trip)
  have "same_manifests \<sigma> (snd (force_sweep_orphaned_blocks E grace \<sigma>))"
    unfolding force_sweep_orphaned_blocks_def by (rule sweep_manifests [OF prod.collapse [symmetric]])
  with Some assms show ?thesis
    by (simp add: drain_replication_queue_def Let_def queued_def force_sweep_orphaned_blocks_def sweep_queue
        same_manifests_def)
qed

theorem drain_never_loses_pull_witness:
  "let s = enqueue_replication 0 [7] [''a''] (store_new ''a'' (clock_new 0));
       \<sigma> = \<lparr>st = s, blobs = [], disk_guard = guard_disabled, tick = 0\<rparr>
   in queued (st \<sigma>) [7] \<and>
      (queued (st (drain_replication_queue demo_env 300 \<sigma>)) [7] \<or> settled (st (drain_replication_queue demo_env 300 \<sigma>)) [7])"
proof -
  let ?s = "enqueue_replication 0 [7] [''a''] (store_new ''a'' (clock_new 0))"
  let ?\<sigma> = "\<lparr>st = ?s, blobs = [], disk_guard = guard_disabled, tick = 0\<rparr> :: files Site"
  have "queued (st ?\<sigma>) [7]"
    by (simp add: queued_def enqueue_replication_def Let_def store_new_def insert_ignore_def)
  with drain_never_loses_pull [OF this, of demo_env 300] show ?thesis by (simp add: Let_def)
qed

lemma fetch_first_Some:
  assumes "fetch_first E h cs \<sigma> = (Some data, \<sigma>')"
  shows "blobs \<sigma>' = blobs \<sigma>" "st \<sigma>' = st \<sigma>"
  using assms by (induction E h cs \<sigma> rule: fetch_first.induct) (auto split: result.splits)

lemma fetch_first_served:
  assumes "(p, u) \<in> set cs" "\<And>n. fetch_block E n u h = Ok data"
    and "\<forall>(q, v) \<in> set cs. \<forall>n. fetch_block E n v h \<in> {Err, Ok data}"
  shows "\<exists>\<sigma>f. fetch_first E h cs \<sigma> = (Some data, \<sigma>f)"
  using assms(1,3)
proof (induction cs arbitrary: \<sigma>)
  case (Cons c cs)
  obtain q v where c: "c = (q, v)" by fastforce
  consider "fetch_block E (tick \<sigma>) v h = Ok data" | "fetch_block E (tick \<sigma>) v h = Err" using Cons.prems(2) c by force
  then show ?case
  proof cases
    case 1
    then show ?thesis by (simp add: c)
  next
    case 2
    then have "(p, u) \<in> set cs" using Cons.prems(1) assms(2) c by auto
    with Cons.IH Cons.prems(2) show ?thesis by (simp add: c 2)
  qed
qed simp

lemma plan_fetches:
  assumes "map_of (block_locations s) (h, local_location_id s) = None" "map_of (block_locations s) (h, p) \<noteq> None" "(p, u) \<in> set peers"
  shows "\<exists>locs cs. get_block_fids s h = Some locs \<and> plan_replication e locs (local_location_id s) peers = FetchFrom cs \<and>
    (p, u) \<in> set cs \<and> (\<forall>(q, v) \<in> set cs. (q, v) \<in> set peers \<and> map_of (block_locations s) (h, q) \<noteq> None)"
proof -
  obtain locs where l: "get_block_fids s h = Some locs" using assms(2) get_block_fids_None by (metis option.exhaust)
  have dom: "local_location_id s \<notin> fst ` set locs" "p \<in> fst ` set locs" using assms(1,2) block_fids_dom [OF l] by simp_all
  let ?cs = "filter (\<lambda>p. fst p \<in> fst ` set locs) peers"
  have "(p, u) \<in> set ?cs" using dom(2) assms(3) by simp
  moreover from this dom have "plan_replication e locs (local_location_id s) peers = FetchFrom ?cs"
    by (cases "locs = []"; cases "?cs = []") (simp_all add: plan_replication_def Let_def)
  moreover have "\<forall>(q, v) \<in> set ?cs. (q, v) \<in> set peers \<and> map_of (block_locations s) (h, q) \<noteq> None"
    using block_fids_dom [OF l] by auto
  ultimately show ?thesis using l by blast
qed

text \<open>
  C21. Pulling a block: when the site does not hold a block, some peer is listed as a holder and serves it, every
  other listed holder serves the same bytes or fails, and the byte store accepts them, draining the entry leaves exactly
  these bytes readable at this site, the entry gone from the queue, and an announcement of the new copy in
  the site's log for the other sites.
\<close>

theorem drain_entry_pulls:
  assumes "block_site E stored good" "good (ent_hash e)"
    and "map_of (block_locations (st \<sigma>)) (ent_hash e, local_location_id (st \<sigma>)) = None"
    and "(p, u) \<in> set peers" "map_of (block_locations (st \<sigma>)) (ent_hash e, p) \<noteq> None"
    and "\<And>n. fetch_block E n u (ent_hash e) = Ok data"
    and "\<forall>(q, v) \<in> set peers. map_of (block_locations (st \<sigma>)) (ent_hash e, q) \<noteq> None \<longrightarrow>
      (\<forall>n. fetch_block E n v (ent_hash e) \<in> {Err, Ok data})"
    and "\<And>n. fst (blob_put E n (ent_hash e) data (blobs \<sigma>)) \<noteq> Err"
  shows "\<exists>f. holds stored (drain_entry E peers e \<sigma>) (ent_hash e) data \<and>
    get_local_block_fid (st (drain_entry E peers e \<sigma>)) (ent_hash e) = Some f \<and>
    \<not> queued (st (drain_entry E peers e \<sigma>)) (ent_hash e) \<and>
    log_payload (snd (last (fact_log (st (drain_entry E peers e \<sigma>))))) =
      fact_to_json (crates E) (BlockAnnounce (hex_encode (crates E) (ent_hash e)) (local_location_id (st \<sigma>))
        (hex_encode (crates E) f) (int (length data)))"
proof -
  let ?h = "ent_hash e"
  obtain locs cs where plan: "get_block_fids (st \<sigma>) ?h = Some locs"
    "plan_replication e locs (local_location_id (st \<sigma>)) peers = FetchFrom cs" "(p, u) \<in> set cs"
    "\<forall>(q, v) \<in> set cs. (q, v) \<in> set peers \<and> map_of (block_locations (st \<sigma>)) (?h, q) \<noteq> None"
    using plan_fetches [OF assms(3,5,4)] by blast
  have "\<forall>(q, v) \<in> set cs. \<forall>n. fetch_block E n v ?h \<in> {Err, Ok data}" using assms(7) plan(4) by blast
  from fetch_first_served [OF plan(3) assms(6) this] obtain \<sigma>f where fetch: "fetch_first E ?h cs \<sigma> = (Some data, \<sigma>f)" by blast
  note ff = fetch_first_Some [OF fetch]
  have none: "get_local_block_fid (st \<sigma>f) ?h = None" using assms(3) by (simp add: ff(2) get_local_block_fid_def)
  obtain f b where b: "blob_put E (tick \<sigma>f) ?h data (blobs \<sigma>) = (Ok f, b)"
    using assms(8) [of "tick \<sigma>f"] by (metis prod.collapse result.exhaust)
  define \<sigma>1 where "\<sigma>1 = snd (promote_block_locally E ?h data \<sigma>f)"
  have p: "promote_block_locally E ?h data \<sigma>f = (Ok (), \<sigma>1)"
    and st1: "st \<sigma>1 = store_local_block (crates E) (sys_micros E (Suc (tick \<sigma>f))) ?h f (int (length data)) (st \<sigma>)"
    using none b ff by (simp_all add: \<sigma>1_def promote_block_locally_def Let_def)
  have drain: "drain_entry E peers e \<sigma> = \<sigma>1\<lparr>st := dequeue_replication ?h (st \<sigma>1)\<rparr>"
    using plan(1,2) fetch p by (simp add: drain_entry_def Let_def)
  have "log_payload (snd (last (fact_log (st \<sigma>1)))) =
      fact_to_json (crates E) (BlockAnnounce (hex_encode (crates E) ?h) (local_location_id (st \<sigma>))
        (hex_encode (crates E) f) (int (length data)))"
    by (simp add: st1 store_local_block_def Let_def append_fact_tx_def)
  moreover have "holds stored \<sigma>1 ?h data" by (rule block_site.promote_holds [OF assms(1) p assms(2) none])
  moreover have "\<not> queued (st (drain_entry E peers e \<sigma>)) ?h" by (simp add: drain dequeue_other)
  moreover have "get_local_block_fid (st \<sigma>1) ?h = Some f" using none by (simp add: st1 ff(2))
  ultimately show ?thesis
    by (intro exI [of _ f]) (simp add: drain holds_def get_local_block_fid_def dequeue_replication_def)
qed

theorem drain_entry_pulls_witness:
  "let E = local_env demo_crates ''/d'' demo_io (\<lambda>n. 1000000) (\<lambda>n url h. if url = ''u'' then Ok [1, 2] else Ok [9]) (\<lambda>n. Err) (\<lambda>n ps. ps);
       s = upsert_block_location demo_hash ''b'' [1] 2 5 (store_new ''a'' (clock_new 0));
       \<sigma> = \<lparr>st = s, blobs = [], disk_guard = guard_disabled, tick = 0\<rparr>;
       e = \<lparr>ent_hash = demo_hash, ent_next_attempt_at = 0, ent_attempts = 0, ent_enqueued_at = 0\<rparr>
   in holds (local_stored demo_crates ''/d'') (drain_entry E [(''c'', ''v''), (''b'', ''u'')] e \<sigma>) demo_hash [1, 2]"
proof -
  let ?E = "local_env demo_crates ''/d'' demo_io (\<lambda>n. 1000000) (\<lambda>n url h. if url = ''u'' then Ok [1, 2] else Ok [9]) (\<lambda>n. Err) (\<lambda>n ps. ps)"
  let ?s = "upsert_block_location demo_hash ''b'' [1] 2 5 (store_new ''a'' (clock_new 0))"
  let ?\<sigma> = "\<lparr>st = ?s, blobs = [], disk_guard = guard_disabled, tick = 0\<rparr> :: files Site"
  let ?e = "\<lparr>ent_hash = demo_hash, ent_next_attempt_at = 0, ent_attempts = 0, ent_enqueued_at = 0\<rparr>"
  have site: "block_site ?E (local_stored demo_crates ''/d'') (hash_good demo_crates)"
    by (rule lsite.block_site_axioms)
  have locs: "map_of (block_locations ?s) (demo_hash, local_location_id ?s) = None" "map_of (block_locations ?s) (demo_hash, ''b'') \<noteq> None"
    "map_of (block_locations ?s) (demo_hash, ''c'') = None"
    by (simp_all add: upsert_block_location_def upsert_newer_def store_new_def)
  have put: "fst (blob_put ?E n demo_hash [1, 2] []) \<noteq> Err" for n
    by (simp add: local_env_def local_put_def demo_io_def Let_def)
  have fetch: "fetch_block ?E n ''u'' demo_hash = Ok [1, 2]" "fetch_block ?E n ''v'' demo_hash = Ok [9]" for n by (simp_all add: local_env_def)
  show ?thesis
    using drain_entry_pulls [OF site, of ?e ?\<sigma> "''b''" "''u''" "[(''c'', ''v''), (''b'', ''u'')]" "[1, 2]"]
      locs put fetch demo_hash_good(1) by (simp add: Let_def)
qed

end
