(* ===== verification/Ranges.thy ===== *)
theory Ranges
  imports Shardscape_Prelude
begin

text \<open>
  Byte ranges of \<^verbatim>\<open>src/src/storage.rs\<close> (lines 988-1044): resolving an HTTP range against an object's
  size, finding the blocks that overlap it, and slicing a fetched block. Sizes and offsets are 64-bit
  unsigned, with the wrap-around of a release build written out.
\<close>

section \<open>Definitions\<close>

datatype Range = RangeInt (first: int) (last_byte: "int option") | RangeSuffix (suffix_length: int)

definition resolve_range :: "Range \<Rightarrow> int \<Rightarrow> (int \<times> int) option" where
  "resolve_range rng sz =
     (if sz = 0 then None
      else case rng of
        RangeInt fst_byte lst \<Rightarrow>
          if fst_byte \<ge> sz then None
          else (let end_byte = min (case lst of None \<Rightarrow> sz - 1 | Some l \<Rightarrow> l) (sz - 1)
                in if end_byte < fst_byte then None else Some (fst_byte, end_byte))
      | RangeSuffix len \<Rightarrow>
          if len = 0 then None
          else (let l = min len sz in Some (sz - l, sz - 1)))"

fun slice_loop :: "nat \<Rightarrow> int \<Rightarrow> int list \<Rightarrow> int \<Rightarrow> int \<Rightarrow> (nat \<times> int \<times> int) list" where
  "slice_loop i offset [] start end_byte = []"
| "slice_loop i offset (sz0 # sizes) start end_byte =
     (let sz = max sz0 0;
          block_start = offset;
          block_end = wrap_u64 (offset + sz);
          rest = slice_loop (Suc i) block_end sizes start end_byte
      in if sz = 0 \<or> block_end \<le> start \<or> block_start > end_byte then rest
         else (let s = max start block_start - block_start;
                   e = wrap_u64 (min end_byte (wrap_u64 (block_end - 1)) - block_start)
               in (i, s, wrap_u64 (e - s + 1)) # rest))"

definition slice_blocks_for_range :: "int list \<Rightarrow> int \<Rightarrow> int \<Rightarrow> (nat \<times> int \<times> int) list" where
  "slice_blocks_for_range sizes start end_byte = slice_loop 0 0 sizes start end_byte"

definition slice_block_bytes :: "bytes \<Rightarrow> int \<Rightarrow> int option \<Rightarrow> bytes" where
  "slice_block_bytes data skip tk =
     (let data' = drop (min (nat skip) (length data)) data
      in case tk of None \<Rightarrow> data' | Some t \<Rightarrow> take (min (nat t) (length data')) data')"

section \<open>Lemmas\<close>

lemma slice_block_bytes_simps [simp]:
  "slice_block_bytes data skip None = drop (nat skip) data"
  "slice_block_bytes data skip (Some t) = take (nat t) (drop (nat skip) data)"
  by (simp_all add: slice_block_bytes_def Let_def min_def)

definition byte_window :: "int \<Rightarrow> int \<Rightarrow> int \<Rightarrow> bytes \<Rightarrow> bytes" where
  "byte_window offset start end_byte bs = drop (nat (start - offset)) (take (nat (end_byte + 1 - offset)) bs)"

lemma byte_window_append:
  "byte_window offset start end_byte (xs @ ys) =
     byte_window offset start end_byte xs @ byte_window (offset + int (length xs)) start end_byte ys"
proof -
  have "nat (a - int n) = nat a - n" for a n by simp
  then show ?thesis
    by (cases "length xs \<le> nat (end_byte + 1 - offset)")
      (simp_all add: byte_window_def min_def algebra_simps flip: diff_diff_eq)
qed

lemma block_slice:
  assumes "x \<noteq> []" "0 \<le> offset" "offset + int (length x) < 2 ^ 64" "0 \<le> start" "start \<le> end_byte"
    and "start < offset + int (length x)" "offset \<le> end_byte"
  defines "s \<equiv> max start offset - offset"
    and "e \<equiv> wrap_u64 (min end_byte (wrap_u64 (offset + int (length x) - 1)) - offset)"
  shows "slice_block_bytes x s (Some (wrap_u64 (e - s + 1))) = byte_window offset start end_byte x"
proof -
  have "0 < length x" using assms(1) by simp
  then have "wrap_u64 (offset + int (length x) - 1) = offset + int (length x) - 1"
    using assms(2,3) by (intro wrap_u64_id) linarith+
  then have e: "e = min end_byte (offset + int (length x) - 1) - offset"
    unfolding e_def using assms(2,3,5-7) \<open>0 < length x\<close>
    by (simp only: min_def split: if_split) (intro conjI impI wrap_u64_id; linarith)
  have "0 \<le> e - s" using assms(1,5-7) by (simp add: e s_def)
  then have w: "wrap_u64 (e - s + 1) = e - s + 1"
    using assms(2,3) by (intro wrap_u64_id) (auto simp: e s_def)
  have s: "nat s = nat (start - offset)" by (simp add: s_def)
  show ?thesis
  proof (cases "end_byte \<le> offset + int (length x) - 1")
    case True
    then have "nat (e - s + 1) = nat (end_byte + 1 - offset) - nat (start - offset)"
      using assms(4,5,7) by (auto simp: e s_def min_def max_def nat_diff_distrib' algebra_simps)
    then show ?thesis unfolding w by (simp add: s byte_window_def drop_take)
  next
    case False
    then have "length x - nat (start - offset) \<le> nat (e - s + 1)" "length x \<le> nat (end_byte + 1 - offset)"
      by (auto simp: e s_def min_def max_def)
    then show ?thesis unfolding w by (simp add: s byte_window_def)
  qed
qed

lemma byte_window_outside:
  "start \<ge> offset + int (length x) \<or> end_byte < offset \<Longrightarrow> byte_window offset start end_byte x = []"
  by (auto simp: byte_window_def)

lemma slice_loop_bytes:
  assumes "0 \<le> offset" "offset + int (length (concat bs)) < 2 ^ 64" "0 \<le> start" "start \<le> end_byte"
    and "\<And>j. j < length bs \<Longrightarrow> blk (i + j) = bs ! j"
  shows "concat (map (\<lambda>(j, s, n). slice_block_bytes (blk j) s (Some n))
      (slice_loop i offset (map (\<lambda>b. int (length b)) bs) start end_byte)) =
    byte_window offset start end_byte (concat bs)"
  using assms(1,2,5)
proof (induction bs arbitrary: i offset)
  case Nil
  then show ?case by (simp add: byte_window_def)
next
  case (Cons x bs)
  let ?o = "offset + int (length x)"
  have o: "wrap_u64 ?o = ?o" using Cons.prems(1,2) by (intro wrap_u64_id) auto
  have blk: "blk i = x" using Cons.prems(3) [of 0] by simp
  have "blk (Suc i + j) = bs ! j" if "j < length bs" for j
    using Cons.prems(3) [of "Suc j"] that by simp
  with Cons.IH [of ?o "Suc i"] Cons.prems(1,2)
  have ih: "concat (map (\<lambda>(j, s, n). slice_block_bytes (blk j) s (Some n))
      (slice_loop (Suc i) ?o (map (\<lambda>b. int (length b)) bs) start end_byte)) =
    byte_window ?o start end_byte (concat bs)" by simp
  show ?case
  proof (cases "x = [] \<or> ?o \<le> start \<or> offset > end_byte")
    case True
    then have "byte_window offset start end_byte x = []"
      using byte_window_outside [of offset x start end_byte] by (auto simp: byte_window_def)
    with True ih show ?thesis by (simp add: Let_def o byte_window_append)
  next
    case False
    with block_slice [of x offset start end_byte] Cons.prems(1,2) assms(3,4) ih show ?thesis
      by (simp add: Let_def o blk byte_window_append del: slice_block_bytes_simps)
  qed
qed

text \<open>
  What a range asks for, by the HTTP rules: bytes \<open>a\<close> to \<open>b\<close> clipped at the end of the content, the bytes
  from \<open>a\<close> on, or the last \<open>m\<close> bytes; nothing when the first byte is past the end, the bounds are the
  wrong way round, the suffix is empty or there is no content. The part comes with its position.
\<close>

fun range_part :: "Range \<Rightarrow> bytes \<Rightarrow> (nat \<times> bytes) option" where
  "range_part (RangeInt a (Some b)) d =
     (if a \<le> b \<and> a < int (length d) then Some (nat a, take (nat (b - a + 1)) (drop (nat a) d)) else None)"
| "range_part (RangeInt a None) d = (if a < int (length d) then Some (nat a, drop (nat a) d) else None)"
| "range_part (RangeSuffix m) d =
     (if m = 0 \<or> d = [] then None else Some (length d - nat m, drop (length d - nat m) d))"

lemma resolve_range_part:
  assumes "case rng of RangeInt f l \<Rightarrow> 0 \<le> f | RangeSuffix n \<Rightarrow> 0 \<le> n"
  shows "case range_part rng d of
      None \<Rightarrow> resolve_range rng (int (length d)) = None
    | Some (i, part) \<Rightarrow> part \<noteq> [] \<and> part = take (length part) (drop i d) \<and>
        resolve_range rng (int (length d)) = Some (int i, int i + int (length part) - 1)"
proof (cases rng)
  case (RangeInt a l)
  with assms show ?thesis
    by (cases l) (auto simp: resolve_range_def Let_def min_def nat_diff_distrib')
next
  case (RangeSuffix m)
  with assms show ?thesis by (auto simp: resolve_range_def Let_def min_def)
qed

section \<open>Properties\<close>

text \<open>
  C16. Ranged reads are exact: for the blocks of an object, the slices that
  \<^verbatim>\<open>slice_blocks_for_range\<close> selects, cut out of their blocks and put together, are exactly the bytes
  \<open>start\<close> to \<open>end\<close> (inclusive) of the object, for every split into blocks, empty blocks included.
\<close>

theorem range_slices_exact:
  assumes "int (length (concat bs)) < 2 ^ 64" "0 \<le> start" "start \<le> end_byte"
  shows "concat (map (\<lambda>(j, s, n). slice_block_bytes (bs ! j) s (Some n))
      (slice_blocks_for_range (map (\<lambda>b. int (length b)) bs) start end_byte)) =
    take (nat (end_byte - start + 1)) (drop (nat start) (concat bs))"
proof -
  have "nat (end_byte + 1) - nat start = nat (end_byte - start + 1)" using assms(2,3) by simp
  with slice_loop_bytes [of 0 bs start end_byte "\<lambda>j. bs ! j" 0] assms show ?thesis
    by (simp add: slice_blocks_for_range_def byte_window_def drop_take)
qed

theorem range_slices_exact_witness:
  "concat (map (\<lambda>(j, s, n). slice_block_bytes ([[1, 2, 3], [], [4, 5]] ! j) s (Some n))
      (slice_blocks_for_range [3, 0, 2] 2 3)) = [3, 4]"
  using range_slices_exact [of "[[1, 2, 3], [], [4, 5]]" 2 3] by simp

lemma slice_loop_bounds:
  assumes "0 \<le> offset" "offset + sum_list sizes < 2 ^ 64" "0 \<le> start" "start \<le> end_byte"
    and "\<forall>z \<in> set sizes. 0 \<le> z" "(j, s, n) \<in> set (slice_loop i offset sizes start end_byte)"
  shows "i \<le> j \<and> j < i + length sizes \<and> 0 \<le> s \<and> 0 < n \<and> s + n \<le> sizes ! (j - i)"
  using assms(1,2,5,6)
proof (induction sizes arbitrary: i offset)
  case (Cons z zs)
  have z: "0 \<le> z" "0 \<le> sum_list zs" using Cons.prems(3) by (auto intro: sum_list_nonneg)
  then have o: "wrap_u64 (offset + z) = offset + z" using Cons.prems(1,2) by (intro wrap_u64_id) auto
  show ?case
  proof (cases "(j, s, n) \<in> set (slice_loop (Suc i) (offset + z) zs start end_byte)")
    case True
    with Cons.IH [OF _ _ _ True] Cons.prems z show ?thesis by (auto simp: nth_Cons' Suc_le_eq)
  next
    case False
    with Cons.prems(4) z have hit: "z \<noteq> 0" "start < offset + z" "offset \<le> end_byte" "j = i"
      "s = max start offset - offset"
      "n = wrap_u64 (wrap_u64 (min end_byte (wrap_u64 (offset + z - 1)) - offset) - s + 1)"
      by (auto simp: Let_def o split: if_splits)
    have "wrap_u64 (offset + z - 1) = offset + z - 1" using Cons.prems(1,2) z hit(1) by (intro wrap_u64_id) auto
    moreover have "wrap_u64 (min end_byte (offset + z - 1) - offset) = min end_byte (offset + z - 1) - offset"
      using Cons.prems(1,2) z hit(1-3) by (intro wrap_u64_id) auto
    moreover have "wrap_u64 (min end_byte (offset + z - 1) - offset - s + 1) =
        min end_byte (offset + z - 1) - offset - s + 1"
      using Cons.prems(1,2) z hit(1-3) assms(4) by (intro wrap_u64_id) (auto simp: hit(5))
    ultimately show ?thesis using hit assms(4) z(1) by (auto simp: min_def max_def)
  qed
qed simp

lemma resolve_range_bounds:
  assumes "resolve_range rng sz = Some (a, b)" "0 \<le> sz"
    and "case rng of RangeInt f l \<Rightarrow> 0 \<le> f | RangeSuffix n \<Rightarrow> 0 \<le> n"
  shows "0 \<le> a" "a \<le> b" "b < sz"
  using assms by (auto simp: resolve_range_def Let_def split: if_splits Range.splits)

text \<open>
  A satisfiable range stays inside the object, and each slice taken for it stays inside its
  block: every selected block exists, at least one byte is taken of it, and no byte past its end,
  so a range request fetches no block it does not need.
\<close>

theorem range_slices_in_bounds:
  assumes "resolve_range rng (sum_list sizes) = Some (a, b)" "\<forall>z \<in> set sizes. 0 \<le> z" "sum_list sizes < 2 ^ 64"
    and "case rng of RangeInt f l \<Rightarrow> 0 \<le> f | RangeSuffix n \<Rightarrow> 0 \<le> n"
    and "(j, s, n) \<in> set (slice_blocks_for_range sizes a b)"
  shows "0 \<le> a \<and> a \<le> b \<and> b < sum_list sizes \<and> j < length sizes \<and> 0 \<le> s \<and> 0 < n \<and> s + n \<le> sizes ! j"
proof -
  have "0 \<le> sum_list sizes" using assms(2) by (auto intro: sum_list_nonneg)
  note r = resolve_range_bounds [OF assms(1) this assms(4)]
  from slice_loop_bounds [of 0 sizes a b j s n 0] r assms show ?thesis
    by (simp add: slice_blocks_for_range_def)
qed

theorem range_slices_in_bounds_witness:
  "resolve_range (RangeSuffix 3) (sum_list [3, 0, 2]) = Some (2, 4) \<and>
   (2, 0, 2) \<in> set (slice_blocks_for_range [3, 0, 2] 2 4) \<and> (0 :: int) + 2 \<le> [3, 0, 2] ! 2"
proof -
  have "resolve_range (RangeSuffix 3) (sum_list [3, 0, 2]) = Some (2, 4)"
    "(2, 0, 2) \<in> set (slice_blocks_for_range [3, 0, 2] 2 4)"
    by (simp_all add: resolve_range_def slice_blocks_for_range_def Let_def wrap_u64_def)
  with range_slices_in_bounds [of "RangeSuffix 3" "[3, 0, 2]" 2 4 2 0 2] show ?thesis by simp
qed

end
