(* ===== verification/Listing.thy ===== *)
theory Listing
  imports Store_Props
begin

text \<open>
  Listing a bucket: \<^verbatim>\<open>Store::list_objects\<close> (\<^verbatim>\<open>src/src/store.rs\<close>, lines 538-613) and what
  \<^verbatim>\<open>src/src/storage.rs\<close> builds on it, \<^verbatim>\<open>list_page\<close>, \<^verbatim>\<open>group_by_delimiter\<close> and \<^verbatim>\<open>merge_and_truncate\<close>. An
  entry is a key with its size and etag. A scan reads one state of the store.
\<close>

section \<open>Definitions\<close>

type_synonym entry = "string \<times> int \<times> string"

definition list_objects ::
    "Store \<Rightarrow> string \<Rightarrow> string option \<Rightarrow> string option \<Rightarrow> nat \<Rightarrow> (entry list \<times> bool) run" where
  "list_objects s bucket after pfx page_size =
     bind_run (case pfx of None \<Rightarrow> Value None
               | Some p \<Rightarrow> bind_run (prefix_key_range p) (\<lambda>r. Value (Some r)))
       (\<lambda>prefix_range.
         let limit = page_size + 1;
             lower = map_option fst prefix_range;
             upper = Option.bind prefix_range snd;
             hit = (\<lambda>((b, k), r). b = bucket \<and> \<not> obj_deleted r \<and>
                      (case after of
                         Some a \<Rightarrow> a < k
                       | None \<Rightarrow> (case lower of None \<Rightarrow> True | Some l \<Rightarrow> l \<le> k)) \<and>
                      (case upper of None \<Rightarrow> True | Some u \<Rightarrow> k < u));
             rows = take limit (sort_key fst
                      (map (\<lambda>((_, k), r). (k, obj_size r, obj_etag r)) (filter hit (objects s))))
         in Value (take page_size rows, length rows > page_size))"

fun find_sub :: "string \<Rightarrow> string \<Rightarrow> nat option" where
  "find_sub d [] = (if d = [] then Some 0 else None)"
| "find_sub d (c # t) = (if prefix d (c # t) then Some 0 else map_option Suc (find_sub d t))"

fun group_loop ::
    "entry list \<Rightarrow> string list \<Rightarrow> entry list \<Rightarrow> string \<Rightarrow> string \<Rightarrow> entry list \<times> string list" where
  "group_loop contents common [] pfx delim = (contents, common)"
| "group_loop contents common (e # es) pfx delim =
     (case strip_prefix pfx (fst e) of
        None \<Rightarrow> group_loop (contents @ [e]) common es pfx delim
      | Some rest \<Rightarrow>
          (case find_sub delim rest of
             Some idx \<Rightarrow>
               (let cp = pfx @ take idx rest @ delim
                in if (common = [] \<or> last common \<noteq> cp) \<and> cp \<notin> set common
                   then group_loop contents (common @ [cp]) es pfx delim
                   else group_loop contents common es pfx delim)
           | None \<Rightarrow> group_loop (contents @ [e]) common es pfx delim))"

definition group_by_delimiter :: "entry list \<Rightarrow> string \<Rightarrow> string \<Rightarrow> entry list \<times> string list" where
  "group_by_delimiter objs pfx delim = group_loop [] [] objs pfx delim"

datatype Item = Obj entry | Prefix string

definition merge_and_truncate ::
    "entry list \<Rightarrow> string list \<Rightarrow> nat \<Rightarrow> entry list \<times> string list \<times> bool \<times> string option" where
  "merge_and_truncate contents common max_keys =
     (let merged = sort_key fst (map (\<lambda>e. (fst e, Obj e)) contents @ map (\<lambda>p. (p, Prefix p)) common);
          is_truncated = length merged > max_keys;
          kept = take max_keys merged;
          next_token = (if is_truncated then (if kept = [] then None else Some (fst (last kept))) else None)
      in (concat (map (\<lambda>(_, i). case i of Obj e \<Rightarrow> [e] | Prefix p \<Rightarrow> []) kept),
          concat (map (\<lambda>(_, i). case i of Obj e \<Rightarrow> [] | Prefix p \<Rightarrow> [p]) kept),
          is_truncated, next_token))"

definition SCAN_CAP :: nat where
  "SCAN_CAP = 100000"

partial_function (option) gather_loop ::
    "Store \<Rightarrow> string \<Rightarrow> string option \<Rightarrow> string option \<Rightarrow> entry list \<Rightarrow> entry list run option" where
  "gather_loop s bucket pfx cursor gathered =
     (case list_objects s bucket cursor pfx 1000 of
        Panic \<Rightarrow> Some Panic
      | Value r \<Rightarrow>
          (let gathered' = gathered @ fst r
           in if fst r \<noteq> [] \<and> snd r \<and> length gathered' < SCAN_CAP
              then gather_loop s bucket pfx (Some (fst (last (fst r)))) gathered'
              else Some (Value gathered')))"

definition list_page ::
    "Store \<Rightarrow> string \<Rightarrow> string option \<Rightarrow> string option \<Rightarrow> string option \<Rightarrow> nat \<Rightarrow>
     (entry list \<times> string list \<times> bool \<times> string option) run option" where
  "list_page s bucket start_after pfx delimiter max_keys =
     (case delimiter of
        None \<Rightarrow>
          Some (bind_run (list_objects s bucket start_after pfx max_keys)
            (\<lambda>(objs, is_truncated). Value (objs, [], is_truncated,
               if is_truncated \<and> objs \<noteq> [] then Some (fst (last objs)) else None)))
      | Some delim \<Rightarrow>
          map_option (\<lambda>r. bind_run r (\<lambda>gathered.
            let g = group_by_delimiter gathered (case pfx of None \<Rightarrow> [] | Some p \<Rightarrow> p) delim
            in Value (merge_and_truncate (fst g) (snd g) max_keys)))
            (gather_loop s bucket pfx start_after []))"

section \<open>A page of keys\<close>

text \<open>The live entries of a bucket under a prefix and after a key, in key order.\<close>

definition matching :: "Store \<Rightarrow> string \<Rightarrow> string option \<Rightarrow> string \<Rightarrow> entry list" where
  "matching s bucket after p =
     sort_key fst (map (\<lambda>((_, k), r). (k, obj_size r, obj_etag r))
       (filter (\<lambda>((b, k), r). b = bucket \<and> \<not> obj_deleted r \<and> prefix p k \<and>
          (case after of None \<Rightarrow> True | Some a \<Rightarrow> a < k)) (objects s)))"

lemma set_matching:
  assumes "store_ok s"
  shows "(k, sz, et) \<in> set (matching s bucket after p) \<longleftrightarrow>
    prefix p k \<and> (\<forall>a. after = Some a \<longrightarrow> a < k) \<and>
    (\<exists>bs. get_object s bucket k = Some (bs, sz, et))"
proof -
  have ok: "table_ok (objects s)" using assms by (simp add: store_ok_def)
  have "(k, sz, et) \<in> set (matching s bucket after p) \<longleftrightarrow>
    (\<exists>r. ((bucket, k), r) \<in> set (objects s) \<and> \<not> obj_deleted r \<and> prefix p k \<and>
       (case after of None \<Rightarrow> True | Some a \<Rightarrow> a < k) \<and> sz = obj_size r \<and> et = obj_etag r)"
    by (fastforce simp: matching_def image_iff)
  moreover have "(\<exists>bs. get_object s bucket k = Some (bs, sz, et)) \<longleftrightarrow>
    (\<exists>r. map_of (objects s) (bucket, k) = Some r \<and> \<not> obj_deleted r \<and> sz = obj_size r \<and> et = obj_etag r)"
    by (auto simp: get_object_def split: option.split)
  ultimately show ?thesis by (cases after) (auto simp: set_table_iff [OF ok])
qed

lemma distinct_map_sort_key: "distinct (map f xs) \<Longrightarrow> distinct (map f (sort_key f xs))"
  using mset_eq_imp_distinct_iff [of "map f (sort_key f xs)" "map f xs"] by simp

lemma matching_keys:
  assumes "store_ok s"
  shows "sorted_wrt (<) (map fst (matching s bucket after p))"
proof -
  let ?rows = "filter (\<lambda>((b, k), r). b = bucket \<and> \<not> obj_deleted r \<and> prefix p k \<and>
          (case after of None \<Rightarrow> True | Some a \<Rightarrow> a < k)) (objects s)"
  have "distinct (map fst ?rows)"
    using assms by (simp add: store_ok_def distinct_map_filter)
  moreover have "inj_on (snd :: string \<times> string \<Rightarrow> string) (fst ` set ?rows)"
    by (auto simp: inj_on_def)
  ultimately have "distinct (map (snd \<circ> fst) ?rows)"
    by (simp only: map_map [symmetric] distinct_map set_map)
  then have "distinct (map fst (map (\<lambda>((_, k), r). (k, obj_size r, obj_etag r)) ?rows))"
    by (simp add: comp_def case_prod_unfold)
  then have "distinct (map fst (matching s bucket after p))"
    unfolding matching_def by (rule distinct_map_sort_key)
  moreover have "sorted (map fst (matching s bucket after p))" by (simp add: matching_def)
  ultimately show ?thesis by (simp add: strict_sorted_iff)
qed

definition prefix_text :: "string option \<Rightarrow> string" where
  "prefix_text pfx = (case pfx of None \<Rightarrow> [] | Some p \<Rightarrow> p)"

lemma prefix_text_simps [simp]: "prefix_text None = []" "prefix_text (Some p) = p"
  by (simp_all add: prefix_text_def)

definition range_ok :: "string option \<Rightarrow> bool" where
  "range_ok pfx \<longleftrightarrow> (case pfx of None \<Rightarrow> True | Some p \<Rightarrow> prefix_key_range p \<noteq> Panic)"

lemma list_objects_page:
  assumes "range_ok pfx" "\<And>a. after = Some a \<Longrightarrow> prefix_text pfx \<le> a"
  shows "list_objects s bucket after pfx n =
    (let L = matching s bucket after (prefix_text pfx) in Value (take n L, n < length L))"
proof (cases pfx)
  case None
  then show ?thesis by (cases after) (simp_all add: list_objects_def matching_def Let_def case_prod_unfold)
next
  case (Some p)
  with assms(1) obtain l u where r: "prefix_key_range p = Value (l, u)"
    by (cases "prefix_key_range p") (auto simp: range_ok_def)
  have "(case after of Some a \<Rightarrow> a < k | None \<Rightarrow> p \<le> k) \<and> (case u of None \<Rightarrow> True | Some u \<Rightarrow> k < u) \<longleftrightarrow>
      prefix p k \<and> (case after of None \<Rightarrow> True | Some a \<Rightarrow> a < k)" for k
  proof (cases after)
    case (Some a)
    then have "a < k \<Longrightarrow> p \<le> k" using assms(2) [of a] \<open>pfx = Some p\<close> by simp
    then show ?thesis
      using increment_front_range [of p k] prefix_key_range_Value [OF r] Some by auto
  qed (use increment_front_range [of p k] prefix_key_range_Value [OF r] in simp)
  with r prefix_key_range_Value [OF r] Some show ?thesis
    by (cases after) (simp_all add: list_objects_def matching_def Let_def case_prod_unfold)
qed

section \<open>Paging\<close>

lemma filter_after_nth:
  assumes "sorted_wrt (<) (map fst L)" "0 < n" "n \<le> length L"
  shows "filter (\<lambda>e. fst (L ! (n - 1)) < (fst e :: 'a :: linorder)) L = drop n L"
proof -
  let ?P = "\<lambda>e. fst (L ! (n - 1)) < fst e"
  have m: "fst (L ! i) < fst (L ! j)" if "i < j" "j < length L" for i j
    using sorted_wrt_nth_less [OF assms(1), of i j] that by simp
  have "\<not> ?P e" if e: "e \<in> set (take n L)" for e
  proof -
    from e obtain i where "i < n" "i < length L" "e = L ! i" by (auto simp: in_set_conv_nth)
    then have "fst (L ! i) \<le> fst (L ! (n - 1))"
      using m [of i "n - 1"] assms(2,3) by (cases "i = n - 1") (auto intro: order_less_imp_le)
    with \<open>e = L ! i\<close> show ?thesis by simp
  qed
  moreover have "?P e" if e: "e \<in> set (drop n L)" for e
  proof -
    from e obtain i where "i < length L - n" "e = L ! (n + i)" by (auto simp: in_set_conv_nth)
    with m [of "n - 1" "n + i"] assms(2) show ?thesis by simp
  qed
  ultimately have "filter ?P (take n L @ drop n L) = drop n L"
    by (simp only: filter_append) (simp add: filter_False filter_True)
  then show ?thesis by simp
qed

lemma matching_after:
  assumes "\<And>a. after = Some a \<Longrightarrow> a < k"
  shows "matching s bucket (Some k) p = filter (\<lambda>e. k < fst e) (matching s bucket after p)"
proof -
  have eq: "(case after of None \<Rightarrow> True | Some a \<Rightarrow> a < x) \<and> k < x \<longleftrightarrow> k < x" for x
    using assms by (cases after) (auto intro: less_trans)
  show ?thesis
    unfolding matching_def
    by (simp add: filter_sort filter_map comp_def case_prod_unfold eq conj_ac)
      (rule arg_cong [where f = "sort_key fst"], rule arg_cong [where f = "map _"], rule filter_cong,
        use eq in auto)
qed

lemma matching_next:
  assumes "store_ok s" "0 < n" "n \<le> length (matching s bucket after p)"
  defines "k \<equiv> fst (matching s bucket after p ! (n - 1))"
  shows "matching s bucket (Some k) p = drop n (matching s bucket after p)" and "p \<le> k"
proof -
  let ?L = "matching s bucket after p"
  have "?L ! (n - 1) \<in> set ?L" using assms(2,3) by simp
  then have "prefix p k" "\<And>a. after = Some a \<Longrightarrow> a < k"
    using set_matching [OF assms(1), of k "fst (snd (?L ! (n - 1)))" "snd (snd (?L ! (n - 1)))" bucket after p]
    by (simp_all add: k_def)
  then show "matching s bucket (Some k) p = drop n ?L" "p \<le> k"
    using matching_after [of after k s bucket p] filter_after_nth [OF matching_keys [OF assms(1)] assms(2,3)]
    by (simp_all add: k_def prefix_le)
qed

lemma gather_loop_collects:
  assumes "store_ok s" "range_ok pfx" "\<And>a. cursor = Some a \<Longrightarrow> prefix_text pfx \<le> a"
    and "1000 dvd length gathered" "length gathered < SCAN_CAP"
  shows "gather_loop s bucket pfx cursor gathered =
    Some (Value (gathered @ take (SCAN_CAP - length gathered) (matching s bucket cursor (prefix_text pfx))))"
  using assms(3-5)
proof (induction "length (matching s bucket cursor (prefix_text pfx))" arbitrary: cursor gathered rule: less_induct)
  case less
  let ?L = "matching s bucket cursor (prefix_text pfx)"
  have page: "list_objects s bucket cursor pfx 1000 = Value (take 1000 ?L, 1000 < length ?L)"
    using list_objects_page [OF assms(2) less.prems(1)] by (simp add: Let_def)
  have cap: "length gathered + 1000 \<le> SCAN_CAP"
    using less.prems(2,3) by (auto simp: SCAN_CAP_def elim!: dvdE)
  show ?case
  proof (cases "1000 < length ?L \<and> length gathered + 1000 < SCAN_CAP")
    case True
    let ?k = "fst (?L ! (1000 - 1))"
    have "length ?L - 1000 < length ?L" using True by linarith
    moreover
    note nxt = matching_next [OF assms(1), of 1000 bucket cursor "prefix_text pfx"]
    ultimately have "gather_loop s bucket pfx (Some ?k) (gathered @ take 1000 ?L) =
        Some (Value ((gathered @ take 1000 ?L) @ take (SCAN_CAP - (length gathered + 1000)) (drop 1000 ?L)))"
      using less.hyps [of "Some ?k" "gathered @ take 1000 ?L"] True nxt less.prems(2) by simp
    moreover have "take 1000 ?L @ take (SCAN_CAP - (length gathered + 1000)) (drop 1000 ?L) =
        take (SCAN_CAP - length gathered) ?L"
      using cap by (simp flip: take_add)
    moreover have "last (take 1000 ?L) = ?L ! (1000 - 1)" using True by (subst last_conv_nth) auto
    ultimately show ?thesis
      using True page by (subst gather_loop.simps) (simp add: Let_def)
  next
    case False
    then have "SCAN_CAP - length gathered = 1000 \<or> length ?L \<le> 1000" using cap by linarith
    then have "take 1000 ?L = take (SCAN_CAP - length gathered) ?L" using cap by auto
    then show ?thesis using False page by (subst gather_loop.simps) (auto simp: Let_def)
  qed
qed

section \<open>Grouping by a delimiter\<close>

text \<open>The common prefix a key falls under, if any.\<close>

definition common_prefix :: "string \<Rightarrow> string \<Rightarrow> string \<Rightarrow> string option" where
  "common_prefix pfx delim k =
     Option.bind (strip_prefix pfx k) (\<lambda>rest.
       map_option (\<lambda>idx. pfx @ take idx rest @ delim) (find_sub delim rest))"

lemma group_loop_Cons:
  "group_loop contents common (e # es) pfx delim =
     (case common_prefix pfx delim (fst e) of
        None \<Rightarrow> group_loop (contents @ [e]) common es pfx delim
      | Some cp \<Rightarrow> group_loop contents (if cp \<in> set common then common else common @ [cp]) es pfx delim)"
proof -
  have "(common = [] \<or> last common \<noteq> cp) \<and> cp \<notin> set common \<longleftrightarrow> cp \<notin> set common" for cp
    by (metis last_in_set)
  then show ?thesis by (simp add: common_prefix_def Let_def split: option.split)
qed

lemma group_loop_spec:
  assumes "distinct common"
  shows "fst (group_loop contents common es pfx delim) =
      contents @ filter (\<lambda>e. common_prefix pfx delim (fst e) = None) es \<and>
    set (snd (group_loop contents common es pfx delim)) =
      set common \<union> {c. \<exists>e \<in> set es. common_prefix pfx delim (fst e) = Some c} \<and>
    distinct (snd (group_loop contents common es pfx delim))"
  using assms
proof (induction es arbitrary: contents common)
  case (Cons e es)
  show ?case
  proof (cases "common_prefix pfx delim (fst e)")
    case None
    with Cons.IH [OF Cons.prems, of "contents @ [e]"] show ?thesis
      by (simp add: group_loop_Cons del: group_loop.simps)
  next
    case (Some cp)
    let ?common = "if cp \<in> set common then common else common @ [cp]"
    have "distinct ?common" using Cons.prems by simp
    from Cons.IH [OF this, of contents] Some show ?thesis
      by (auto simp add: group_loop_Cons simp del: group_loop.simps)
  qed
qed simp

lemma find_sub_Some:
  "find_sub d s = Some i \<Longrightarrow> prefix d (drop i s) \<and> i \<le> length s \<and> (\<forall>j < i. \<not> prefix d (drop j s))"
proof (induction d s arbitrary: i rule: find_sub.induct)
  case (2 d c t)
  then show ?case
    by (cases i) (auto split: if_splits simp: less_Suc_eq_0_disj)
qed (auto split: if_splits)

lemma find_sub_prefix:
  assumes "prefix (u @ d) s"
  shows "\<exists>i \<le> length u. find_sub d s = Some i"
  using assms
proof (induction u arbitrary: s)
  case Nil
  then show ?case by (cases s) auto
next
  case (Cons a u)
  then obtain t where s: "s = a # t" "prefix (u @ d) t" by (cases s) auto
  from Cons.IH [OF s(2)] s(1) show ?case by auto
qed

lemma common_prefix_prefix:
  assumes "common_prefix p d k = Some c"
  shows "prefix c k"
proof -
  from assms obtain idx where k: "prefix p k" and i: "find_sub d (drop (length p) k) = Some idx"
    and c: "c = p @ take idx (drop (length p) k) @ d"
    by (auto simp: common_prefix_def strip_prefix_def split: if_splits bind_splits)
  let ?r = "drop (length p) k"
  from find_sub_Some [OF i] obtain z where "drop idx ?r = d @ z" by (auto elim: prefixE)
  then have "?r = take idx ?r @ d @ z" by (metis append_take_drop_id)
  moreover have "k = p @ ?r" using k by (auto elim: prefixE)
  ultimately show ?thesis unfolding c by (metis append_assoc prefixI)
qed

text \<open>A key that starts with another key's common prefix falls under it.\<close>

lemma common_prefix_shared:
  assumes "common_prefix p d k = Some c" "prefix c k'" "common_prefix p d k' = Some c'"
  shows "length c' \<le> length c"
proof -
  from assms(1) obtain idx where i: "find_sub d (drop (length p) k) = Some idx"
    and c: "c = p @ take idx (drop (length p) k) @ d"
    by (auto simp: common_prefix_def strip_prefix_def split: if_splits bind_splits)
  have "prefix (take idx (drop (length p) k) @ d) (drop (length p) k')"
    using assms(2) by (auto simp: c elim: prefixE)
  from find_sub_prefix [OF this] assms(3) show ?thesis
    by (auto simp: common_prefix_def strip_prefix_def c split: if_splits)
qed

lemma less_not_prefix:
  "(c :: 'a :: linorder list) < d \<Longrightarrow> \<not> prefix c d \<Longrightarrow> c @ x < d @ y"
proof (induction c arbitrary: d)
  case (Cons a c)
  then show ?case by (cases d) auto
qed simp

lemma common_prefix_mono:
  assumes "k \<le> k'" "common_prefix p d k = Some c" "common_prefix p d k' = Some c'"
  shows "c \<le> c'"
proof (rule ccontr)
  assume "\<not> c \<le> c'"
  then have less: "c' < c" by simp
  note pk = common_prefix_prefix [OF assms(2)] common_prefix_prefix [OF assms(3)]
  have "\<not> prefix c' c"
  proof
    assume pc: "prefix c' c"
    then have "prefix c' k" using pk(1) by (rule prefix_order.trans)
    from common_prefix_shared [OF assms(3) this assms(2)] pc have "c' = c"
      by (auto elim!: prefixE)
    with less show False by simp
  qed
  from less_not_prefix [OF less this] pk assms(1) show False
    by (auto elim!: prefixE simp: not_less [symmetric])
qed

lemma group_loop_sorted:
  assumes "sorted common" "sorted (map fst es)"
    and "\<And>c e c'. c \<in> set common \<Longrightarrow> e \<in> set es \<Longrightarrow> common_prefix pfx delim (fst e) = Some c' \<Longrightarrow> c \<le> c'"
  shows "sorted (snd (group_loop contents common es pfx delim))"
  using assms
proof (induction es arbitrary: contents common)
  case (Cons e es)
  have es: "sorted (map fst es)" "\<And>x. x \<in> set es \<Longrightarrow> fst e \<le> fst x" using Cons.prems(2) by auto
  show ?case
  proof (cases "common_prefix pfx delim (fst e)")
    case None
    have "sorted (snd (group_loop (contents @ [e]) common es pfx delim))"
      by (rule Cons.IH [OF Cons.prems(1) es(1)]) (blast intro: Cons.prems(3) list.set_intros(2))
    with None show ?thesis by (simp add: group_loop_Cons del: group_loop.simps)
  next
    case (Some cp)
    let ?common = "if cp \<in> set common then common else common @ [cp]"
    have "c \<le> cp" if "c \<in> set common" for c by (rule Cons.prems(3) [OF that list.set_intros(1) Some])
    then have "sorted ?common" using Cons.prems(1) by (simp add: sorted_append)
    moreover have "c \<le> c'" if "c \<in> set ?common" "x \<in> set es" "common_prefix pfx delim (fst x) = Some c'" for c x c'
    proof (cases "c \<in> set common")
      case True
      then show ?thesis by (rule Cons.prems(3) [OF _ list.set_intros(2) [OF that(2)] that(3)])
    next
      case False
      then have "c = cp" using that(1) by (auto split: if_splits)
      then show ?thesis using common_prefix_mono [OF es(2) [OF that(2)] Some that(3)] by simp
    qed
    ultimately have "sorted (snd (group_loop contents ?common es pfx delim))"
      by (rule Cons.IH [OF _ es(1)])
    with Some show ?thesis by (simp add: group_loop_Cons del: group_loop.simps)
  qed
qed simp

text \<open>
  What a key is listed as: its common prefix if it has one, and itself otherwise. A delimited listing
  shows these names in order and cuts the sequence after \<open>max_keys\<close> of them.
\<close>

definition shown_as :: "string \<Rightarrow> string \<Rightarrow> string \<Rightarrow> string" where
  "shown_as p delim k = (case common_prefix p delim k of None \<Rightarrow> k | Some c \<Rightarrow> c)"

definition listing_names :: "string \<Rightarrow> string \<Rightarrow> entry list \<Rightarrow> string list" where
  "listing_names p delim L = sorted_list_of_set (shown_as p delim ` fst ` set L)"

lemma listing_names [simp]:
  "sorted_wrt (<) (listing_names p delim L)" "sorted (listing_names p delim L)" "distinct (listing_names p delim L)"
  "set (listing_names p delim L) = shown_as p delim ` fst ` set L"
  by (simp_all add: listing_names_def)

text \<open>A key that is a common prefix of another key has a common prefix itself.\<close>

lemma common_prefix_self:
  assumes "common_prefix p d k = Some c"
  shows "common_prefix p d c \<noteq> None"
proof -
  from assms obtain idx where c: "c = p @ take idx (drop (length p) k) @ d"
    by (auto simp: common_prefix_def strip_prefix_def split: if_splits bind_splits)
  then have "prefix (take idx (drop (length p) k) @ d) (drop (length p) c)" by simp
  from find_sub_prefix [OF this] show ?thesis by (auto simp: common_prefix_def strip_prefix_def c)
qed

lemma take_as_filter:
  "distinct (map f xs) \<Longrightarrow> take n xs = filter (\<lambda>x. f x \<in> set (take n (map f xs))) xs"
proof (induction xs arbitrary: n)
  case (Cons x xs)
  then show ?case
  proof (cases n)
    case (Suc m)
    have "filter (\<lambda>y. f y \<in> set (take n (map f (x # xs)))) xs = filter (\<lambda>y. f y \<in> set (take m (map f xs))) xs"
      using Cons.prems Suc by (intro filter_cong) (auto, metis imageI)
    with Cons Suc show ?thesis by simp
  qed simp
qed simp

lemma merge_page:
  assumes "sorted_wrt (<) (map fst contents)" "sorted_wrt (<) common" "fst ` set contents \<inter> set common = {}"
    and "sorted_wrt (<) names" "set names = fst ` set contents \<union> set common"
  shows "merge_and_truncate contents common n =
    (filter (\<lambda>e. fst e \<in> set (take n names)) contents, filter (\<lambda>c. c \<in> set common) (take n names),
     n < length names, if n < length names \<and> 0 < n then Some (names ! (n - 1)) else None)"
proof -
  let ?A = "map (\<lambda>e. (fst e, Obj e)) contents" and ?B = "map (\<lambda>p. (p, Prefix p)) common"
  let ?m = "sort_key fst (?A @ ?B)" and ?Q = "\<lambda>x. fst x \<in> set (take n names)"
  let ?isobj = "\<lambda>(_ :: string, i). case i of Obj e \<Rightarrow> True | _ \<Rightarrow> False"
  let ?isprf = "\<lambda>(_ :: string, i). case i of Obj e \<Rightarrow> False | _ \<Rightarrow> True"
  have ob: "concat (map (\<lambda>(_, i). case i of Obj e \<Rightarrow> [e] | Prefix p \<Rightarrow> []) xs) =
      map (\<lambda>(_, i). case i of Obj e \<Rightarrow> e | Prefix p \<Rightarrow> (p, 0, [])) (filter ?isobj xs)"
    and pr: "concat (map (\<lambda>(_, i). case i of Obj e \<Rightarrow> [] | Prefix p \<Rightarrow> [p]) xs) =
      map (\<lambda>(_, i). case i of Obj e \<Rightarrow> fst e | Prefix p \<Rightarrow> p) (filter ?isprf xs)"
    for xs :: "(string \<times> Item) list"
    by (induction xs) (auto split: Item.split)
  have ss: "sorted (map fst contents)" "distinct (map fst contents)" "sorted common" "distinct common"
    "sorted names" "distinct names" using assms(1,2,4) by (simp_all add: strict_sorted_iff)
  have "sort_key fst ?A = ?A" "sort_key fst ?B = ?B"
    using ss by (simp_all add: sort_key_id_if_sorted comp_def)
  then have f: "filter ?isobj ?m = ?A" "filter ?isprf ?m = ?B"
    by (simp_all add: filter_sort filter_map comp_def)
  have "distinct (map fst (?A @ ?B))" using ss assms(3) by (auto simp: comp_def)
  then have "distinct (map fst ?m)" by (rule distinct_map_sort_key)
  moreover have "set (map fst ?m) = set names" unfolding assms(5) by (auto simp: image_image image_Un)
  ultimately have names: "map fst ?m = names" "distinct (map fst ?m)"
    using sorted_distinct_set_unique [of "map fst ?m" names] ss(5,6) by simp_all
  then have kept: "take n ?m = filter ?Q ?m" using take_as_filter [of fst ?m n] by (simp only:)
  have "filter ?isobj (take n ?m) = filter ?Q ?A" "filter ?isprf (take n ?m) = filter ?Q ?B"
    unfolding kept using arg_cong [OF f(1), of "filter ?Q"] arg_cong [OF f(2), of "filter ?Q"]
    by (simp_all only: filter_filter conj_commute)
  then have "concat (map (\<lambda>(_, i). case i of Obj e \<Rightarrow> [e] | Prefix p \<Rightarrow> []) (take n ?m)) = filter ?Q contents"
    "concat (map (\<lambda>(_, i). case i of Obj e \<Rightarrow> [] | Prefix p \<Rightarrow> [p]) (take n ?m)) = filter (\<lambda>c. c \<in> set (take n names)) common"
    by (simp_all add: ob pr filter_map comp_def)
  moreover have "filter (\<lambda>c. c \<in> set (take n names)) common = filter (\<lambda>c. c \<in> set common) (take n names)"
    using ss by (intro sorted_distinct_set_unique) (auto simp: sorted_filter [where f = id, simplified] sorted_wrt_take)
  moreover have "length ?m = length names" using arg_cong [OF names(1), of length] by simp
  moreover have "fst (last (take n ?m)) = names ! (n - 1)" if "n < length names" "0 < n"
    using that names(1) \<open>length ?m = length names\<close>
    by (subst last_conv_nth) (auto simp: nth_map [of _ ?m fst, symmetric] simp del: nth_map)
  moreover have "n < length names \<Longrightarrow> ?m \<noteq> []" using \<open>length ?m = length names\<close> by fastforce
  ultimately show ?thesis by (auto simp add: merge_and_truncate_def Let_def)
qed

lemma list_page_names:
  assumes "store_ok s" "range_ok pfx" "\<forall>a. start = Some a \<longrightarrow> prefix_text pfx \<le> a"
    and L: "L = matching s bucket start (prefix_text pfx)" "length L \<le> SCAN_CAP"
    and names: "names = listing_names (prefix_text pfx) delim L"
  shows "list_page s bucket start pfx (Some delim) n = Some (Value
    (filter (\<lambda>e. common_prefix (prefix_text pfx) delim (fst e) = None \<and> fst e \<in> set (take n names)) L,
     filter (\<lambda>c. \<exists>e \<in> set L. common_prefix (prefix_text pfx) delim (fst e) = Some c) (take n names),
     n < length names, if n < length names \<and> 0 < n then Some (names ! (n - 1)) else None))"
proof -
  let ?g = "group_by_delimiter L (prefix_text pfx) delim"
  let ?keep = "\<lambda>e. common_prefix (prefix_text pfx) delim (fst e) = None"
  have ss: "sorted_wrt (<) (map fst L)" using matching_keys [OF assms(1)] by (simp add: L)
  then have sorted: "sorted (map fst L)" by (simp add: strict_sorted_iff)
  have g: "fst ?g = filter ?keep L"
    "set (snd ?g) = {c. \<exists>e \<in> set L. common_prefix (prefix_text pfx) delim (fst e) = Some c}"
    "distinct (snd ?g)"
    using group_loop_spec [of "[]" "[]" L "prefix_text pfx" delim] by (auto simp: group_by_delimiter_def)
  have "sorted (snd ?g)"
    using group_loop_sorted [OF _ sorted, of "[]" "prefix_text pfx" delim "[]"] by (simp add: group_by_delimiter_def)
  then have gs: "sorted_wrt (<) (snd ?g)" using g(3) by (simp add: strict_sorted_iff)
  have "sorted_wrt (<) (map fst (filter ?keep L))"
    using ss by (simp add: strict_sorted_iff sorted_filter distinct_map_filter)
  moreover have "fst ` set (filter ?keep L) \<inter> set (snd ?g) = {}"
    unfolding g(2) using common_prefix_self by fastforce
  moreover have "set names = fst ` set (filter ?keep L) \<union> set (snd ?g)"
    unfolding g(2) names by (force simp: shown_as_def image_iff split: option.split)
  ultimately have "merge_and_truncate (filter ?keep L) (snd ?g) n =
      (filter (\<lambda>e. fst e \<in> set (take n names)) (filter ?keep L), filter (\<lambda>c. c \<in> set (snd ?g)) (take n names),
       n < length names, if n < length names \<and> 0 < n then Some (names ! (n - 1)) else None)"
    using gs by (intro merge_page) (simp_all add: names)
  moreover have "gather_loop s bucket pfx start [] = Some (Value L)"
    using gather_loop_collects [OF assms(1,2), of start "[]" bucket] assms(3) L by (simp add: SCAN_CAP_def)
  ultimately show ?thesis
    unfolding list_page_def prefix_text_def [symmetric] by (simp add: Let_def g(1,2) conj_commute)
qed

section \<open>Properties\<close>

text \<open>
  A page of a listing: with a prefix that does not panic, from the start or from a key at or
  after the prefix, \<^verbatim>\<open>list_objects\<close> returns the first live entries of the bucket under the prefix in
  strictly increasing key order, reports truncation exactly when more remain, and continuing after the
  last key of a truncated page returns exactly the entries that remain: paging sees every live object
  once.
\<close>

theorem list_objects_pages:
  fixes s bucket pfx after
  assumes "store_ok s" "range_ok pfx" "\<forall>a. after = Some a \<longrightarrow> prefix_text pfx \<le> a" "0 < n"
  defines "L \<equiv> matching s bucket after (prefix_text pfx)"
  shows "list_objects s bucket after pfx n = Value (take n L, n < length L) \<and>
    sorted_wrt (<) (map fst L) \<and>
    (\<forall>k sz et. (k, sz, et) \<in> set L \<longleftrightarrow>
       prefix (prefix_text pfx) k \<and> (\<forall>a. after = Some a \<longrightarrow> a < k) \<and>
       (\<exists>bs. get_object s bucket k = Some (bs, sz, et))) \<and>
    (n < length L \<longrightarrow>
       list_objects s bucket (Some (fst (last (take n L)))) pfx m = Value (take m (drop n L), m < length (drop n L)))"
proof -
  have "list_objects s bucket (Some (fst (last (take n L)))) pfx m = Value (take m (drop n L), m < length (drop n L))"
    if "n < length L"
  proof -
    have "last (take n L) = L ! (n - 1)" using that assms(4) by (subst last_conv_nth) auto
    with matching_next [OF assms(1,4), of bucket after "prefix_text pfx"] that
      list_objects_page [OF assms(2), of "Some (fst (last (take n L)))" s bucket m]
    show ?thesis by (simp add: L_def Let_def)
  qed
  with list_objects_page [OF assms(2), of after s bucket n] assms(3) set_matching [OF assms(1)]
    matching_keys [OF assms(1)]
  show ?thesis by (simp add: L_def Let_def)
qed

definition demo_bucket :: Store where
  "demo_bucket =
     insert_object demo_crates 2 ''b'' 0 ''b'' [] 1 ''e''
       (insert_object demo_crates 1 ''b'' 0 ''a/1'' [] 1 ''e'' (store_new ''s'' (clock_new 0)))"

lemma demo_bucket_ok: "store_ok demo_bucket"
  by (simp add: demo_bucket_def)

lemma demo_bucket_matching:
  "matching demo_bucket ''b'' None '''' = [(''a/1'', 1, ''e''), (''b'', 1, ''e'')]"
  "matching demo_bucket ''b'' (Some ''a/'') '''' = [(''a/1'', 1, ''e''), (''b'', 1, ''e'')]"
  by (simp_all add: matching_def demo_bucket_def insert_object_def Let_def put_object_row_def append_fact_tx_def
      upsert_newer_def store_new_def char_less_byte)

theorem list_objects_pages_witness:
  "list_objects demo_bucket ''b'' None None 1 = Value ([(''a/1'', 1, ''e'')], True)"
  using list_objects_pages [OF demo_bucket_ok, of None None 1 "''b''" 0] demo_bucket_matching(1)
  by (simp add: range_ok_def)


lemma demo_common_prefix:
  "common_prefix '''' ''/'' ''a/1'' = Some ''a/''" "common_prefix '''' ''/'' ''b'' = None"
  by (simp_all add: common_prefix_def strip_prefix_def)

lemma demo_names: "listing_names '''' ''/'' [(''a/1'', 1, ''e''), (''b'', 1, ''e'')] = [''a/'', ''b'']"
  by (simp add: listing_names_def shown_as_def demo_common_prefix char_less_byte)


text \<open>Every key after a common prefix is shown at or after that prefix.\<close>

lemma shown_as_after:
  assumes "common_prefix p d k = Some t" "t < k'"
  shows "t \<le> shown_as p d k'"
proof (cases "common_prefix p d k'")
  case (Some c)
  note pre = common_prefix_prefix [OF assms(1)] common_prefix_prefix [OF Some]
  have "t \<le> c"
  proof (cases "prefix t k'")
    case True
    have "prefix c t"
      using common_prefix_shared [OF assms(1) True Some] prefix_length_prefix [OF pre(2) True] by blast
    then have "length t \<le> length c"
      using common_prefix_shared [OF Some _ assms(1)] prefix_order.trans [OF _ pre(1)] by blast
    with \<open>prefix c t\<close> have "c = t" by (auto elim!: prefixE)
    then show ?thesis by simp
  next
    case False
    from pre(1) obtain x where "k = t @ x" by (auto elim: prefixE)
    with less_not_prefix [OF assms(2) False, of x "[]"] have "k \<le> k'" by simp
    then show ?thesis using assms(1) Some by (rule common_prefix_mono)
  qed
  then show ?thesis by (simp add: shown_as_def Some)
qed (use assms(2) in \<open>simp add: shown_as_def\<close>)

lemma shown_as_le: "shown_as p d k \<le> k"
  by (auto simp: shown_as_def prefix_le dest: common_prefix_prefix split: option.split)

lemma sorted_head:
  "sorted_wrt (<) xs \<Longrightarrow> t \<in> set xs \<Longrightarrow> \<forall>x \<in> set xs. t \<le> (x :: 'a :: linorder) \<Longrightarrow> \<exists>ys. xs = t # ys"
  by (cases xs) fastforce+

lemma matching_from:
  "matching s bucket (Some a) p = filter (\<lambda>e. a < fst e) (matching s bucket None p)"
  by (rule matching_after) simp

lemma names_after_prefix:
  assumes "store_ok s" "get_object s bucket t = None"
    and "e \<in> set (matching s bucket start p)" "common_prefix p delim (fst e) = Some t"
  shows "e \<in> set (matching s bucket (Some t) p)"
    and "\<exists>ys. listing_names p delim (matching s bucket (Some t) p) = t # ys"
proof -
  obtain k sz et where e: "e = (k, sz, et)" by (cases e)
  have k: "prefix p k" "\<exists>bs. get_object s bucket k = Some (bs, sz, et)"
    using assms(3) set_matching [OF assms(1)] by (simp_all add: e)
  have "t \<le> k" using common_prefix_prefix [OF assms(4)] by (simp add: e prefix_le)
  moreover have "t \<noteq> k" using k(2) assms(2) by auto
  ultimately show in_page: "e \<in> set (matching s bucket (Some t) p)"
    using k set_matching [OF assms(1), of k sz et bucket "Some t" p] by (simp add: e)
  have "t \<in> shown_as p delim ` fst ` set (matching s bucket (Some t) p)"
    using in_page assms(4) by (force simp: shown_as_def image_iff)
  moreover have "\<forall>x \<in> shown_as p delim ` fst ` set (matching s bucket (Some t) p). t \<le> x"
    using shown_as_after [OF assms(4)] by (auto simp: matching_from)
  ultimately show "\<exists>ys. listing_names p delim (matching s bucket (Some t) p) = t # ys"
    by (intro sorted_head) simp_all
qed

lemma common_prefix_extends: "common_prefix p d k = Some c \<Longrightarrow> prefix p c"
  by (auto simp: common_prefix_def split: bind_splits)

text \<open>After a page of one name another name is left.\<close>

lemma names_continue:
  assumes "1 < length (listing_names p delim (matching s bucket start p))"
    and "listing_names p delim (matching s bucket start p) ! 0 = t"
  shows "\<exists>x \<in> set (listing_names p delim (matching s bucket (Some t) p)). t < x"
proof -
  let ?N = "listing_names p delim (matching s bucket start p)"
  have "t < ?N ! 1" using sorted_wrt_nth_less [OF listing_names(1) _ assms(1), of 0] assms(2) by simp
  moreover obtain e where e: "e \<in> set (matching s bucket start p)" "?N ! 1 = shown_as p delim (fst e)"
    using nth_mem [OF assms(1)] by auto
  moreover have "e \<in> set (matching s bucket (Some t) p)"
    using calculation shown_as_le [of p delim "fst e"] by (cases start) (auto simp: matching_from)
  ultimately show ?thesis by auto
qed

text \<open>
  C39. Continuing a truncated delimited listing from a common prefix repeats that prefix. In every
  bucket whose keys under the prefix fit in one scan, when a page ends with a common prefix that is no
  key itself, so that the token is this common prefix, then the page the token leads to lists it again
  as its first common prefix. With one entry per page it is the same page with the same token again: a
  client that follows the tokens never gets past it, although more entries remain.
\<close>

theorem delimiter_paging_repeats:
  fixes s bucket pfx start
  assumes "store_ok s" "range_ok pfx" "\<forall>a. start = Some a \<longrightarrow> prefix_text pfx \<le> a"
    and "length (matching s bucket None (prefix_text pfx)) \<le> SCAN_CAP"
    and page: "list_page s bucket start pfx (Some delim) max_keys = Some (Value (contents, common, True, Some t))"
    and "t \<in> set common" "get_object s bucket t = None"
  shows "(\<exists>contents' common' more next.
      list_page s bucket (Some t) pfx (Some delim) max_keys = Some (Value (contents', t # common', more, next))) \<and>
    (max_keys = 1 \<longrightarrow> list_page s bucket (Some t) pfx (Some delim) 1 = Some (Value ([], [t], True, Some t)))"
proof -
  let ?p = "prefix_text pfx"
  let ?L = "matching s bucket start ?p" and ?L' = "matching s bucket (Some t) ?p"
  let ?N = "listing_names ?p delim ?L" and ?N' = "listing_names ?p delim ?L'"
  have len: "length ?L \<le> SCAN_CAP" "length ?L' \<le> SCAN_CAP"
    using assms(4) le_trans [OF length_filter_le assms(4)] by (cases start; simp add: matching_from)+
  note lp = list_page_names [OF assms(1-3) refl len(1) refl, of delim max_keys]
  from lp [unfolded page] have n: "max_keys < length ?N" "0 < max_keys" "?N ! (max_keys - 1) = t"
    and "common = filter (\<lambda>c. \<exists>e \<in> set ?L. common_prefix ?p delim (fst e) = Some c) (take max_keys ?N)"
    by (simp_all only: option.inject run.inject prod.inject option.distinct split: if_splits) simp_all
  with assms(6) obtain e where e: "e \<in> set ?L" "common_prefix ?p delim (fst e) = Some t" by auto
  note after = names_after_prefix [OF assms(1,7) e]
  then obtain ys where ys: "?N' = t # ys" by blast
  have "prefix ?p t" using common_prefix_extends [OF e(2)] .
  then have lp': "list_page s bucket (Some t) pfx (Some delim) m = Some (Value
      (filter (\<lambda>e. common_prefix ?p delim (fst e) = None \<and> fst e \<in> set (take m (t # ys))) ?L',
       filter (\<lambda>c. \<exists>e \<in> set ?L'. common_prefix ?p delim (fst e) = Some c) (take m (t # ys)),
       m < length (t # ys), if m < length (t # ys) \<and> 0 < m then Some ((t # ys) ! (m - 1)) else None))" for m
    by (intro list_page_names [OF assms(1,2) _ refl len(2)]) (auto simp: prefix_le ys)
  have listed: "\<exists>e \<in> set ?L'. common_prefix ?p delim (fst e) = Some t" using after(1) e(2) by blast
  have "filter (\<lambda>e. common_prefix ?p delim (fst e) = None \<and> fst e \<in> {t}) ?L' = []"
    by (auto simp: matching_from filter_empty_conv)
  moreover have "ys \<noteq> []" if "max_keys = 1" using names_continue [of ?p delim s bucket start t] n that ys by auto
  moreover obtain m where "max_keys = Suc m" using n(2) by (cases max_keys) auto
  ultimately show ?thesis using lp' [of max_keys] lp' [of 1] listed by auto
qed

theorem delimiter_paging_repeats_witness:
  "list_page demo_bucket ''b'' None None (Some ''/'') 1 = Some (Value ([], [''a/''], True, Some ''a/'')) \<and>
   list_page demo_bucket ''b'' (Some ''a/'') None (Some ''/'') 1 = Some (Value ([], [''a/''], True, Some ''a/''))"
proof -
  have page: "list_page demo_bucket ''b'' None None (Some ''/'') 1 = Some (Value ([], [''a/''], True, Some ''a/''))"
    using list_page_names [OF demo_bucket_ok, of None None _ "''b''" _ "''/''" 1] 
    by (simp add: demo_bucket_matching(1) demo_names range_ok_def SCAN_CAP_def demo_common_prefix)
  moreover have "get_object demo_bucket ''b'' ''a/'' = None"
    by (simp add: get_object_def demo_bucket_def insert_object_def Let_def put_object_row_def append_fact_tx_def
        upsert_newer_def store_new_def)
  ultimately show ?thesis
    using delimiter_paging_repeats [OF demo_bucket_ok _ _ _ page]
    by (simp add: range_ok_def demo_bucket_matching(1) SCAN_CAP_def)
qed

text \<open>
  A start key below the prefix lets keys outside the prefix through: with the prefix \<open>b\<close> and the
  start key \<open>a\<close>, the page contains \<open>a/1\<close>, which does not start with \<open>b\<close>.
\<close>

theorem start_below_prefix_leaks:
  "list_objects demo_bucket ''b'' (Some ''a'') (Some ''b'') 10 =
     Value ([(''a/1'', 1, ''e''), (''b'', 1, ''e'')], False) \<and> \<not> prefix ''b'' ''a/1''"
proof -
  have "prefix_key_range ''b'' = Value (''b'', Some ''c'')" by code_simp
  then show ?thesis
    by (simp add: list_objects_def demo_bucket_def insert_object_def Let_def put_object_row_def append_fact_tx_def
        upsert_newer_def store_new_def char_less_byte)
qed

end
