(* ===== verification/S3_Objects.thy ===== *)
theory S3_Objects
  imports Replication Ranges Listing
begin

text \<open>
  The S3 request handlers on objects, \<^verbatim>\<open>impl S3 for StorageBackend\<close> of \<^verbatim>\<open>src/src/storage.rs\<close>:
  authorization, the write path with its streaming loop, reads whole and ranged, deletes, copies,
  heads and listings. A request carries the access key the signature was checked with, if any. A
  body is the sequence of its frames, each received or failed. The fields of an answer that the
  handlers fill with the current time are left out, and error messages are their error codes.
\<close>

section \<open>Answers\<close>

datatype S3ErrorCode =
    AccessDenied | InternalError | ServiceUnavailable | InvalidRequest | NoSuchKey | InvalidRange
  | SlowDown | NoSuchUpload | NotImplemented | InvalidArgument | InvalidAccessKeyId

text \<open>A handler answers, fails with an error code, panics, or never returns.\<close>

datatype 'a reply = Reply 'a | Failed S3ErrorCode | Panicked | Hangs

section \<open>Authorization and the disk guard\<close>

definition get_secret_key :: "Crates \<Rightarrow> Store \<Rightarrow> string \<Rightarrow> string reply" where
  "get_secret_key C s access_key =
     (case get_user C s access_key of
        Ok (Some (secret, p)) \<Rightarrow> Reply secret
      | Ok None \<Rightarrow> Failed InvalidAccessKeyId
      | Err \<Rightarrow> Failed InternalError)"

definition authorize ::
    "Crates \<Rightarrow> Store \<Rightarrow> string option \<Rightarrow> string \<Rightarrow> string option \<Rightarrow> string option \<Rightarrow> S3ErrorCode option" where
  "authorize C s credentials action bucket key =
     (case credentials of
        None \<Rightarrow> Some AccessDenied
      | Some access_key \<Rightarrow>
          (case get_user C s access_key of
             Err \<Rightarrow> Some InternalError
           | Ok None \<Rightarrow> Some AccessDenied
           | Ok (Some (secret, policy)) \<Rightarrow>
               if is_allowed policy action (resource_arn bucket key) then None else Some AccessDenied))"

definition check_writable :: "DiskGuard \<Rightarrow> S3ErrorCode option" where
  "check_writable g = (case guard_check g of Some trip \<Rightarrow> Some ServiceUnavailable | None \<Rightarrow> None)"

section \<open>Receiving a body\<close>

record Upload =
  up_buffer :: bytes
  up_hashes :: "hash list"
  up_size :: int
  up_md5_input :: bytes

definition upload_new :: Upload where
  "upload_new = \<lparr>up_buffer = [], up_hashes = [], up_size = 0, up_md5_input = []\<rparr>"

fun store_blocks :: "'b Env \<Rightarrow> bytes list \<Rightarrow> Upload \<Rightarrow> 'b Site \<Rightarrow> Upload reply \<times> 'b Site" where
  "store_blocks E [] u \<sigma> = (Reply u, \<sigma>)"
| "store_blocks E (d # ds) u \<sigma> =
     (let len = int (length d); r = store_block E d len \<sigma>
      in case fst r of
           Err \<Rightarrow> (Failed InternalError, snd r)
         | Ok h \<Rightarrow> store_blocks E ds (u\<lparr>up_size := wrap_i64 (up_size u + len), up_hashes := up_hashes u @ [h]\<rparr>) (snd r))"

definition finish_body :: "'b Env \<Rightarrow> Upload \<Rightarrow> 'b Site \<Rightarrow> Upload reply \<times> 'b Site" where
  "finish_body E u \<sigma> =
     (case chunk_finalize (up_buffer u) of
        (None, rest) \<Rightarrow> (Reply (u\<lparr>up_buffer := rest\<rparr>), \<sigma>)
      | (Some d, rest) \<Rightarrow> store_blocks E [d] (u\<lparr>up_buffer := rest\<rparr>) \<sigma>)"

definition take_frame :: "'b Env \<Rightarrow> ChunkingConfig \<Rightarrow> bytes \<Rightarrow> Upload \<Rightarrow> 'b Site \<Rightarrow> Upload reply \<times> 'b Site" where
  "take_frame E cfg frame u \<sigma> =
     (let u1 = u\<lparr>up_md5_input := up_md5_input u @ frame\<rparr>
      in case chunk_process (fastcdc_first (crates E)) cfg (up_buffer u @ frame) of
           None \<Rightarrow> (Hangs, \<sigma>)
         | Some Panic \<Rightarrow> (Panicked, \<sigma>)
         | Some (Value (ds, rest)) \<Rightarrow> store_blocks E ds (u1\<lparr>up_buffer := rest\<rparr>) \<sigma>)"

fun receive_body ::
    "'b Env \<Rightarrow> ChunkingConfig \<Rightarrow> bytes result list \<Rightarrow> Upload \<Rightarrow> 'b Site \<Rightarrow> Upload reply \<times> 'b Site" where
  "receive_body E cfg [] u \<sigma> = finish_body E u \<sigma>"
| "receive_body E cfg (Err # frames) u \<sigma> = (Failed InternalError, \<sigma>)"
| "receive_body E cfg (Ok frame # frames) u \<sigma> =
     (let r = take_frame E cfg frame u \<sigma>
      in case fst r of
           Reply u' \<Rightarrow> receive_body E cfg frames u' (snd r)
         | Failed e \<Rightarrow> (Failed e, snd r)
         | Panicked \<Rightarrow> (Panicked, snd r)
         | Hangs \<Rightarrow> (Hangs, snd r))"

definition quoted :: "string \<Rightarrow> string" where
  "quoted etag = CHR 0x22 # etag @ [CHR 0x22]"

section \<open>Writing objects\<close>

definition s3_put_object ::
    "'b Env \<Rightarrow> ChunkingConfig \<Rightarrow> string option \<Rightarrow> string \<Rightarrow> string \<Rightarrow> bytes result list option \<Rightarrow>
     'b Site \<Rightarrow> string reply \<times> 'b Site" where
  "s3_put_object E cfg cred bucket key body \<sigma> =
     (case authorize (crates E) (st \<sigma>) cred ''s3:PutObject'' (Some bucket) (Some key) of
        Some e \<Rightarrow> (Failed e, \<sigma>)
      | None \<Rightarrow>
     (case check_writable (disk_guard \<sigma>) of
        Some e \<Rightarrow> (Failed e, \<sigma>)
      | None \<Rightarrow>
     (case body of
        None \<Rightarrow> (Failed InvalidRequest, \<sigma>)
      | Some frames \<Rightarrow>
          (let shard_id = compute_shard_id (blake3 (crates E)) key;
               r = receive_body E cfg frames upload_new \<sigma>
           in case fst r of
                Reply u \<Rightarrow>
                  (let etag = hex_encode (crates E) (md5 (crates E) (up_md5_input u)); \<sigma>1 = snd r
                   in (Reply (quoted etag),
                       ticked (\<sigma>1\<lparr>st := insert_object (crates E) (sys_now E \<sigma>1) bucket shard_id key
                                          (up_hashes u) (up_size u) etag (st \<sigma>1)\<rparr>)))
              | Failed e \<Rightarrow> (Failed e, snd r)
              | Panicked \<Rightarrow> (Panicked, snd r)
              | Hangs \<Rightarrow> (Hangs, snd r)))))"

definition s3_delete_object ::
    "'b Env \<Rightarrow> string option \<Rightarrow> string \<Rightarrow> string \<Rightarrow> 'b Site \<Rightarrow> unit reply \<times> 'b Site" where
  "s3_delete_object E cred bucket key \<sigma> =
     (case authorize (crates E) (st \<sigma>) cred ''s3:DeleteObject'' (Some bucket) (Some key) of
        Some e \<Rightarrow> (Failed e, \<sigma>)
      | None \<Rightarrow> (Reply (), ticked (\<sigma>\<lparr>st := delete_object (crates E) (sys_now E \<sigma>) bucket key (st \<sigma>)\<rparr>)))"

definition s3_delete_objects ::
    "'b Env \<Rightarrow> string option \<Rightarrow> string \<Rightarrow> string list \<Rightarrow> 'b Site \<Rightarrow> string list reply \<times> 'b Site" where
  "s3_delete_objects E cred bucket keys \<sigma> =
     (case authorize (crates E) (st \<sigma>) cred ''s3:DeleteObject'' (Some bucket) None of
        Some e \<Rightarrow> (Failed e, \<sigma>)
      | None \<Rightarrow>
          (Reply keys,
           fold (\<lambda>key \<sigma>. ticked (\<sigma>\<lparr>st := delete_object (crates E) (sys_now E \<sigma>) bucket key (st \<sigma>)\<rparr>)) keys \<sigma>))"

datatype CopySource = CopyBucket (src_bucket: string) (src_key: string) | CopyAccessPoint

definition s3_copy_object ::
    "'b Env \<Rightarrow> string option \<Rightarrow> CopySource \<Rightarrow> string \<Rightarrow> string \<Rightarrow> 'b Site \<Rightarrow> string reply \<times> 'b Site" where
  "s3_copy_object E cred source bucket key \<sigma> =
     (case authorize (crates E) (st \<sigma>) cred ''s3:PutObject'' (Some bucket) (Some key) of
        Some e \<Rightarrow> (Failed e, \<sigma>)
      | None \<Rightarrow>
     (case source of
        CopyAccessPoint \<Rightarrow> (Failed NotImplemented, \<sigma>)
      | CopyBucket sb sk \<Rightarrow>
     (case get_object (st \<sigma>) sb sk of
        None \<Rightarrow> (Failed NoSuchKey, \<sigma>)
      | Some (bs, sz, etag) \<Rightarrow>
          (Reply (quoted etag),
           ticked (\<sigma>\<lparr>st := insert_object (crates E) (sys_now E \<sigma>) bucket
                              (compute_shard_id (blake3 (crates E)) key) key bs sz etag (st \<sigma>)\<rparr>)))))"

section \<open>Reading objects\<close>

record GetOutput =
  out_body :: "bytes result list"
  out_length :: int
  out_range :: "(int \<times> int \<times> int) option"
  out_etag :: string

text \<open>The rest of the body streams block by block and ends at the first block that fails.\<close>

fun stream_blocks :: "'b Env \<Rightarrow> (hash \<times> int \<times> int option) list \<Rightarrow> 'b Site \<Rightarrow> bytes result list \<times> 'b Site" where
  "stream_blocks E [] \<sigma> = ([], \<sigma>)"
| "stream_blocks E ((h, skip, tk) # plan) \<sigma> =
     (let r = get_block E h \<sigma>
      in case fst r of
           Err \<Rightarrow> ([Err], snd r)
         | Ok data \<Rightarrow>
             (let q = stream_blocks E plan (snd r) in (Ok (slice_block_bytes data skip tk) # fst q, snd q)))"

definition read_plan ::
    "Store \<Rightarrow> hash list \<Rightarrow> int \<Rightarrow> Range option \<Rightarrow>
     ((hash \<times> int \<times> int option) list \<times> int \<times> (int \<times> int \<times> int) option) option" where
  "read_plan s bs sz rng =
     (case rng of
        None \<Rightarrow> Some (map (\<lambda>h. (h, 0, None)) bs, sz, None)
      | Some r \<Rightarrow>
          (case resolve_range r (wrap_u64 sz) of
             None \<Rightarrow> None
           | Some (a, b) \<Rightarrow>
               Some (map (\<lambda>(i, skip, n). (bs ! i, skip, Some n)) (slice_blocks_for_range (block_sizes s bs) a b),
                     wrap_i64 (b - a + 1), Some (a, b, sz))))"

definition s3_get_object ::
    "'b Env \<Rightarrow> string option \<Rightarrow> string \<Rightarrow> string \<Rightarrow> Range option \<Rightarrow> 'b Site \<Rightarrow> GetOutput reply \<times> 'b Site" where
  "s3_get_object E cred bucket key rng \<sigma> =
     (case authorize (crates E) (st \<sigma>) cred ''s3:GetObject'' (Some bucket) (Some key) of
        Some e \<Rightarrow> (Failed e, \<sigma>)
      | None \<Rightarrow>
     (case get_object (st \<sigma>) bucket key of
        None \<Rightarrow> (Failed NoSuchKey, \<sigma>)
      | Some (bs, sz, etag) \<Rightarrow>
     (case read_plan (st \<sigma>) bs sz rng of
        None \<Rightarrow> (Failed InvalidRange, \<sigma>)
      | Some (plan, len, crange) \<Rightarrow>
     (let out = (\<lambda>body. \<lparr>out_body = body, out_length = len, out_range = crange, out_etag = quoted etag\<rparr>)
      in case plan of
           [] \<Rightarrow> (Reply (out []), \<sigma>)
         | (h, skip, tk) # rest \<Rightarrow>
             (let r = get_block E h \<sigma>
              in case fst r of
                   Err \<Rightarrow> (Failed SlowDown, snd r)
                 | Ok data \<Rightarrow>
                     (let q = stream_blocks E rest (snd r)
                      in (Reply (out (Ok (slice_block_bytes data skip tk) # fst q)), snd q)))))))"

definition s3_head_object ::
    "Crates \<Rightarrow> Store \<Rightarrow> string option \<Rightarrow> string \<Rightarrow> string \<Rightarrow> (int \<times> string) reply" where
  "s3_head_object C s cred bucket key =
     (case authorize C s cred ''s3:HeadObject'' (Some bucket) (Some key) of
        Some e \<Rightarrow> Failed e
      | None \<Rightarrow>
          (case get_object s bucket key of
             None \<Rightarrow> Failed NoSuchKey
           | Some (bs, sz, etag) \<Rightarrow> Reply (sz, quoted etag)))"

section \<open>Buckets and listings\<close>

definition s3_list_buckets :: "Crates \<Rightarrow> Store \<Rightarrow> string option \<Rightarrow> (string \<times> int) list reply" where
  "s3_list_buckets C s cred =
     (case authorize C s cred ''s3:ListAllMyBuckets'' None None of
        Some e \<Rightarrow> Failed e
      | None \<Rightarrow> Reply (map (\<lambda>(name, created). (name, max created 0)) (list_buckets s)))"

definition s3_create_bucket :: "Crates \<Rightarrow> Store \<Rightarrow> string option \<Rightarrow> string \<Rightarrow> unit reply" where
  "s3_create_bucket C s cred bucket =
     (case authorize C s cred ''s3:CreateBucket'' (Some bucket) None of Some e \<Rightarrow> Failed e | None \<Rightarrow> Reply ())"

definition s3_delete_bucket :: "Crates \<Rightarrow> Store \<Rightarrow> string option \<Rightarrow> string \<Rightarrow> unit reply" where
  "s3_delete_bucket C s cred bucket =
     (case authorize C s cred ''s3:DeleteBucket'' (Some bucket) None of Some e \<Rightarrow> Failed e | None \<Rightarrow> Reply ())"

definition s3_head_bucket :: "Crates \<Rightarrow> Store \<Rightarrow> string option \<Rightarrow> string \<Rightarrow> unit reply" where
  "s3_head_bucket C s cred bucket =
     (case authorize C s cred ''s3:ListBucket'' (Some bucket) None of Some e \<Rightarrow> Failed e | None \<Rightarrow> Reply ())"

record ListOutput =
  lst_contents :: "(string \<times> int \<times> string) list"
  lst_common :: "string list"
  lst_truncated :: bool
  lst_next :: "string option"
  lst_key_count :: nat
  lst_max_keys :: nat

definition page_limit :: "int option \<Rightarrow> nat" where
  "page_limit max_keys = nat (max (case max_keys of None \<Rightarrow> 1000 | Some n \<Rightarrow> n) 1)"

definition list_reply ::
    "Store \<Rightarrow> string \<Rightarrow> string option \<Rightarrow> string option \<Rightarrow> string option \<Rightarrow> int option \<Rightarrow> ListOutput reply" where
  "list_reply s bucket start pfx delimiter max_keys =
     (case list_page s bucket start pfx delimiter (page_limit max_keys) of
        None \<Rightarrow> Hangs
      | Some Panic \<Rightarrow> Panicked
      | Some (Value (kept, common, is_truncated, next_token)) \<Rightarrow>
          Reply \<lparr>lst_contents = map (\<lambda>(k, sz, etag). (k, sz, quoted etag)) kept, lst_common = common,
                 lst_truncated = is_truncated, lst_next = next_token,
                 lst_key_count = length kept + length common, lst_max_keys = page_limit max_keys\<rparr>)"

definition s3_list_objects_v2 ::
    "Crates \<Rightarrow> Store \<Rightarrow> string option \<Rightarrow> string \<Rightarrow> string option \<Rightarrow> string option \<Rightarrow> string option \<Rightarrow>
     string option \<Rightarrow> int option \<Rightarrow> ListOutput reply" where
  "s3_list_objects_v2 C s cred bucket continuation_token start_after pfx delimiter max_keys =
     (case authorize C s cred ''s3:ListBucket'' (Some bucket) None of
        Some e \<Rightarrow> Failed e
      | None \<Rightarrow>
          (let start = (case continuation_token of Some t \<Rightarrow> Some t | None \<Rightarrow> start_after)
           in list_reply s bucket start pfx delimiter max_keys))"

definition s3_list_object_versions ::
    "Crates \<Rightarrow> Store \<Rightarrow> string option \<Rightarrow> string \<Rightarrow> string option \<Rightarrow> string option \<Rightarrow> string option \<Rightarrow>
     int option \<Rightarrow> ListOutput reply" where
  "s3_list_object_versions C s cred bucket key_marker pfx delimiter max_keys =
     (case authorize C s cred ''s3:ListBucketVersions'' (Some bucket) None of
        Some e \<Rightarrow> Failed e
      | None \<Rightarrow> list_reply s bucket key_marker pfx delimiter max_keys)"

definition s3_list_objects ::
    "Crates \<Rightarrow> Store \<Rightarrow> string option \<Rightarrow> string \<Rightarrow> string option \<Rightarrow> string option \<Rightarrow> string option \<Rightarrow>
     int option \<Rightarrow> ListOutput reply" where
  "s3_list_objects C s cred bucket marker pfx delimiter max_keys =
     (case authorize C s cred ''s3:ListBucket'' (Some bucket) None of
        Some e \<Rightarrow> Failed e
      | None \<Rightarrow> list_reply s bucket marker pfx delimiter max_keys)"

section \<open>The write path\<close>

text \<open>
  Every local block of the site is backed by bytes with its hash, out of a set \<open>S\<close> of byte strings on
  which the digest has no collision.
\<close>

definition addressed ::
    "Crates \<Rightarrow> ('b \<Rightarrow> hash \<Rightarrow> fid \<Rightarrow> bytes option) \<Rightarrow> (hash \<Rightarrow> bool) \<Rightarrow> bytes set \<Rightarrow> 'b Site \<Rightarrow> bool" where
  "addressed C stored good S \<sigma> \<longleftrightarrow>
     (\<forall>h f. get_local_block_fid (st \<sigma>) h = Some f \<longrightarrow>
        good h \<and> (\<exists>d \<in> S. stored (blobs \<sigma>) h f = Some d \<and> blake3 C d = h))"

lemma store_block_store:
  "objects (st (snd (store_block E d sz \<sigma>))) = objects (st \<sigma>)"
  "users (st (snd (store_block E d sz \<sigma>))) = users (st \<sigma>)"
  "clock (st (snd (store_block E d sz \<sigma>))) = clock (st \<sigma>)"
  "parts (st (snd (store_block E d sz \<sigma>))) = parts (st \<sigma>)"
  "multipart_uploads (st (snd (store_block E d sz \<sigma>))) = multipart_uploads (st \<sigma>)"
  by (simp_all add: store_block_def Let_def split: result.split)

lemma store_blocks_store:
  "objects (st (snd (store_blocks E ds u \<sigma>))) = objects (st \<sigma>)"
  "users (st (snd (store_blocks E ds u \<sigma>))) = users (st \<sigma>)"
  "clock (st (snd (store_blocks E ds u \<sigma>))) = clock (st \<sigma>)"
  "parts (st (snd (store_blocks E ds u \<sigma>))) = parts (st \<sigma>)"
  "multipart_uploads (st (snd (store_blocks E ds u \<sigma>))) = multipart_uploads (st \<sigma>)"
  by (induction E ds u \<sigma> rule: store_blocks.induct; simp add: Let_def store_block_store split: result.split)+

lemma take_frame_store:
  "objects (st (snd (take_frame E cfg frame u \<sigma>))) = objects (st \<sigma>)"
  "users (st (snd (take_frame E cfg frame u \<sigma>))) = users (st \<sigma>)"
  "clock (st (snd (take_frame E cfg frame u \<sigma>))) = clock (st \<sigma>)"
  "parts (st (snd (take_frame E cfg frame u \<sigma>))) = parts (st \<sigma>)"
  "multipart_uploads (st (snd (take_frame E cfg frame u \<sigma>))) = multipart_uploads (st \<sigma>)"
  by (simp_all add: take_frame_def Let_def store_blocks_store split: option.split run.split prod.split)

lemma receive_body_store:
  "objects (st (snd (receive_body E cfg frames u \<sigma>))) = objects (st \<sigma>)"
  "users (st (snd (receive_body E cfg frames u \<sigma>))) = users (st \<sigma>)"
  "clock (st (snd (receive_body E cfg frames u \<sigma>))) = clock (st \<sigma>)"
  "parts (st (snd (receive_body E cfg frames u \<sigma>))) = parts (st \<sigma>)"
  "multipart_uploads (st (snd (receive_body E cfg frames u \<sigma>))) = multipart_uploads (st \<sigma>)"
  by (induction E cfg frames u \<sigma> rule: receive_body.induct;
      simp add: Let_def finish_body_def take_frame_store store_blocks_store del: store_blocks.simps
        split: reply.split option.split prod.split)+

end
