(* ===== verification/Noise.thy ===== *)
theory Noise
  imports Externals
begin

text \<open>
  The encrypted stream between sites, \<^verbatim>\<open>NoiseStream\<close> of \<^verbatim>\<open>src/src/noise_transport.rs\<close>: framing with a
  two-byte length, the three independent buffers, reads and writes as polls of an inner stream that
  may be pending, fail, or accept and deliver bytes in any portions. The cipher is the transport state
  of the snow crate, with one half per direction; here it is a record of two functions.
\<close>

section \<open>Keys and handshake frames\<close>

definition MAX_NOISE_MSG :: nat where
  "MAX_NOISE_MSG = 65535"

definition TAG_LEN :: nat where
  "TAG_LEN = 16"

definition FRAME_LEN_SIZE :: nat where
  "FRAME_LEN_SIZE = 2"

definition decode_private_key :: "(string \<Rightarrow> bytes result) \<Rightarrow> string \<Rightarrow> bytes result" where
  "decode_private_key b64_decode b64 =
     bind_result (b64_decode b64) (\<lambda>key. if length key \<noteq> 32 then Err else Ok key)"

definition derive_psk :: "Crates \<Rightarrow> string \<Rightarrow> bytes" where
  "derive_psk C cluster_secret = blake3 C (as_bytes cluster_secret)"

text \<open>Big-endian 16-bit integers.\<close>

definition u16_be :: "nat \<Rightarrow> bytes" where
  "u16_be n = [of_nat (n div 256), of_nat n]"

definition from_u16_be :: "byte \<Rightarrow> byte \<Rightarrow> nat" where
  "from_u16_be hi lo = 256 * unat hi + unat lo"

definition send_frame :: "bytes \<Rightarrow> bytes \<Rightarrow> bytes result" where
  "send_frame wire data = (if length data \<ge> 2 ^ 16 then Err else Ok (wire @ u16_be (length data) @ data))"

text \<open>Reading a frame off the wire; a wire that ends early is an error.\<close>

fun recv_frame :: "bytes \<Rightarrow> (bytes \<times> bytes) result" where
  "recv_frame (hi # lo # wire) =
     (let len = from_u16_be hi lo in if length wire < len then Err else Ok (take len wire, drop len wire))"
| "recv_frame wire = Err"

text \<open>
  The handshake \<^verbatim>\<open>Noise_XXpsk3\<close>: three messages with no payload. Building a handshake state, its messages
  and the change to transport mode are snow's. Each side is a function of the bytes it receives; it
  returns the bytes it has written, the bytes it has not read, and the two halves of the transport.
\<close>

record ('h, 't, 'u) Handshake =
  build_initiator :: "bytes \<Rightarrow> bytes \<Rightarrow> 'h result"
  build_responder :: "bytes \<Rightarrow> bytes \<Rightarrow> 'h result"
  hs_write_message :: "'h \<Rightarrow> (bytes \<times> 'h) result"
  hs_read_message :: "'h \<Rightarrow> bytes \<Rightarrow> 'h result"
  into_transport_mode :: "'h \<Rightarrow> ('t \<times> 'u) result"

definition accept :: "('h, 't, 'u) Handshake \<Rightarrow> bytes \<Rightarrow> bytes \<Rightarrow> bytes \<Rightarrow> (bytes \<times> bytes \<times> 't \<times> 'u) result" where
  "accept H private_key psk wire =
     bind_result (build_responder H private_key psk) (\<lambda>noise0.
     bind_result (recv_frame wire) (\<lambda>(msg1, wire1).
     bind_result (hs_read_message H noise0 msg1) (\<lambda>noise1.
     bind_result (hs_write_message H noise1) (\<lambda>(msg2, noise2).
     bind_result (send_frame [] msg2) (\<lambda>out.
     bind_result (recv_frame wire1) (\<lambda>(msg3, wire2).
     bind_result (hs_read_message H noise2 msg3) (\<lambda>noise3.
     bind_result (into_transport_mode H noise3) (\<lambda>(t, u). Ok (out, wire2, t, u)))))))))"

definition connect :: "('h, 't, 'u) Handshake \<Rightarrow> bytes \<Rightarrow> bytes \<Rightarrow> bytes \<Rightarrow> (bytes \<times> bytes \<times> 't \<times> 'u) result" where
  "connect H private_key psk wire =
     bind_result (build_initiator H private_key psk) (\<lambda>noise0.
     bind_result (hs_write_message H noise0) (\<lambda>(msg1, noise1).
     bind_result (send_frame [] msg1) (\<lambda>out1.
     bind_result (recv_frame wire) (\<lambda>(msg2, wire1).
     bind_result (hs_read_message H noise1 msg2) (\<lambda>noise2.
     bind_result (hs_write_message H noise2) (\<lambda>(msg3, noise3).
     bind_result (send_frame out1 msg3) (\<lambda>out.
     bind_result (into_transport_mode H noise3) (\<lambda>(t, u). Ok (out, wire1, t, u)))))))))"

section \<open>The stream\<close>

text \<open>
  \<^verbatim>\<open>Poll\<close>: pending, ready, or a panic inside the call. The inner stream is what it will answer: \<open>inner_in\<close>
  are its coming answers to \<^verbatim>\<open>poll_read\<close> (the bytes filled in, none at the end of the stream), \<open>inner_out\<close> to
  \<^verbatim>\<open>poll_write\<close> (the number of bytes taken); when the list is used up it is pending. \<open>sent\<close> are the bytes it
  has taken.
\<close>

datatype 'a poll = Pending | Ready 'a | PollPanic

record ('t, 'u) Snow =
  write_message :: "'t \<Rightarrow> bytes \<Rightarrow> (bytes \<times> 't) result"
  read_message :: "'u \<Rightarrow> bytes \<Rightarrow> (bytes \<times> 'u) result"

record ('t, 'u) NoiseStream =
  inner_in :: "bytes result poll list"
  inner_out :: "nat result poll list"
  sent :: bytes
  tx :: 't
  rx :: 'u
  read_plain :: bytes
  read_cipher :: bytes
  write_cipher :: bytes

definition from_transport :: "bytes result poll list \<Rightarrow> nat result poll list \<Rightarrow> 't \<Rightarrow> 'u \<Rightarrow> ('t, 'u) NoiseStream" where
  "from_transport ins outs t u =
     \<lparr>inner_in = ins, inner_out = outs, sent = [], tx = t, rx = u, read_plain = [], read_cipher = [], write_cipher = []\<rparr>"

section \<open>Writing\<close>

function flush_write_cipher :: "('t, 'u) NoiseStream \<Rightarrow> unit result poll \<times> ('t, 'u) NoiseStream" where
  "flush_write_cipher ns =
     (if write_cipher ns = [] then (Ready (Ok ()), ns)
      else case inner_out ns of
             [] \<Rightarrow> (Pending, ns)
           | answer # outs \<Rightarrow>
               (let ns1 = ns\<lparr>inner_out := outs\<rparr>
                in case answer of
                     Pending \<Rightarrow> (Pending, ns1)
                   | PollPanic \<Rightarrow> (PollPanic, ns1)
                   | Ready Err \<Rightarrow> (Ready Err, ns1)
                   | Ready (Ok n) \<Rightarrow>
                       if n = 0 then (Ready Err, ns1)
                       else if n > length (write_cipher ns1) then (PollPanic, ns1)
                       else flush_write_cipher (ns1\<lparr>sent := sent ns1 @ take n (write_cipher ns1),
                                                    write_cipher := drop n (write_cipher ns1)\<rparr>)))"
  by pat_completeness auto
termination
  by (relation "measure (\<lambda>ns. length (write_cipher ns))") auto

declare flush_write_cipher.simps [simp del]

function chunks :: "nat \<Rightarrow> bytes \<Rightarrow> bytes list" where
  "chunks n xs = (if xs = [] \<or> n = 0 then [] else take n xs # chunks n (drop n xs))"
  by pat_completeness auto
termination
  by (relation "measure (\<lambda>(n, xs). length xs)") auto

declare chunks.simps [simp del]

definition payload_chunks :: "bytes \<Rightarrow> bytes list" where
  "payload_chunks buf = chunks (MAX_NOISE_MSG - TAG_LEN) buf"

fun encrypt_chunks :: "('t, 'u) Snow \<Rightarrow> bytes list \<Rightarrow> ('t, 'u) NoiseStream \<Rightarrow> unit result \<times> ('t, 'u) NoiseStream" where
  "encrypt_chunks S [] ns = (Ok (), ns)"
| "encrypt_chunks S (chunk # cs) ns =
     (case write_message S (tx ns) chunk of
        Err \<Rightarrow> (Err, ns)
      | Ok (c, t) \<Rightarrow> encrypt_chunks S cs (ns\<lparr>tx := t, write_cipher := write_cipher ns @ u16_be (length c) @ c\<rparr>))"

definition poll_write :: "('t, 'u) Snow \<Rightarrow> bytes \<Rightarrow> ('t, 'u) NoiseStream \<Rightarrow> nat result poll \<times> ('t, 'u) NoiseStream" where
  "poll_write S buf ns =
     (let r = (if write_cipher ns \<noteq> [] then flush_write_cipher ns else (Ready (Ok ()), ns))
      in case fst r of
           Ready Err \<Rightarrow> (Ready Err, snd r)
         | Pending \<Rightarrow> (Pending, snd r)
         | PollPanic \<Rightarrow> (PollPanic, snd r)
         | Ready (Ok u) \<Rightarrow>
             (let e = encrypt_chunks S (payload_chunks buf) (snd r)
              in case fst e of
                   Err \<Rightarrow> (Ready Err, snd e)
                 | Ok u \<Rightarrow>
                     (let f = flush_write_cipher (snd e)
                      in case fst f of
                           Ready Err \<Rightarrow> (Ready Err, snd f)
                         | PollPanic \<Rightarrow> (PollPanic, snd f)
                         | _ \<Rightarrow> (Ready (Ok (length buf)), snd f))))"

text \<open>\<^verbatim>\<open>poll_flush\<close> and \<^verbatim>\<open>poll_shutdown\<close>: drain the buffer, then pass the call on; \<open>inner\<close> is the inner answer.\<close>

definition poll_flush :: "unit result poll \<Rightarrow> ('t, 'u) NoiseStream \<Rightarrow> unit result poll \<times> ('t, 'u) NoiseStream" where
  "poll_flush inner ns =
     (let r = flush_write_cipher ns in case fst r of Ready (Ok u) \<Rightarrow> (inner, snd r) | other \<Rightarrow> (other, snd r))"

definition poll_shutdown :: "unit result poll \<Rightarrow> ('t, 'u) NoiseStream \<Rightarrow> unit result poll \<times> ('t, 'u) NoiseStream" where
  "poll_shutdown inner ns =
     (let r = flush_write_cipher ns in case fst r of Ready (Ok u) \<Rightarrow> (inner, snd r) | other \<Rightarrow> (other, snd r))"

section \<open>Reading\<close>

definition try_decrypt_one_frame :: "('t, 'u) Snow \<Rightarrow> ('t, 'u) NoiseStream \<Rightarrow> bytes option result \<times> ('t, 'u) NoiseStream" where
  "try_decrypt_one_frame S ns =
     (if length (read_cipher ns) < FRAME_LEN_SIZE then (Ok None, ns)
      else
        (let frame_len = from_u16_be (read_cipher ns ! 0) (read_cipher ns ! 1)
         in if length (read_cipher ns) < FRAME_LEN_SIZE + frame_len then (Ok None, ns)
            else
              (let rest = drop FRAME_LEN_SIZE (read_cipher ns);
                   ns1 = ns\<lparr>read_cipher := drop frame_len rest\<rparr>
               in case read_message S (rx ns) (take frame_len rest) of
                    Err \<Rightarrow> (Err, ns1)
                  | Ok (p, u) \<Rightarrow> (Ok (Some p), ns1\<lparr>rx := u\<rparr>))))"

definition pending_bytes :: "('t, 'u) NoiseStream \<Rightarrow> nat" where
  "pending_bytes ns = length (read_cipher ns) + length (inner_in ns) +
     sum_list (map (\<lambda>a. case a of Ready (Ok bs) \<Rightarrow> length bs | _ \<Rightarrow> 0) (inner_in ns))"

lemma decrypt_shrinks:
  "fst (try_decrypt_one_frame S ns) = Ok (Some p) \<Longrightarrow>
     pending_bytes ((snd (try_decrypt_one_frame S ns))\<lparr>read_plain := q\<rparr>) < pending_bytes ns"
  by (auto simp: try_decrypt_one_frame_def pending_bytes_def FRAME_LEN_SIZE_def Let_def split: if_splits result.splits)

text \<open>One poll, handing out at most \<open>room\<close> bytes.\<close>

function poll_read :: "('t, 'u) Snow \<Rightarrow> nat \<Rightarrow> ('t, 'u) NoiseStream \<Rightarrow> bytes result poll \<times> ('t, 'u) NoiseStream" where
  "poll_read S room ns =
     (if read_plain ns \<noteq> [] then
        (let to_copy = min room (length (read_plain ns))
         in (Ready (Ok (take to_copy (read_plain ns))), ns\<lparr>read_plain := drop to_copy (read_plain ns)\<rparr>))
      else case fst (try_decrypt_one_frame S ns) of
             Err \<Rightarrow> (Ready Err, snd (try_decrypt_one_frame S ns))
           | Ok (Some p) \<Rightarrow> poll_read S room ((snd (try_decrypt_one_frame S ns))\<lparr>read_plain := p\<rparr>)
           | Ok None \<Rightarrow>
               (case inner_in ns of
                  [] \<Rightarrow> (Pending, ns)
                | Pending # ins \<Rightarrow> (Pending, ns\<lparr>inner_in := ins\<rparr>)
                | PollPanic # ins \<Rightarrow> (PollPanic, ns\<lparr>inner_in := ins\<rparr>)
                | Ready Err # ins \<Rightarrow> (Ready Err, ns\<lparr>inner_in := ins\<rparr>)
                | Ready (Ok filled) # ins \<Rightarrow>
                    if filled = [] then
                      ((if read_cipher ns = [] then Ready (Ok []) else Ready Err), ns\<lparr>inner_in := ins\<rparr>)
                    else poll_read S room (ns\<lparr>inner_in := ins, read_cipher := read_cipher ns @ filled\<rparr>)))"
  by pat_completeness auto
termination
  by (relation "measure (\<lambda>(S, room, ns). pending_bytes ns)") (auto simp: decrypt_shrinks, simp add: pending_bytes_def)

declare poll_read.simps [simp del]

section \<open>Frames\<close>

text \<open>The wire of a list of payloads, each encrypted once and in order.\<close>

fun seal :: "('t, 'u) Snow \<Rightarrow> 't \<Rightarrow> bytes list \<Rightarrow> (bytes \<times> 't) result" where
  "seal S t [] = Ok ([], t)"
| "seal S t (p # ps) =
     bind_result (write_message S t p) (\<lambda>(c, t1).
       bind_result (seal S t1 ps) (\<lambda>(w, t2). Ok (u16_be (length c) @ c @ w, t2)))"

text \<open>
  What the code relies on of snow: the halves of a session are paired for the next \<open>n\<close> messages, a message
  of at most 65519 bytes encrypts to sixteen bytes more, and the peer decrypts the messages in order.
\<close>

definition snow_ok :: "('t, 'u) Snow \<Rightarrow> (nat \<Rightarrow> 't \<Rightarrow> 'u \<Rightarrow> bool) \<Rightarrow> bool" where
  "snow_ok S paired \<longleftrightarrow>
     (\<forall>n t u p. paired (Suc n) t u \<longrightarrow> length p \<le> MAX_NOISE_MSG - TAG_LEN \<longrightarrow>
        (\<exists>c t' u'. write_message S t p = Ok (c, t') \<and> length c = length p + TAG_LEN \<and>
           read_message S u c = Ok (p, u') \<and> paired n t' u'))"

lemma snow_okD:
  assumes "snow_ok S paired" "paired (Suc n) t u" "length p \<le> MAX_NOISE_MSG - TAG_LEN"
  obtains c t' u' where "write_message S t p = Ok (c, t')" "length c = length p + TAG_LEN"
    "read_message S u c = Ok (p, u')" "paired n t' u'"
  using assms unfolding snow_ok_def by blast

lemma u16_round_trip: "n < 2 ^ 16 \<Longrightarrow> from_u16_be (of_nat (n div 256)) (of_nat n) = n"
  by (simp add: from_u16_be_def unat_of_nat)

lemma length_u16_be [simp]: "length (u16_be n) = 2"
  by (simp add: u16_be_def)

lemma recv_send_frame:
  "length data < 2 ^ 16 \<Longrightarrow> send_frame [] data = Ok w \<Longrightarrow> recv_frame (w @ rest) = Ok (data, rest)"
  by (auto simp: send_frame_def u16_be_def u16_round_trip Let_def split: if_splits)

lemma seal_append:
  "seal S t (ps @ qs) =
     bind_result (seal S t ps) (\<lambda>(w, t1). bind_result (seal S t1 qs) (\<lambda>(v, t2). Ok (w @ v, t2)))"
  by (induction ps arbitrary: t) (auto simp: bind_result_def split: result.splits)

lemma chunks_concat: "0 < n \<Longrightarrow> concat (chunks n xs) = xs"
  by (induction n xs rule: chunks.induct) (subst chunks.simps, auto)

lemma chunks_sizes: "c \<in> set (chunks n xs) \<Longrightarrow> c \<noteq> [] \<and> length c \<le> n"
proof (induction n xs rule: chunks.induct)
  case (1 n xs)
  show ?case
    using 1 by (subst (asm) chunks.simps) (auto split: if_splits)
qed

lemma payloads_bound: "\<forall>c\<in>set ps. c \<noteq> [] \<Longrightarrow> length ps \<le> length (concat ps)"
  by (induction ps) (auto simp: Suc_le_eq add_strict_increasing)

section \<open>The sending side\<close>

lemma flush_write_cipher_keeps:
  "fst (flush_write_cipher ns) = r \<Longrightarrow> snd (flush_write_cipher ns) = ns' \<Longrightarrow>
     sent ns' @ write_cipher ns' = sent ns @ write_cipher ns \<and> tx ns' = tx ns \<and> rx ns' = rx ns \<and>
     read_plain ns' = read_plain ns \<and> read_cipher ns' = read_cipher ns \<and> inner_in ns' = inner_in ns \<and>
     (r = Ready (Ok ()) \<longrightarrow> write_cipher ns' = [])"
proof (induction ns arbitrary: r ns' rule: flush_write_cipher.induct)
  case (1 ns)
  show ?case
  proof (cases "write_cipher ns = [] \<or> inner_out ns = []")
    case True
    then have "flush_write_cipher ns = ((if write_cipher ns = [] then Ready (Ok ()) else Pending), ns)"
      by (subst flush_write_cipher.simps) auto
    then show ?thesis using "1.prems" by (auto split: if_splits)
  next
    case False
    then obtain a outs where o: "inner_out ns = a # outs" and ne: "write_cipher ns \<noteq> []"
      by (meson neq_Nil_conv)
    define ns1 where "ns1 = ns\<lparr>inner_out := outs\<rparr>"
    define ns2 where "ns2 n = ns1\<lparr>sent := sent ns1 @ take n (write_cipher ns1),
      write_cipher := drop n (write_cipher ns1)\<rparr>" for n
    have u: "flush_write_cipher ns =
        (case a of Pending \<Rightarrow> (Pending, ns1) | PollPanic \<Rightarrow> (PollPanic, ns1) | Ready Err \<Rightarrow> (Ready Err, ns1)
         | Ready (Ok n) \<Rightarrow>
             if n = 0 then (Ready Err, ns1) else if n > length (write_cipher ns1) then (PollPanic, ns1)
             else flush_write_cipher (ns2 n))"
      by (subst flush_write_cipher.simps) (simp only: o ne ns1_def ns2_def Let_def list.case if_False)
    consider n where "a = Ready (Ok n)" "n \<noteq> 0" "n \<le> length (write_cipher ns)"
      "flush_write_cipher ns = flush_write_cipher (ns2 n)"
      | "snd (flush_write_cipher ns) = ns1" "fst (flush_write_cipher ns) \<noteq> Ready (Ok ())"
      using u by (cases a) (auto simp: ns1_def split: result.splits if_splits)
    then show ?thesis
    proof cases
      case (1 n)
      have "sent (ns2 n) @ write_cipher (ns2 n) = sent ns @ write_cipher ns" "tx (ns2 n) = tx ns" "rx (ns2 n) = rx ns"
        "read_plain (ns2 n) = read_plain ns" "read_cipher (ns2 n) = read_cipher ns" "inner_in (ns2 n) = inner_in ns"
        by (simp_all add: ns2_def ns1_def)
      then show ?thesis
        using "1.IH" [OF ne o ns1_def \<open>a = Ready (Ok n)\<close> refl \<open>n \<noteq> 0\<close> _ refl refl, folded ns2_def] 1(3,4) "1.prems"
        by (metis ns1_def not_le NoiseStream.select_convs(8) NoiseStream.update_convs(2) NoiseStream.surjective)
    next
      case 2
      then show ?thesis using "1.prems" by (auto simp: ns1_def)
    qed
  qed
qed

lemmas flush_keeps = flush_write_cipher_keeps [OF refl refl]

lemma encrypt_chunks_seal:
  "fst (encrypt_chunks S cs ns) = Ok () \<Longrightarrow>
     \<exists>w t. seal S (tx ns) cs = Ok (w, t) \<and>
       snd (encrypt_chunks S cs ns) = ns\<lparr>tx := t, write_cipher := write_cipher ns @ w\<rparr>"
  by (induction cs arbitrary: ns) (fastforce split: result.splits)+

lemma encrypt_chunks_reads:
  "read_plain (snd (encrypt_chunks S cs ns)) = read_plain ns"
  "read_cipher (snd (encrypt_chunks S cs ns)) = read_cipher ns"
  "rx (snd (encrypt_chunks S cs ns)) = rx ns"
  "inner_in (snd (encrypt_chunks S cs ns)) = inner_in ns"
  by (induction cs arbitrary: ns) (auto split: result.splits)

definition sealed :: "('t, 'u) Snow \<Rightarrow> 't \<Rightarrow> bytes \<Rightarrow> ('t, 'u) NoiseStream \<Rightarrow> bool" where
  "sealed S t D ns \<longleftrightarrow>
     (\<exists>ps. seal S t ps = Ok (sent ns @ write_cipher ns, tx ns) \<and> concat ps = D \<and>
        (\<forall>p\<in>set ps. p \<noteq> [] \<and> length p \<le> MAX_NOISE_MSG - TAG_LEN))"

definition reading :: "('t, 'u) NoiseStream \<Rightarrow> 'u \<times> bytes \<times> bytes \<times> bytes result poll list" where
  "reading ns = (rx ns, read_plain ns, read_cipher ns, inner_in ns)"

definition writing :: "('t, 'u) NoiseStream \<Rightarrow> 't \<times> bytes \<times> bytes \<times> nat result poll list" where
  "writing ns = (tx ns, sent ns, write_cipher ns, inner_out ns)"

lemma sealed_flush [simp]: "sealed S t D (snd (flush_write_cipher ns)) = sealed S t D ns"
  using flush_keeps [of ns] by (simp add: sealed_def)

lemma reading_flush [simp]: "reading (snd (flush_write_cipher ns)) = reading ns"
  using flush_keeps [of ns] by (simp add: reading_def)

lemma sealed_encrypt:
  assumes "sealed S t D ns" "fst (encrypt_chunks S (payload_chunks buf) ns) = Ok ()"
  shows "sealed S t (D @ buf) (snd (encrypt_chunks S (payload_chunks buf) ns))"
proof -
  define cs where "cs = payload_chunks buf"
  have "concat cs = buf" and "\<forall>p\<in>set cs. p \<noteq> [] \<and> length p \<le> MAX_NOISE_MSG - TAG_LEN"
    unfolding cs_def payload_chunks_def using chunks_sizes by (auto simp: chunks_concat MAX_NOISE_MSG_def TAG_LEN_def)
  moreover obtain ps where "seal S t ps = Ok (sent ns @ write_cipher ns, tx ns)" "concat ps = D"
    "\<forall>p\<in>set ps. p \<noteq> [] \<and> length p \<le> MAX_NOISE_MSG - TAG_LEN"
    using assms(1) unfolding sealed_def by blast
  moreover obtain w t' where "seal S (tx ns) cs = Ok (w, t')"
    "snd (encrypt_chunks S cs ns) = ns\<lparr>tx := t', write_cipher := write_cipher ns @ w\<rparr>"
    using encrypt_chunks_seal assms(2) unfolding cs_def by blast
  ultimately show ?thesis
    unfolding sealed_def cs_def [symmetric] by (intro exI [of _ "ps @ cs"]) (auto simp: seal_append)
qed

lemma poll_write_cases:
  assumes "poll_write S buf ns = (r, ns')"
  obtains (early) "ns' = ns \<or> ns' = snd (flush_write_cipher ns)" "r \<noteq> Ready (Ok n)"
  | (unsealed) ns0 where "ns0 = ns \<or> ns0 = snd (flush_write_cipher ns)" "r = Ready Err"
      "ns' = snd (encrypt_chunks S (payload_chunks buf) ns0)"
  | (taken) ns0 where "ns0 = ns \<or> ns0 = snd (flush_write_cipher ns)"
      "fst (encrypt_chunks S (payload_chunks buf) ns0) = Ok ()"
      "ns' = snd (flush_write_cipher (snd (encrypt_chunks S (payload_chunks buf) ns0)))"
      "r = Ready (Ok (length buf)) \<or> r = Ready Err \<or> r = PollPanic"
proof -
  define a where "a = (if write_cipher ns \<noteq> [] then flush_write_cipher ns else (Ready (Ok ()), ns))"
  have a: "snd a = ns \<or> snd a = snd (flush_write_cipher ns)" by (simp add: a_def)
  define e where "e = encrypt_chunks S (payload_chunks buf) (snd a)"
  define f where "f = flush_write_cipher (snd e)"
  have r: "(case fst a of
              Ready Err \<Rightarrow> (Ready Err, snd a) | Pending \<Rightarrow> (Pending, snd a) | PollPanic \<Rightarrow> (PollPanic, snd a)
            | Ready (Ok u) \<Rightarrow>
                (case fst e of
                   Err \<Rightarrow> (Ready Err, snd e)
                 | Ok u \<Rightarrow>
                     (case fst f of Ready Err \<Rightarrow> (Ready Err, snd f) | PollPanic \<Rightarrow> (PollPanic, snd f)
                      | _ \<Rightarrow> (Ready (Ok (length buf)), snd f)))) = (r, ns')"
    using assms unfolding poll_write_def Let_def a_def [symmetric] e_def [symmetric] f_def [symmetric] .
  show thesis
  proof (cases "fst a = Ready (Ok ())")
    case False
    then show thesis using r a early by (auto split: poll.splits result.splits)
  next
    case ready: True
    show thesis
    proof (cases "fst e")
      case Err
      then show thesis using r a ready unsealed [of "snd a"] by (simp add: e_def)
    next
      case (Ok u)
      then have "ns' = snd f" "r = Ready (Ok (length buf)) \<or> r = Ready Err \<or> r = PollPanic"
        using r ready by (auto split: poll.splits result.splits)
      then show thesis using a Ok taken [of "snd a"] by (simp add: e_def f_def)
    qed
  qed
qed

text \<open>A write that is pending has taken nothing; one that returns has taken all of the buffer, once.\<close>

lemma poll_write_sealed:
  assumes "sealed S t D ns" "poll_write S buf ns = (r, ns')"
  shows "r = Pending \<Longrightarrow> sealed S t D ns'"
    and "r = Ready (Ok n) \<Longrightarrow> n = length buf \<and> sealed S t (D @ buf) ns'"
proof -
  have ns0: "sealed S t D ns0" if "ns0 = ns \<or> ns0 = snd (flush_write_cipher ns)" for ns0
    using that assms(1) by auto
  show "sealed S t D ns'" if "r = Pending"
    using assms(2) by (cases rule: poll_write_cases) (use that ns0 in auto)
  show "n = length buf \<and> sealed S t (D @ buf) ns'" if "r = Ready (Ok n)"
    using assms(2) by (cases rule: poll_write_cases [where n = n]) (use that sealed_encrypt [OF ns0, of _ buf] in auto)
qed

lemma poll_write_reading:
  assumes "poll_write S buf ns = (r, ns')"
  shows "reading ns' = reading ns"
proof -
  have e: "reading (snd (encrypt_chunks S cs ns0)) = reading ns0" for cs ns0
    by (simp add: reading_def encrypt_chunks_reads)
  show ?thesis
    using assms by (cases rule: poll_write_cases) (auto simp: e)
qed

lemma poll_flush_keeps:
  "sealed S t D (snd (poll_flush a ns)) = sealed S t D ns" "reading (snd (poll_flush a ns)) = reading ns"
  by (cases "fst (flush_write_cipher ns) = Ready (Ok ())";
      auto simp: poll_flush_def Let_def split: poll.split result.split)+

section \<open>The receiving side\<close>

fun script_bytes :: "bytes result poll list \<Rightarrow> bytes" where
  "script_bytes [] = []"
| "script_bytes (a # as) = (case a of Ready (Ok bs) \<Rightarrow> bs | _ \<Rightarrow> []) @ script_bytes as"

text \<open>
  What has been handed out, what is decrypted but not handed out and what the coming frames hold make
  up the plaintext \<open>D\<close>; the bytes still buffered or coming are the start of the wire of those frames.
\<close>

definition opened :: "('t, 'u) Snow \<Rightarrow> (nat \<Rightarrow> 't \<Rightarrow> 'u \<Rightarrow> bool) \<Rightarrow> bytes \<Rightarrow> bytes \<Rightarrow> bytes \<Rightarrow> ('t, 'u) NoiseStream \<Rightarrow> bool" where
  "opened S paired missing D got ns \<longleftrightarrow>
     (\<exists>k t ps w t'. paired k t (rx ns) \<and> length ps \<le> k \<and> seal S t ps = Ok (w, t') \<and>
        (\<forall>p\<in>set ps. length p \<le> MAX_NOISE_MSG - TAG_LEN) \<and>
        read_cipher ns @ script_bytes (inner_in ns) @ missing = w \<and> got @ read_plain ns @ concat ps = D)"

lemma openedE:
  assumes "opened S paired missing D got ns"
  obtains k t ps w t' where "paired k t (rx ns)" "length ps \<le> k" "seal S t ps = Ok (w, t')"
    "\<forall>p\<in>set ps. length p \<le> MAX_NOISE_MSG - TAG_LEN"
    "read_cipher ns @ script_bytes (inner_in ns) @ missing = w" "got @ read_plain ns @ concat ps = D"
  using assms unfolding opened_def by blast

lemma split_start:
  assumes "xs @ ys = a @ b" "length a \<le> length xs"
  shows "take (length a) xs = a" "drop (length a) xs @ ys = b"
  using assms append_eq_append_conv_if [of a b xs ys] by (auto simp: min_def)

lemma try_decrypt_opened:
  assumes S: "snow_ok S paired" and o: "opened S paired missing D got ns"
  shows "try_decrypt_one_frame S ns = (Ok None, ns) \<or>
    (\<exists>p ns'. try_decrypt_one_frame S ns = (Ok (Some p), ns') \<and> read_plain ns' = read_plain ns \<and>
       writing ns' = writing ns \<and> inner_in ns' = inner_in ns \<and>
       (read_plain ns = [] \<longrightarrow> opened S paired missing D got (ns'\<lparr>read_plain := p\<rparr>)))"
proof (cases "fst (try_decrypt_one_frame S ns) = Ok None")
  case True
  then show ?thesis
    by (auto simp: try_decrypt_one_frame_def Let_def split: if_splits result.splits)
next
  case False
  obtain k t ps w t' where p: "paired k t (rx ns)" "length ps \<le> k" "seal S t ps = Ok (w, t')"
    "\<forall>p\<in>set ps. length p \<le> MAX_NOISE_MSG - TAG_LEN"
    "read_cipher ns @ script_bytes (inner_in ns) @ missing = w" "got @ read_plain ns @ concat ps = D"
    using o by (rule openedE)
  define rc where "rc = read_cipher ns"
  have two: "2 \<le> length rc" "2 + from_u16_be (rc ! 0) (rc ! 1) \<le> length rc"
    using False by (auto simp: rc_def try_decrypt_one_frame_def FRAME_LEN_SIZE_def Let_def not_less split: if_splits)
  then have "w \<noteq> []" using p(5) by (auto simp: rc_def)
  then obtain q qs where ps: "ps = q # qs" using p(3) by (cases ps) auto
  then obtain k' where k: "k = Suc k'" using p(2) by (cases k) auto
  obtain c t1 u1 where c: "write_message S t q = Ok (c, t1)" "length c = length q + TAG_LEN"
    "read_message S (rx ns) c = Ok (q, u1)" "paired k' t1 u1"
    using snow_okD [OF S] p(1,4) ps k by (metis list.set_intros(1))
  obtain v where v: "seal S t1 qs = Ok (v, t')" "w = u16_be (length c) @ c @ v"
    using p(3) c(1) by (auto simp: ps bind_result_def split: result.splits)
  have len: "length c < 2 ^ 16" using c(2) p(4) ps by (simp add: MAX_NOISE_MSG_def TAG_LEN_def)
  have h: "take 2 rc = u16_be (length c)" "drop 2 rc @ script_bytes (inner_in ns) @ missing = c @ v"
    using split_start [of rc "script_bytes (inner_in ns) @ missing" "u16_be (length c)" "c @ v"] p(5) v(2) two(1)
    by (simp_all add: rc_def)
  have "rc ! 0 = of_nat (length c div 256)" "rc ! 1 = of_nat (length c)"
    using h(1) two(1) nth_take [of 0 2 rc] nth_take [of 1 2 rc] by (simp_all add: u16_be_def)
  then have f: "from_u16_be (rc ! 0) (rc ! 1) = length c" using len by (simp add: u16_round_trip)
  have b: "take (length c) (drop 2 rc) = c"
    "drop (length c) (drop 2 rc) @ script_bytes (inner_in ns) @ missing = v"
    using split_start [OF h(2)] two f by simp_all
  define ns' where "ns' = ns\<lparr>read_cipher := drop (length c) (drop 2 rc), rx := u1\<rparr>"
  have "try_decrypt_one_frame S ns = (Ok (Some q), ns')"
    using two f b(1) c(3) by (simp add: try_decrypt_one_frame_def Let_def FRAME_LEN_SIZE_def rc_def ns'_def)
  moreover have "opened S paired missing D got (ns'\<lparr>read_plain := q\<rparr>)" if "read_plain ns = []"
    unfolding opened_def using c(4) v(1) b(2) p(2,4,6) k that
    by (intro exI [of _ k'] exI [of _ t1] exI [of _ qs] exI [of _ v] exI [of _ t']) (auto simp: ps ns'_def)
  ultimately show ?thesis by (auto simp: ns'_def writing_def)
qed

definition benign :: "bytes result poll \<Rightarrow> bool" where
  "benign a \<longleftrightarrow> a = Pending \<or> (\<exists>bs. a = Ready (Ok bs) \<and> bs \<noteq> [])"

lemma all_opened:
  assumes S: "snow_ok S paired" and o: "opened S paired [] D got ns"
    and none: "try_decrypt_one_frame S ns = (Ok None, ns)" "read_plain ns = []" "script_bytes (inner_in ns) = []"
  shows "got = D \<and> read_cipher ns = []"
proof -
  obtain k t ps w t' where p: "paired k t (rx ns)" "length ps \<le> k" "seal S t ps = Ok (w, t')"
    "\<forall>p\<in>set ps. length p \<le> MAX_NOISE_MSG - TAG_LEN"
    "read_cipher ns @ script_bytes (inner_in ns) @ [] = w" "got @ read_plain ns @ concat ps = D"
    using o by (rule openedE)
  have "ps = []"
  proof (rule ccontr)
    assume "ps \<noteq> []"
    then obtain q qs k' where ps: "ps = q # qs" "k = Suc k'" using p(2) by (cases ps; cases k) auto
    obtain c t1 u1 where c: "write_message S t q = Ok (c, t1)" "length c = length q + TAG_LEN"
      using snow_okD [OF S] p(1,4) ps by (metis list.set_intros(1))
    then have len: "length c < 2 ^ 16" using p(4) ps by (simp add: MAX_NOISE_MSG_def TAG_LEN_def)
    have "\<exists>v. w = u16_be (length c) @ c @ v"
      using p(3) c(1) by (auto simp: ps bind_result_def split: result.splits)
    then obtain v where "read_cipher ns = u16_be (length c) @ c @ v"
      using p(5) none(3) by auto
    then show False
      using none(1) len u16_round_trip [OF len]
      by (auto simp: try_decrypt_one_frame_def FRAME_LEN_SIZE_def u16_be_def Let_def split: result.splits if_splits)
  qed
  then show ?thesis using p none by simp
qed

lemma opened_cong:
  assumes "opened S paired missing D got ns" "rx ns' = rx ns"
    "read_cipher ns' @ script_bytes (inner_in ns') = read_cipher ns @ script_bytes (inner_in ns)"
    "got' @ read_plain ns' = got @ read_plain ns"
  shows "opened S paired missing D got' ns'"
  using assms unfolding opened_def append_assoc [symmetric] by simp

lemma poll_read_opened:
  assumes "snow_ok S paired" "opened S paired missing D got ns" "poll_read S room ns = (r, ns')"
  shows "writing ns' = writing ns \<and> set (inner_in ns') \<subseteq> set (inner_in ns) \<and>
    opened S paired missing D (got @ (case r of Ready (Ok bs) \<Rightarrow> bs | _ \<Rightarrow> [])) ns' \<and>
    (r = Pending \<longrightarrow> inner_in ns' = [] \<longrightarrow> missing = [] \<longrightarrow> got = D) \<and>
    (Ball (set (inner_in ns)) benign \<longrightarrow> r \<noteq> Ready Err \<and> r \<noteq> PollPanic)"
  using assms
proof (induction S room ns arbitrary: r ns' rule: poll_read.induct)
  case (1 S room ns)
  note o = 1(4) and S = 1(3) and r = 1(5)
  show ?case
  proof (cases "read_plain ns = []")
    case False
    then have "ns' = ns\<lparr>read_plain := drop (min room (length (read_plain ns))) (read_plain ns)\<rparr>"
      "r = Ready (Ok (take (min room (length (read_plain ns))) (read_plain ns)))"
      using r by (simp_all add: poll_read.simps [of S room ns] Let_def)
    then show ?thesis using opened_cong [OF o, of ns'] by (simp add: writing_def)
  next
    case plain: True
    show ?thesis
    proof (cases "try_decrypt_one_frame S ns = (Ok None, ns)")
      case False
      then obtain p ns1 where p: "try_decrypt_one_frame S ns = (Ok (Some p), ns1)" "writing ns1 = writing ns"
        "inner_in ns1 = inner_in ns" "opened S paired missing D got (ns1\<lparr>read_plain := p\<rparr>)"
        using try_decrypt_opened [OF S o] plain by auto
      have "poll_read S room (ns1\<lparr>read_plain := p\<rparr>) = (r, ns')"
        using r plain p(1) by (simp add: poll_read.simps [of S room ns])
      then show ?thesis
        using 1(2) [of "Some p" p] plain p S by (simp add: writing_def)
    next
      case none: True
      note step = r [unfolded poll_read.simps [of S room ns], simplified plain none]
      show ?thesis
      proof (cases "inner_in ns")
        case Nil
        then show ?thesis using step o all_opened [OF S _ none plain] by auto
      next
        case (Cons a ins)
        show ?thesis
        proof (cases "\<exists>bs. a = Ready (Ok bs) \<and> bs \<noteq> []")
          case True
          then obtain bs where bs: "a = Ready (Ok bs)" "bs \<noteq> []" by blast
          let ?ns = "ns\<lparr>inner_in := ins, read_cipher := read_cipher ns @ bs\<rparr>"
          have "poll_read S room ?ns = (r, ns')" "opened S paired missing D got ?ns"
            using step opened_cong [OF o, of ?ns got] by (simp_all add: Cons bs)
          then show ?thesis
            using 1(1) [of None a ins "Ok bs" bs] plain none S Cons bs by (simp add: writing_def) blast
        next
          case False
          then have n: "ns' = ns\<lparr>inner_in := ins\<rparr>" "script_bytes [a] = []" "\<not> benign a \<or> a = Pending"
            "r = Pending \<longrightarrow> a = Pending" "(case r of Ready (Ok bs) \<Rightarrow> bs | _ \<Rightarrow> []) = []" "a = Pending \<longrightarrow> r = Pending"
            using step by (auto simp: Cons benign_def split: poll.splits result.splits if_splits)
          have sb: "script_bytes (inner_in ns) = script_bytes ins" using n(2) by (simp add: Cons)
          have "opened S paired missing D got ns'" using opened_cong [OF o, of ns' got] by (simp add: n(1) sb)
          moreover have "got = D" if "inner_in ns' = []" "missing = []"
            using all_opened [OF S _ none plain] o sb that by (simp add: n(1))
          moreover have "writing ns' = writing ns" "set (inner_in ns') \<subseteq> set (inner_in ns)"
            by (auto simp: n(1) Cons writing_def)
          moreover have "a = Pending" if "Ball (set (inner_in ns)) benign" using that n(3) Cons by simp
          ultimately show ?thesis using n(6) unfolding n(5) by auto
        qed
      qed
    qed
  qed
qed


section \<open>Two connected streams\<close>

text \<open>The calls a user of a stream makes, in any order, and what they answer.\<close>

datatype noise_call = CallWrite bytes | CallFlush "unit result poll" | CallRead nat

datatype noise_answer = Wrote "nat result poll" | Flushed "unit result poll" | Got "bytes result poll"

fun noise_step :: "('t, 'u) Snow \<Rightarrow> noise_call \<Rightarrow> ('t, 'u) NoiseStream \<Rightarrow> noise_answer \<times> ('t, 'u) NoiseStream" where
  "noise_step S (CallWrite buf) ns = map_prod Wrote id (poll_write S buf ns)"
| "noise_step S (CallFlush a) ns = map_prod Flushed id (poll_flush a ns)"
| "noise_step S (CallRead room) ns = map_prod Got id (poll_read S room ns)"

fun noise_run :: "('t, 'u) Snow \<Rightarrow> noise_call list \<Rightarrow> ('t, 'u) NoiseStream \<Rightarrow> noise_answer list \<times> ('t, 'u) NoiseStream" where
  "noise_run S [] ns = ([], ns)"
| "noise_run S (c # cs) ns =
     (let (a, ns1) = noise_step S c ns; (as, ns2) = noise_run S cs ns1 in (a # as, ns2))"

text \<open>The bytes a run reported as accepted by its writes, and those its reads returned.\<close>

fun accepted :: "noise_call list \<Rightarrow> noise_answer list \<Rightarrow> bytes" where
  "accepted (CallWrite buf # cs) (Wrote (Ready (Ok n)) # as) = take n buf @ accepted cs as"
| "accepted (c # cs) (a # as) = accepted cs as"
| "accepted cs as = []"

fun delivered :: "noise_answer list \<Rightarrow> bytes" where
  "delivered (Got (Ready (Ok bs)) # as) = bs @ delivered as"
| "delivered (a # as) = delivered as"
| "delivered [] = []"

definition write_failed :: "noise_answer \<Rightarrow> bool" where
  "write_failed a \<longleftrightarrow> a = Wrote (Ready Err) \<or> a = Wrote PollPanic"

definition read_failed :: "noise_answer \<Rightarrow> bool" where
  "read_failed a \<longleftrightarrow> a = Got (Ready Err) \<or> a = Got PollPanic"

lemma accepted_Cons:
  "accepted (c # cs) (a # as) = (case (c, a) of (CallWrite buf, Wrote (Ready (Ok n))) \<Rightarrow> take n buf | _ \<Rightarrow> []) @ accepted cs as"
  by (cases "(c # cs, a # as)" rule: accepted.cases) (auto split: noise_call.split)

lemma delivered_Cons:
  "delivered (a # as) = (case a of Got (Ready (Ok bs)) \<Rightarrow> bs | _ \<Rightarrow> []) @ delivered as"
  by (cases "a # as" rule: delivered.cases) auto

lemma poll_read_writing: "writing (snd (poll_read S room ns)) = writing ns"
proof (induction S room ns rule: poll_read.induct)
  case (1 S room ns)
  have d: "writing (snd (try_decrypt_one_frame S ns)) = writing ns"
    by (simp add: try_decrypt_one_frame_def writing_def Let_def split: result.split)
  note u = poll_read.simps [of S room ns]
  show ?case
  proof (cases "read_plain ns = []")
    case False
    then show ?thesis by (simp add: u Let_def writing_def)
  next
    case plain: True
    show ?thesis
    proof (cases "fst (try_decrypt_one_frame S ns)")
      case Err
      then show ?thesis using plain d by (simp add: u)
    next
      case (Ok q)
      show ?thesis
      proof (cases q)
        case (Some p)
        then show ?thesis using 1(2) [of q p] plain Ok d by (simp add: u) (simp add: writing_def)
      next
        case None
        note ok = Ok [unfolded None]
        show ?thesis
        proof (cases "inner_in ns")
          case Nil
          then show ?thesis by (simp add: u plain ok)
        next
          case (Cons a ins)
          show ?thesis
          proof (cases "\<exists>bs. a = Ready (Ok bs) \<and> bs \<noteq> []")
            case True
            then obtain bs where bs: "a = Ready (Ok bs)" "bs \<noteq> []" by blast
            let ?ns = "ns\<lparr>inner_in := ins, read_cipher := read_cipher ns @ bs\<rparr>"
            have "poll_read S room ns = poll_read S room ?ns" by (simp add: u plain ok Cons bs)
            moreover have "writing (snd (poll_read S room ?ns)) = writing ?ns"
              using 1(1) [of None a ins "Ok bs" bs] plain ok Cons bs by simp
            ultimately show ?thesis by (simp add: writing_def)
          next
            case False
            then have "snd (poll_read S room ns) = ns\<lparr>inner_in := ins\<rparr>"
              by (cases a) (auto simp: u plain ok Cons split: result.split)
            then show ?thesis by (simp add: writing_def)
          qed
        qed
      qed
    qed
  qed
qed

lemma sealed_writing: "writing ns' = writing ns \<Longrightarrow> sealed S t D ns' = sealed S t D ns"
  by (simp add: writing_def sealed_def)

lemma opened_reading: "reading ns' = reading ns \<Longrightarrow> opened S paired m D got ns' = opened S paired m D got ns"
  by (simp add: reading_def opened_def)

lemma noise_run_sealed:
  assumes "noise_run S cs ns = (as, ns')" "sealed S t D ns" "\<forall>a\<in>set as. \<not> write_failed a"
  shows "sealed S t (D @ accepted cs as) ns'"
  using assms
proof (induction cs arbitrary: ns as D)
  case (Cons c cs)
  obtain a ns1 as1 where s: "noise_step S c ns = (a, ns1)" "noise_run S cs ns1 = (as1, ns')" "as = a # as1"
    using Cons.prems(1) by (auto split: prod.splits)
  have "sealed S t (D @ (case (c, a) of (CallWrite buf, Wrote (Ready (Ok n))) \<Rightarrow> take n buf | _ \<Rightarrow> [])) ns1"
  proof (cases c)
    case (CallWrite buf)
    then obtain r where r: "poll_write S buf ns = (r, ns1)" "a = Wrote r"
      using s(1) by (auto simp: map_prod_def split: prod.splits)
    have "\<not> write_failed (Wrote r)" using Cons.prems(3) r s(3) by simp
    then have "r = Pending \<or> (\<exists>n. r = Ready (Ok n))"
      by (cases r) (auto simp: write_failed_def split: result.splits, metis result.exhaust)
    then consider "r = Pending" | n where "r = Ready (Ok n)" by blast
    then show ?thesis
    proof cases
      case 1
      then show ?thesis using poll_write_sealed(1) [OF Cons.prems(2) r(1)] by (simp add: r(2) CallWrite)
    next
      case (2 n)
      then show ?thesis using poll_write_sealed(2) [OF Cons.prems(2) r(1)] by (simp add: r(2) CallWrite)
    qed
  next
    case (CallFlush x)
    then show ?thesis
      using s(1) Cons.prems(2) poll_flush_keeps(1) [of S t D x ns] by (cases "poll_flush x ns") simp
  next
    case (CallRead room)
    then show ?thesis
      using s(1) Cons.prems(2) poll_read_writing [of S room ns] sealed_writing [of ns1 ns S t D]
      by (cases "poll_read S room ns") simp
  qed
  from Cons.IH [OF s(2) this] show ?case
    using Cons.prems(3) unfolding s(3) accepted_Cons append_assoc by simp
qed simp

lemma noise_step_opened:
  assumes S: "snow_ok S paired" and o: "opened S paired missing D got ns" and s: "noise_step S c ns = (a, ns')"
  shows "opened S paired missing D (got @ (case a of Got (Ready (Ok bs)) \<Rightarrow> bs | _ \<Rightarrow> [])) ns'"
    and "set (inner_in ns') \<subseteq> set (inner_in ns)"
    and "Ball (set (inner_in ns)) benign \<Longrightarrow> \<not> read_failed a"
    and "a = Got Pending \<Longrightarrow> inner_in ns' = [] \<Longrightarrow> missing = [] \<Longrightarrow> got = D"
proof -
  have "opened S paired missing D (got @ (case a of Got (Ready (Ok bs)) \<Rightarrow> bs | _ \<Rightarrow> [])) ns' \<and>
    set (inner_in ns') \<subseteq> set (inner_in ns) \<and> (Ball (set (inner_in ns)) benign \<longrightarrow> \<not> read_failed a) \<and>
    (a = Got Pending \<longrightarrow> inner_in ns' = [] \<longrightarrow> missing = [] \<longrightarrow> got = D)"
  proof (cases c)
    case (CallWrite buf)
    then obtain r where r: "poll_write S buf ns = (r, ns')" "a = Wrote r"
      using s by (auto simp: map_prod_def split: prod.splits)
    then show ?thesis
      using o opened_reading [OF poll_write_reading [OF r(1)]] poll_write_reading [OF r(1)]
      by (simp add: read_failed_def reading_def)
  next
    case (CallFlush x)
    then show ?thesis
      using s o poll_flush_keeps(2) [of x ns] opened_reading [of ns' ns]
      by (cases "poll_flush x ns") (auto simp: read_failed_def reading_def)
  next
    case (CallRead room)
    then obtain r where r: "poll_read S room ns = (r, ns')" "a = Got r"
      using s by (auto simp: map_prod_def split: prod.splits)
    then show ?thesis
      using poll_read_opened [OF S o r(1)] by (simp add: read_failed_def)
  qed
  then show "opened S paired missing D (got @ (case a of Got (Ready (Ok bs)) \<Rightarrow> bs | _ \<Rightarrow> [])) ns'"
    and "set (inner_in ns') \<subseteq> set (inner_in ns)"
    and "Ball (set (inner_in ns)) benign \<Longrightarrow> \<not> read_failed a"
    and "a = Got Pending \<Longrightarrow> inner_in ns' = [] \<Longrightarrow> missing = [] \<Longrightarrow> got = D"
    by blast+
qed

lemma noise_run_opened:
  assumes "snow_ok S paired" "noise_run S cs ns = (as, ns')" "opened S paired missing D got ns"
  shows "opened S paired missing D (got @ delivered as) ns' \<and>
    (Ball (set (inner_in ns)) benign \<longrightarrow> (\<forall>a\<in>set as. \<not> read_failed a)) \<and>
    (inner_in ns' = [] \<longrightarrow> missing = [] \<longrightarrow> as \<noteq> [] \<longrightarrow> last as = Got Pending \<longrightarrow> got @ delivered as = D)"
  using assms(2,3)
proof (induction cs arbitrary: ns as got)
  case (Cons c cs)
  obtain a ns1 as1 where s: "noise_step S c ns = (a, ns1)" "noise_run S cs ns1 = (as1, ns')" "as = a # as1"
    using Cons.prems(1) by (auto split: prod.splits)
  note step = noise_step_opened [OF assms(1) Cons.prems(2) s(1)]
  note rest = Cons.IH [OF s(2) step(1)]
  have "Ball (set (inner_in ns)) benign \<Longrightarrow> Ball (set (inner_in ns1)) benign"
    using step(2) by blast
  moreover have "as1 = [] \<Longrightarrow> ns' = ns1" using s(2) by (cases cs) (auto split: prod.splits)
  ultimately show ?case
    using rest step(3,4) unfolding s(3) delivered_Cons append_assoc by (cases "as1 = []") simp_all
qed simp

lemma opened_prefix: "opened S paired missing D got ns \<Longrightarrow> prefix got D"
  unfolding opened_def by auto

lemma sealed_start: "sealed S t [] (from_transport ins outs t v)"
  unfolding sealed_def by (intro exI [of _ "[]"]) (simp add: from_transport_def)

lemma sealed_opened:
  assumes "sealed S t D ns" "paired k t u" "length D \<le> k" "script_bytes ins' @ missing = sent ns @ write_cipher ns"
  shows "opened S paired missing D [] (from_transport ins' outs' t' u)"
proof -
  obtain ps where ps: "seal S t ps = Ok (sent ns @ write_cipher ns, tx ns)" "concat ps = D"
    "\<forall>p\<in>set ps. p \<noteq> [] \<and> length p \<le> MAX_NOISE_MSG - TAG_LEN"
    using assms(1) unfolding sealed_def by blast
  then have "length ps \<le> k" using payloads_bound [of ps] assms(3) by auto
  then show ?thesis
    unfolding opened_def using ps assms(2,4)
    by (intro exI [of _ k] exI [of _ t] exI [of _ ps] exI [of _ "sent ns @ write_cipher ns"] exI [of _ "tx ns"])
      (simp add: from_transport_def)
qed

lemma flushed_empty:
  assumes "noise_run S cs ns = (as, ns')" "as \<noteq> []" "last as = Flushed (Ready (Ok ()))"
  shows "write_cipher ns' = []"
  using assms
proof (induction cs arbitrary: ns as)
  case (Cons c cs)
  obtain a ns1 as1 where s: "noise_step S c ns = (a, ns1)" "noise_run S cs ns1 = (as1, ns')" "as = a # as1"
    using Cons.prems(1) by (auto split: prod.splits)
  show ?case
  proof (cases "as1 = []")
    case False
    then show ?thesis using Cons.IH [OF s(2)] Cons.prems(3) s(3) by simp
  next
    case True
    then have "ns' = ns1" "a = Flushed (Ready (Ok ()))"
      using s Cons.prems(3) by (cases cs, auto split: prod.splits)+
    moreover have "write_cipher ns1 = []" if "poll_flush x ns = (Ready (Ok ()), ns1)" for x
      using that flush_keeps [of ns] by (auto simp: poll_flush_def Let_def split: poll.splits result.splits)
    ultimately show ?thesis using s(1) by (cases c) (auto simp: map_prod_def split: prod.splits)
  qed
qed simp

lemma poll_read_eof:
  assumes "poll_read S room ns = (Ready (Ok []), ns')" "0 < room"
  shows "read_plain ns' = [] \<and> read_cipher ns' = []"
  using assms
proof (induction S room ns rule: poll_read.induct)
  case (1 S room ns)
  note u = poll_read.simps [of S room ns]
  show ?case
  proof (cases "read_plain ns = []")
    case False
    then show ?thesis using "1.prems" by (auto simp: u Let_def min_def split: if_splits)
  next
    case plain: True
    show ?thesis
    proof (cases "fst (try_decrypt_one_frame S ns)")
      case Err
      then show ?thesis using "1.prems" plain by (simp add: u)
    next
      case (Ok q)
      show ?thesis
      proof (cases q)
        case (Some p)
        then show ?thesis using 1(2) [of q p] "1.prems" plain Ok by (simp add: u)
      next
        case None
        note ok = Ok [unfolded None]
        have same: "try_decrypt_one_frame S ns = (Ok None, ns)"
          using ok by (auto simp: try_decrypt_one_frame_def Let_def split: if_splits result.splits)
        show ?thesis
        proof (cases "\<exists>bs ins. inner_in ns = Ready (Ok bs) # ins \<and> bs \<noteq> []")
          case True
          then obtain bs ins where bs: "inner_in ns = Ready (Ok bs) # ins" "bs \<noteq> []" by blast
          have "poll_read S room ns = poll_read S room (ns\<lparr>inner_in := ins, read_cipher := read_cipher ns @ bs\<rparr>)"
            by (simp add: u plain ok bs)
          then show ?thesis
            using 1(1) [of None "Ready (Ok bs)" ins "Ok bs" bs] "1.prems" plain ok bs by simp
        next
          case False
          then show ?thesis
            using "1.prems" plain
            by (simp add: u same split: list.splits poll.splits result.splits if_splits) auto
        qed
      qed
    qed
  qed
qed

section \<open>The handshake\<close>

text \<open>
  What the code relies on of snow's handshake: two states built with the same pre-shared key exchange their
  three messages, each a Noise message of at most 65535 bytes, and end in transports that are paired
  in both directions.
\<close>

definition handshake_ok :: "('h, 't, 'u) Handshake \<Rightarrow> (nat \<Rightarrow> 't \<Rightarrow> 'u \<Rightarrow> bool) \<Rightarrow> nat \<Rightarrow> bytes \<Rightarrow> bytes \<Rightarrow> bytes \<Rightarrow> bool" where
  "handshake_ok H paired k ki kr psk \<longleftrightarrow>
     (\<exists>i0 i1 i2 i3 r0 r1 r2 r3 m1 m2 m3 ti ui tr ur.
        build_initiator H ki psk = Ok i0 \<and> build_responder H kr psk = Ok r0 \<and>
        hs_write_message H i0 = Ok (m1, i1) \<and> hs_read_message H r0 m1 = Ok r1 \<and>
        hs_write_message H r1 = Ok (m2, r2) \<and> hs_read_message H i1 m2 = Ok i2 \<and>
        hs_write_message H i2 = Ok (m3, i3) \<and> hs_read_message H r2 m3 = Ok r3 \<and>
        length m1 \<le> MAX_NOISE_MSG \<and> length m2 \<le> MAX_NOISE_MSG \<and> length m3 \<le> MAX_NOISE_MSG \<and>
        into_transport_mode H i3 = Ok (ti, ui) \<and> into_transport_mode H r3 = Ok (tr, ur) \<and>
        paired k ti ur \<and> paired k tr ui)"

lemma recv_frame_u16 [simp]:
  "length m \<le> MAX_NOISE_MSG \<Longrightarrow> recv_frame (u16_be (length m) @ m @ rest) = Ok (m, rest)"
  using recv_send_frame [of m "u16_be (length m) @ m" rest] by (simp add: send_frame_def MAX_NOISE_MSG_def)

text \<open>Over a reliable wire both sides return, with nothing of the bytes that follow the handshake consumed.\<close>

lemma handshake_completes:
  assumes "handshake_ok H paired k ki kr psk"
  shows "\<exists>out_i out_r ti ui tr ur. connect H ki psk (out_r @ x) = Ok (out_i, x, ti, ui) \<and>
    accept H kr psk (out_i @ y) = Ok (out_r, y, tr, ur) \<and> paired k ti ur \<and> paired k tr ui"
proof -
  obtain i0 i1 i2 i3 r0 r1 r2 r3 m1 m2 m3 ti ui tr ur where
    h: "build_initiator H ki psk = Ok i0" "build_responder H kr psk = Ok r0"
      "hs_write_message H i0 = Ok (m1, i1)" "hs_read_message H r0 m1 = Ok r1"
      "hs_write_message H r1 = Ok (m2, r2)" "hs_read_message H i1 m2 = Ok i2"
      "hs_write_message H i2 = Ok (m3, i3)" "hs_read_message H r2 m3 = Ok r3"
    and m: "length m1 \<le> MAX_NOISE_MSG" "length m2 \<le> MAX_NOISE_MSG" "length m3 \<le> MAX_NOISE_MSG"
    and t: "into_transport_mode H i3 = Ok (ti, ui)" "into_transport_mode H r3 = Ok (tr, ur)"
      "paired k ti ur" "paired k tr ui"
    using assms unfolding handshake_ok_def by blast
  have len: "\<not> 2 ^ 16 \<le> length m1" "\<not> 2 ^ 16 \<le> length m2" "\<not> 2 ^ 16 \<le> length m3"
    using m by (simp_all add: MAX_NOISE_MSG_def)
  show ?thesis
    using h m t len
    by (intro exI [of _ "u16_be (length m1) @ m1 @ u16_be (length m3) @ m3"] exI [of _ "u16_be (length m2) @ m2"]
          exI [of _ ti] exI [of _ ui] exI [of _ tr] exI [of _ ur])
      (simp add: connect_def accept_def send_frame_def)
qed

section \<open>Properties\<close>

text \<open>
  C9. A site that writes, flushes and reads on its stream in any order, over an inner stream that is
  pending, or takes and delivers bytes in any portions, sends each payload byte it reported as accepted
  encrypted exactly once: whatever the peer has received of the wire, however it is cut and however the
  peer interleaves its own calls, what the peer's reads have returned is a prefix of the accepted bytes,
  and no read fails unless the inner stream fails or ends.
\<close>

theorem noise_stream_integrity:
  assumes "snow_ok S paired" "paired k t u" "length (accepted cs as) \<le> k"
    and "noise_run S cs (from_transport ins outs t v) = (as, ns)" "\<forall>a\<in>set as. \<not> write_failed a"
    and "noise_run S cs' (from_transport ins' outs' t' u) = (as', ns')" "prefix (script_bytes ins') (sent ns)"
  shows "prefix (delivered as') (accepted cs as) \<and>
    (Ball (set ins') benign \<longrightarrow> (\<forall>a\<in>set as'. \<not> read_failed a))"
proof -
  obtain missing where m: "script_bytes ins' @ missing = sent ns @ write_cipher ns"
    using assms(7) by (auto simp: prefix_def)
  have "sealed S t (accepted cs as) ns" using noise_run_sealed [OF assms(4) sealed_start assms(5)] by simp
  from noise_run_opened [OF assms(1,6) sealed_opened [where paired = paired and k = k and t = t and u = u,
        OF this assms(2,3) m]]
  show ?thesis using opened_prefix by (simp add: from_transport_def) blast
qed

text \<open>
  C18. Once the writer's last flush has returned and the peer has received the whole wire, a peer that
  reads until it is told to wait has been given exactly the accepted bytes.
\<close>

theorem noise_stream_complete:
  assumes "snow_ok S paired" "paired k t u" "length (accepted cs as) \<le> k"
    and "noise_run S cs (from_transport ins outs t v) = (as, ns)" "\<forall>a\<in>set as. \<not> write_failed a"
    and "as \<noteq> []" "last as = Flushed (Ready (Ok ()))"
    and "noise_run S cs' (from_transport ins' outs' t' u) = (as', ns')" "script_bytes ins' = sent ns"
    and "inner_in ns' = []" "as' \<noteq> []" "last as' = Got Pending"
  shows "delivered as' = accepted cs as"
proof -
  have m: "script_bytes ins' @ [] = sent ns @ write_cipher ns"
    using assms(9) flushed_empty [OF assms(4,6,7)] by simp
  have "sealed S t (accepted cs as) ns" using noise_run_sealed [OF assms(4) sealed_start assms(5)] by simp
  from noise_run_opened [OF assms(1,8) sealed_opened [where paired = paired and k = k and t = t and u = u,
        OF this assms(2,3) m]]
  show ?thesis using assms(10-12) by simp
qed

text \<open>
  C26. A connection cut inside a frame is never reported as a clean end: a read with room that returns no
  bytes leaves neither undelivered plaintext nor a partial frame behind.
\<close>

theorem noise_clean_end_only_at_boundary:
  "0 < room \<Longrightarrow> poll_read S room ns = (Ready (Ok []), ns') \<Longrightarrow> read_plain ns' = [] \<and> read_cipher ns' = []"
  using poll_read_eof by blast

section \<open>A concrete cipher\<close>

text \<open>
  A toy cipher that meets what is assumed of snow: the nonce is added to each byte and repeated as the
  tag; a message with another nonce is refused.
\<close>

definition demo_snow :: "(nat, nat) Snow" where
  "demo_snow = \<lparr>
     write_message = (\<lambda>n p. Ok (map (\<lambda>b. b + of_nat n) p @ replicate 16 (of_nat n), Suc n)),
     read_message = (\<lambda>n c. if length c < 16 \<or> drop (length c - 16) c \<noteq> replicate 16 (of_nat n) then Err
                           else Ok (map (\<lambda>b. b - of_nat n) (take (length c - 16) c), Suc n))\<rparr>"

definition demo_paired :: "nat \<Rightarrow> nat \<Rightarrow> nat \<Rightarrow> bool" where
  "demo_paired n t u \<longleftrightarrow> t = u"

lemma demo_snow_ok: "snow_ok demo_snow demo_paired"
  by (simp add: snow_ok_def demo_snow_def demo_paired_def MAX_NOISE_MSG_def TAG_LEN_def comp_def)

text \<open>A writer under backpressure (the inner stream takes three bytes, then is pending) that also reads, and its peer.\<close>

definition demo_calls :: "noise_call list" where
  "demo_calls = [CallWrite [1, 2, 3], CallRead 10, CallWrite [4, 5], CallWrite [4, 5], CallFlush (Ready (Ok ()))]"

definition demo_writer :: "noise_answer list \<times> (nat, nat) NoiseStream" where
  "demo_writer = noise_run demo_snow demo_calls
     (from_transport [] [Ready (Ok 3), Pending, Ready (Ok 5), Pending, Ready (Ok 13), Pending, Ready (Ok 20)] 7 0)"

definition demo_wire :: bytes where
  "demo_wire = [0, 19, 8, 9, 10] @ replicate 16 7 @ [0, 18, 12, 13] @ replicate 16 8"

definition demo_ins :: "bytes result poll list" where
  "demo_ins = [Ready (Ok (take 4 demo_wire)), Pending, Ready (Ok (drop 4 demo_wire))]"

definition demo_reader :: "noise_answer list \<times> (nat, nat) NoiseStream" where
  "demo_reader = noise_run demo_snow [CallRead 2, CallRead 2, CallRead 2, CallRead 2, CallRead 2]
     (from_transport demo_ins [] 0 7)"

lemma payload_chunks_code [code]:
  "payload_chunks buf =
     (if buf = [] then [] else if int (length buf) \<le> 65519 then [buf] else chunks (MAX_NOISE_MSG - TAG_LEN) buf)"
  by (subst chunks.simps, subst chunks.simps) (auto simp: payload_chunks_def MAX_NOISE_MSG_def TAG_LEN_def chunks.simps)

lemma demo_writer_run:
  "fst demo_writer = [Wrote (Ready (Ok 3)), Got Pending, Wrote Pending, Wrote (Ready (Ok 2)), Flushed (Ready (Ok ()))]"
  "sent (snd demo_writer) = demo_wire"
  by code_simp+

lemma demo_reader_run:
  "fst demo_reader = [Got Pending, Got (Ready (Ok [1, 2])), Got (Ready (Ok [3])), Got (Ready (Ok [4, 5])), Got Pending]"
  "inner_in (snd demo_reader) = []"
  by code_simp+

lemma demo_script: "script_bytes demo_ins = demo_wire"
  by code_simp

lemma demo_runs:
  "noise_run demo_snow demo_calls (from_transport []
     [Ready (Ok 3), Pending, Ready (Ok 5), Pending, Ready (Ok 13), Pending, Ready (Ok 20)] 7 0) =
     (fst demo_writer, snd demo_writer)"
  "noise_run demo_snow [CallRead 2, CallRead 2, CallRead 2, CallRead 2, CallRead 2] (from_transport demo_ins [] 0 7) =
     (fst demo_reader, snd demo_reader)"
  by (simp_all add: demo_writer_def demo_reader_def)

theorem noise_stream_integrity_witness:
  "prefix (delivered (fst demo_reader)) (accepted demo_calls (fst demo_writer)) \<and>
     accepted demo_calls (fst demo_writer) = [1, 2, 3, 4, 5]"
  using noise_stream_integrity [OF demo_snow_ok _ _ demo_runs(1) _ demo_runs(2), of 5]
  by (simp add: demo_calls_def demo_script demo_writer_run demo_paired_def write_failed_def)

theorem noise_stream_complete_witness:
  "delivered (fst demo_reader) = accepted demo_calls (fst demo_writer)"
  using noise_stream_complete [OF demo_snow_ok _ _ demo_runs(1) _ _ _ demo_runs(2), of 5]
  by (simp add: demo_calls_def demo_script demo_writer_run demo_reader_run demo_paired_def write_failed_def)

theorem noise_clean_end_only_at_boundary_witness:
  "poll_read demo_snow 4 (from_transport [Ready (Ok [])] [] 0 0) = (Ready (Ok []), from_transport [] [] 0 0) \<and>
     read_cipher (from_transport [] [] (0 :: nat) (0 :: nat)) = []"
proof -
  have "poll_read demo_snow 4 (from_transport [Ready (Ok [])] [] 0 0) = (Ready (Ok []), from_transport [] [] 0 0)"
    by code_simp
  with noise_clean_end_only_at_boundary [OF _ this] show ?thesis by simp
qed

end
