(* ===== verification/Config.thy ===== *)
theory Config
  imports S3_Objects Noise
begin

text \<open>
  The configuration of a site (\<^verbatim>\<open>src/src/config.rs\<close>) and the commands of \<^verbatim>\<open>src/src/main.rs\<close> that work
  on it without the network: \<^verbatim>\<open>init\<close>, \<^verbatim>\<open>create-user\<close>, the bootstrap of the first administrator and the
  rendering of Kubernetes manifests. A machine is the text of its files and the stores behind its database
  paths. TOML text, random bytes and key pairs come from crates.
\<close>

section \<open>Configuration\<close>

record ServerConfig =
  log_format :: string
  s3_bind_addr :: string
  internal_bind_addr :: string
  advertise_addr :: string
  cluster_secret :: string
  clock_offset_ms :: int
  noise_private_key :: string

record DatabaseConfig =
  db_path :: string

datatype BlockBackend = Local string | Seaweed string string

record StorageConfig =
  cfg_location_id :: location
  backend :: BlockBackend
  cfg_min_free :: "string option"
  cfg_max :: "string option"
  chunking :: ChunkingConfig
  gc_grace_period_seconds :: int
  gc_interval_seconds :: int

record Config =
  server :: ServerConfig
  database :: DatabaseConfig
  storage :: StorageConfig

definition default_internal_bind_addr :: string where
  "default_internal_bind_addr = ''0.0.0.0:8015''"

definition default_block_backend :: BlockBackend where
  "default_block_backend = Local ''blocks''"

definition config_default :: Config where
  "config_default =
     \<lparr>server = \<lparr>log_format = ''text'', s3_bind_addr = ''0.0.0.0:8014'',
        internal_bind_addr = default_internal_bind_addr, advertise_addr = ''http://localhost:8014'',
        cluster_secret = ''default-cluster-secret'', clock_offset_ms = 0, noise_private_key = ''''\<rparr>,
      database = \<lparr>db_path = ''shardscape.db''\<rparr>,
      storage = \<lparr>cfg_location_id = ''default'', backend = default_block_backend,
        cfg_min_free = Some ''10Gi'', cfg_max = None, chunking = Fixed (10 * 1024 * 1024),
        gc_grace_period_seconds = 300, gc_interval_seconds = 60\<rparr>\<rparr>"

section \<open>A machine\<close>

record Machine =
  files_of :: "(string, string) table"
  stores_of :: "(string, Store) table"

text \<open>The crates and system calls of the commands: TOML, random bytes, key pairs, and whether a file
  or directory can be written.\<close>

record Tools =
  toml_to_string :: "Config \<Rightarrow> string result"
  toml_from_str :: "string \<Rightarrow> Config result"
  random_hex :: "nat \<Rightarrow> nat \<Rightarrow> string"
  generate_private_key :: "string result"
  create_dir_all :: "string \<Rightarrow> unit result"
  write_file :: "string \<Rightarrow> unit result"

definition toml_ok :: "Tools \<Rightarrow> bool" where
  "toml_ok T \<longleftrightarrow> (\<forall>cfg text. toml_to_string T cfg = Ok text \<longrightarrow> toml_from_str T text = Ok cfg)"

definition config_load :: "Tools \<Rightarrow> Machine \<Rightarrow> string \<Rightarrow> Config result" where
  "config_load T M path = (case map_of (files_of M) path of None \<Rightarrow> Err | Some content \<Rightarrow> toml_from_str T content)"

definition config_save :: "Tools \<Rightarrow> Config \<Rightarrow> string \<Rightarrow> Machine \<Rightarrow> Machine result" where
  "config_save T cfg path M =
     bind_result (toml_to_string T cfg) (\<lambda>content.
     bind_result (write_file T path) (\<lambda>_. Ok (M\<lparr>files_of := AList.update path content (files_of M)\<rparr>)))"

text \<open>\<^verbatim>\<open>Path::join\<close> with a relative second part.\<close>

definition path_join :: "string \<Rightarrow> string \<Rightarrow> string" where
  "path_join dir file = (if dir = '''' then file else if last dir = CHR ''/'' then dir @ file else dir @ ''/'' @ file)"

record SiteArgs =
  arg_location_id :: location
  arg_s3_addr :: string
  arg_internal_addr :: string
  arg_advertise :: string
  arg_data_dir :: string

definition build_site_config :: "Tools \<Rightarrow> SiteArgs \<Rightarrow> string \<Rightarrow> Config result" where
  "build_site_config T site secret =
     bind_result (create_dir_all T (arg_data_dir site)) (\<lambda>_.
     bind_result (generate_private_key T) (\<lambda>key.
       Ok (config_default\<lparr>
         server := (server config_default)\<lparr>s3_bind_addr := arg_s3_addr site,
           internal_bind_addr := arg_internal_addr site, advertise_addr := arg_advertise site,
           cluster_secret := secret, noise_private_key := key, clock_offset_ms := 0\<rparr>,
         database := (database config_default)\<lparr>db_path := path_join (arg_data_dir site) ''shardscape.db''\<rparr>,
         storage := (storage config_default)\<lparr>cfg_location_id := arg_location_id site,
           backend := Local (path_join (arg_data_dir site) ''blocks'')\<rparr>\<rparr>)))"

text \<open>\<^verbatim>\<open>Store::new\<close> opens the database at a path, creating it when there is none.\<close>

definition open_store :: "Machine \<Rightarrow> string \<Rightarrow> location \<Rightarrow> ClusterClock \<Rightarrow> Store" where
  "open_store M path loc clk =
     (if path = '':memory:'' then store_new loc clk
      else case map_of (stores_of M) path of
             None \<Rightarrow> store_new loc clk
           | Some s \<Rightarrow> s\<lparr>local_location_id := loc, clock := clk\<rparr>)"

definition close_store :: "string \<Rightarrow> Store \<Rightarrow> Machine \<Rightarrow> Machine" where
  "close_store path s M =
     (if path = '':memory:'' then M else M\<lparr>stores_of := AList.update path s (stores_of M)\<rparr>)"

section \<open>Commands\<close>

definition bootstrap_admin_user :: "Crates \<Rightarrow> int \<Rightarrow> string option \<Rightarrow> Store \<Rightarrow> Store result" where
  "bootstrap_admin_user C sys env_password s =
     bind_result (get_user C s ''admin'') (\<lambda>u.
       case u of
         Some _ \<Rightarrow> Ok s
       | None \<Rightarrow>
           (case env_password of
              None \<Rightarrow> Err
            | Some password \<Rightarrow> Ok (create_user C sys ''admin'' password admin_policy s)))"

text \<open>\<^verbatim>\<open>init\<close> prints the administrator's secret and the cluster secret.\<close>

definition run_init ::
    "Crates \<Rightarrow> Tools \<Rightarrow> int \<Rightarrow> string \<Rightarrow> string option \<Rightarrow> SiteArgs \<Rightarrow> Machine \<Rightarrow> (string \<times> string) result \<times> Machine" where
  "run_init C T sys path secret_arg site M =
     (if map_of (files_of M) path \<noteq> None then (Err, M)
      else
        (let secret = (case secret_arg of Some x \<Rightarrow> x | None \<Rightarrow> random_hex T 0 32);
             admin_password = random_hex T 1 24
         in case build_site_config T site secret of
              Err \<Rightarrow> (Err, M)
            | Ok cfg \<Rightarrow>
                (case config_save T cfg path M of
                   Err \<Rightarrow> (Err, M)
                 | Ok M1 \<Rightarrow>
                     (let db = open_store M1 (db_path (database cfg)) (arg_location_id site) (clock_new 0);
                          db1 = create_user C sys ''admin'' admin_password admin_policy db
                      in (Ok (admin_password, secret), close_store (db_path (database cfg)) db1 M1)))))"

definition run_create_user ::
    "Crates \<Rightarrow> Tools \<Rightarrow> int \<Rightarrow> string \<Rightarrow> string \<Rightarrow> string option \<Rightarrow> string \<Rightarrow> string option \<Rightarrow> Machine \<Rightarrow>
     string result \<times> Machine" where
  "run_create_user C T sys path access_key secret_key preset bucket M =
     (case config_load T M path of
        Err \<Rightarrow> (Err, M)
      | Ok cfg \<Rightarrow>
          (let db = open_store M (db_path (database cfg)) (cfg_location_id (storage cfg))
                      (clock_new (clock_offset_ms (server cfg)))
           in case preset_policy preset bucket of
                None \<Rightarrow> (Err, close_store (db_path (database cfg)) db M)
              | Some policy \<Rightarrow>
                  (let secret = (case secret_key of Some x \<Rightarrow> x | None \<Rightarrow> random_hex T 2 24)
                   in (Ok secret, close_store (db_path (database cfg))
                                    (create_user C sys access_key secret policy db) M))))"

section \<open>Kubernetes manifests\<close>

text \<open>The text after the last colon of an address.\<close>

definition port_of :: "string \<Rightarrow> string" where
  "port_of addr = rev (takeWhile (\<lambda>c. c \<noteq> CHR '':'') (rev addr))"

definition unlines :: "string list \<Rightarrow> string" where
  "unlines ls = concat (map (\<lambda>l. l @ [CHR 0x0A]) ls)"

definition k8s_lines :: "string \<Rightarrow> string \<Rightarrow> string \<Rightarrow> string list" where
  \<open>k8s_lines site s3_port internal_port =
     [''# Rendered by '' @ [CHR 0x60] @ ''shardscape render-k8s'' @ [CHR 0x60] @ '' for site '' @ [CHR 0x27] @ site @ [CHR 0x27] @ ''. Do not hand-edit;'',
      ''# re-render from config.toml instead.'',
      ''apiVersion: v1'',
      ''kind: Namespace'',
      ''metadata:'',
      ''  name: shardscape'',
      ''---'',
      ''apiVersion: v1'',
      ''kind: PersistentVolumeClaim'',
      ''metadata:'',
      ''  name: shardscape-data-'' @ site,
      ''  namespace: shardscape'',
      ''spec:'',
      ''  accessModes: ["ReadWriteOnce"]'',
      ''  resources:'',
      ''    requests:'',
      ''      storage: 50Gi'',
      ''---'',
      ''apiVersion: apps/v1'',
      ''kind: Deployment'',
      ''metadata:'',
      ''  name: shardscape-'' @ site,
      ''  namespace: shardscape'',
      ''spec:'',
      ''  replicas: 1'',
      ''  selector:'',
      ''    matchLabels: { app: shardscape, site: '' @ site @ '' }'',
      ''  template:'',
      ''    metadata:'',
      ''      labels: { app: shardscape, site: '' @ site @ '' }'',
      ''    spec:'',
      ''      initContainers:'',
      ''        # Idempotently initialise this site on first boot. The generated admin +'',
      ''        # cluster secrets appear in this container'' @ [CHR 0x27] @ ''s logs; capture them to add'',
      ''        # more sites ('' @ [CHR 0x60] @ ''shardscape join'' @ [CHR 0x60] @ ''). Re-runs are a no-op once config exists.'',
      ''        - name: init'',
      ''          image: shardscape:latest'',
      ''          command: ["/bin/sh", "-c"]'',
      ''          args:'',
      ''            - >-'',
      ''              test -f /data/config.toml ||'',
      ''              /usr/local/bin/shardscape init --config /data/config.toml --data-dir /data'',
      ''              --location-id '' @ site @ '' --s3-addr 0.0.0.0:'' @ s3_port,
      ''              --internal-addr 0.0.0.0:'' @ internal_port,
      ''              --advertise http://shardscape-'' @ site @ ''.shardscape.svc.cluster.local:'' @ internal_port,
      ''          volumeMounts:'',
      ''            - { name: data, mountPath: /data }'',
      ''      containers:'',
      ''        - name: shardscape'',
      ''          image: shardscape:latest'',
      ''          args: ["serve", "--config", "/data/config.toml"]'',
      ''          ports:'',
      ''            - { containerPort: '' @ s3_port @ '', name: s3 }'',
      ''            - { containerPort: '' @ internal_port @ '', name: internal }'',
      ''          volumeMounts:'',
      ''            - { name: data, mountPath: /data }'',
      ''          readinessProbe:'',
      ''            tcpSocket: { port: s3 }'',
      ''            initialDelaySeconds: 2'',
      ''      volumes:'',
      ''        - name: data'',
      ''          persistentVolumeClaim:'',
      ''            claimName: shardscape-data-'' @ site,
      ''---'',
      ''apiVersion: v1'',
      ''kind: Service'',
      ''metadata:'',
      ''  name: shardscape-'' @ site,
      ''  namespace: shardscape'',
      ''spec:'',
      ''  selector: { app: shardscape, site: '' @ site @ '' }'',
      ''  ports:'',
      ''    - { name: s3, port: '' @ s3_port @ '', targetPort: s3 }'',
      ''    - { name: internal, port: '' @ internal_port @ '', targetPort: internal }'']\<close>

definition render_k8s_manifests :: "Config \<Rightarrow> string" where
  "render_k8s_manifests config =
     unlines (k8s_lines (cfg_location_id (storage config)) (port_of (s3_bind_addr (server config)))
       (port_of (internal_bind_addr (server config))))"

text \<open>\<^verbatim>\<open>render-k8s\<close>: to standard output, or to a file of a directory.\<close>

definition run_render_k8s :: "Tools \<Rightarrow> string \<Rightarrow> string option \<Rightarrow> Machine \<Rightarrow> string result \<times> Machine" where
  "run_render_k8s T path out M =
     (case config_load T M path of
        Err \<Rightarrow> (Err, M)
      | Ok cfg \<Rightarrow>
          (case out of
             None \<Rightarrow> (Ok (render_k8s_manifests cfg), M)
           | Some dir \<Rightarrow>
               (case create_dir_all T dir of
                  Err \<Rightarrow> (Err, M)
                | Ok _ \<Rightarrow>
                    (case write_file T (path_join dir ''shardscape.yaml'') of
                       Err \<Rightarrow> (Err, M)
                     | Ok _ \<Rightarrow> (Ok [], M\<lparr>files_of :=
                         AList.update (path_join dir ''shardscape.yaml'') (render_k8s_manifests cfg) (files_of M)\<rparr>)))))"

section \<open>What the commands leave behind\<close>

lemma port_of_suffix: "CHR '':'' \<notin> set p \<Longrightarrow> port_of (h @ '':'' @ p) = p"
proof -
  assume "CHR '':'' \<notin> set p"
  then have "takeWhile (\<lambda>c. c \<noteq> CHR '':'') (rev p) = rev p" by (auto simp: takeWhile_eq_all_conv)
  then show ?thesis by (simp add: port_of_def takeWhile_tail del: takeWhile_eq_all_conv)
qed

text \<open>The manifest is a function of the site name and the two ports: it cannot contain a secret.\<close>

lemma render_no_secret:
  "render_k8s_manifests (cfg\<lparr>server := (server cfg)\<lparr>cluster_secret := x, noise_private_key := y\<rparr>, database := d\<rparr>) =
     render_k8s_manifests cfg"
  by (simp add: render_k8s_manifests_def)

lemma path_join_db: "path_join dir ''shardscape.db'' \<noteq> '':memory:''"
proof
  assume "path_join dir ''shardscape.db'' = '':memory:''"
  then have "last (path_join dir ''shardscape.db'') = CHR '':''" by simp
  then show False by (simp add: path_join_def split: if_splits)
qed

lemma open_close:
  "path \<noteq> '':memory:'' \<Longrightarrow> open_store (close_store path s M) path loc clk = s\<lparr>local_location_id := loc, clock := clk\<rparr>"
  by (simp add: open_store_def close_store_def AList.update_conv')

lemma close_store_files [simp]: "files_of (close_store path s M) = files_of M"
  by (simp add: close_store_def)

lemma get_user_opened [simp]: "get_user C (s\<lparr>local_location_id := loc, clock := clk\<rparr>) ak = get_user C s ak"
  by (simp add: get_user_def)

lemma authorize_opened [simp]:
  "authorize C (s\<lparr>local_location_id := loc, clock := clk\<rparr>) cred a b k = authorize C s cred a b k"
  by (cases cred) (simp_all add: authorize_def)

lemma secret_opened [simp]:
  "get_secret_key C (s\<lparr>local_location_id := loc, clock := clk\<rparr>) ak = get_secret_key C s ak"
  by (simp add: get_secret_key_def)

lemma created_user:
  assumes "json_ok C" "\<forall>r. map_of (users s) ak = Some r \<longrightarrow> usr_updated_at r < store_now_micros s sys"
  shows "get_secret_key C (create_user C sys ak sk p s) ak = Reply sk"
    and "authorize C (create_user C sys ak sk p s) (Some ak) a b k = None \<longleftrightarrow> is_allowed p a (resource_arn b k)"
proof -
  have "get_user C (create_user C sys ak sk p s) ak = Ok (Some (sk, p))"
    using assms
    by (cases "map_of (users s) ak")
      (auto simp: get_user_def create_user_def Let_def put_user_row_def map_of_upsert_newer)
  then show "get_secret_key C (create_user C sys ak sk p s) ak = Reply sk"
    and "authorize C (create_user C sys ak sk p s) (Some ak) a b k = None \<longleftrightarrow> is_allowed p a (resource_arn b k)"
    by (simp_all add: get_secret_key_def authorize_def)
qed

lemma admin_allowed: "is_allowed admin_policy a r"
  by (simp add: is_allowed_def admin_policy_def stmt_matches_def)

text \<open>
  C29. A site that \<^verbatim>\<open>init\<close> has set up can be served and administered: its configuration loads with the
  printed cluster secret, the store behind it knows the administrator with the printed secret, every
  request of the administrator is authorized, and running \<^verbatim>\<open>init\<close> again refuses and changes nothing.
\<close>

theorem init_bootstraps_admin:
  assumes "toml_ok T" "json_ok C"
    and "run_init C T sys path secret_arg site M = (Ok (password, secret), M')"
    and "map_of (stores_of M) (path_join (arg_data_dir site) ''shardscape.db'') = None"
  shows "\<exists>cfg. config_load T M' path = Ok cfg \<and> cluster_secret (server cfg) = secret \<and>
    get_secret_key C (open_store M' (db_path (database cfg)) loc clk) ''admin'' = Reply password \<and>
    authorize C (open_store M' (db_path (database cfg)) loc clk) (Some ''admin'') action bucket key = None \<and>
    run_init C T sys' path secret_arg' site' M' = (Err, M')"
proof -
  obtain cfg M1 where cfg: "build_site_config T site secret = Ok cfg" "config_save T cfg path M = Ok M1"
    and M': "M' = close_store (db_path (database cfg)) (create_user C sys ''admin'' password admin_policy
      (open_store M1 (db_path (database cfg)) (arg_location_id site) (clock_new 0))) M1"
    using assms(3) by (auto simp: run_init_def Let_def split: if_splits result.splits)
  have db: "db_path (database cfg) = path_join (arg_data_dir site) ''shardscape.db''"
    and sec: "cluster_secret (server cfg) = secret"
    using cfg(1) by (auto simp: build_site_config_def bind_result_def split: result.splits)
  obtain content where content: "toml_to_string T cfg = Ok content" "M1 = M\<lparr>files_of := AList.update path content (files_of M)\<rparr>"
    using cfg(2) by (auto simp: config_save_def bind_result_def split: result.splits)
  have "open_store M1 (db_path (database cfg)) l c = store_new l c" for l c
    using assms(4) by (simp add: open_store_def content(2) db path_join_db)
  then have opened: "open_store M' (db_path (database cfg)) loc clk =
      (create_user C sys ''admin'' password admin_policy (store_new (arg_location_id site) (clock_new 0)))
        \<lparr>local_location_id := loc, clock := clk\<rparr>"
    by (simp add: M' open_close db path_join_db)
  have new: "\<forall>r. map_of (users (store_new l c)) ''admin'' = Some r \<longrightarrow> usr_updated_at r < x" for l c x
    by (simp add: store_new_def)
  have "config_load T M' path = Ok cfg"
    using assms(1) content by (simp add: config_load_def M' toml_ok_def AList.update_conv')
  moreover have "run_init C T sys' path secret_arg' site' M' = (Err, M')"
    by (simp add: run_init_def M' content(2) AList.update_conv')
  ultimately show ?thesis
    using sec created_user [OF assms(2) new] by (simp add: opened admin_allowed)
qed

text \<open>
  C30. The key that \<^verbatim>\<open>create-user\<close> prints works and is limited to its preset: the secret is accepted
  for the key, the \<^verbatim>\<open>readonly\<close> and \<^verbatim>\<open>readwrite\<close> presets authorize a request on an object exactly when the action
  is one of the preset's and the object's path begins with the given bucket name, and an unknown preset
  creates no key.
\<close>

theorem created_key_scope:
  fixes loc :: location and clk :: ClusterClock
  assumes "json_ok C" "config_load T M path = Ok cfg" "db_path (database cfg) \<noteq> '':memory:''"
    and "run_create_user C T sys path ak secret_key preset scope M = (r, M')"
    and "\<And>row. map_of (users (open_store M (db_path (database cfg)) (cfg_location_id (storage cfg))
          (clock_new (clock_offset_ms (server cfg))))) ak = Some row \<Longrightarrow>
        usr_updated_at row < clock_now_micros (clock_new (clock_offset_ms (server cfg))) sys"
  defines "s \<equiv> open_store M (db_path (database cfg)) loc clk"
    and "s' \<equiv> open_store M' (db_path (database cfg)) loc clk"
  shows "(\<forall>secret. r = Ok secret \<longrightarrow> get_secret_key C s' ak = Reply secret) \<and>
    (preset = ''readonly'' \<longrightarrow> (authorize C s' (Some ak) action (Some b) (Some k) = None \<longleftrightarrow>
       action \<in> set readonly_actions \<and> (case scope of None \<Rightarrow> True | Some x \<Rightarrow> prefix x (b @ ''/'' @ k)))) \<and>
    (preset = ''readwrite'' \<longrightarrow> (authorize C s' (Some ak) action (Some b) (Some k) = None \<longleftrightarrow>
       action \<in> set readwrite_actions \<and> (case scope of None \<Rightarrow> True | Some x \<Rightarrow> prefix x (b @ ''/'' @ k)))) \<and>
    (preset \<notin> {''admin'', ''readonly'', ''readwrite''} \<longrightarrow> r = Err \<and> users s' = users s)"
proof -
  define db where "db = open_store M (db_path (database cfg)) (cfg_location_id (storage cfg))
      (clock_new (clock_offset_ms (server cfg)))"
  have older: "\<forall>row. map_of (users db) ak = Some row \<longrightarrow> usr_updated_at row < store_now_micros db sys"
    using assms(5) by (auto simp: db_def open_store_def store_now_micros_def store_new_def split: option.splits)
  have scoped: "is_allowed (readonly_policy scope) action (resource_arn (Some b) (Some k)) \<longleftrightarrow>
      action \<in> set readonly_actions \<and> (case scope of None \<Rightarrow> True | Some x \<Rightarrow> prefix x (b @ ''/'' @ k))"
    "is_allowed (readwrite_policy scope) action (resource_arn (Some b) (Some k)) \<longleftrightarrow>
      action \<in> set readwrite_actions \<and> (case scope of None \<Rightarrow> True | Some x \<Rightarrow> prefix x (b @ ''/'' @ k))"
    by (auto simp: readonly_policy_def readwrite_policy_def single_allow resource_arn_def actions_exact
        split: option.splits)
  show ?thesis
  proof (cases "preset_policy preset scope")
    case None
    then have r: "r = Err" "M' = close_store (db_path (database cfg)) db M"
      using assms(2,4) by (simp_all add: run_create_user_def Let_def db_def)
    have "users s' = users db" by (simp add: s'_def r(2) open_close [OF assms(3)])
    also have "\<dots> = users s" by (simp add: db_def s_def open_store_def store_new_def split: option.split)
    finally show ?thesis using None r(1) by (auto simp: preset_policy_def split: if_splits)
  next
    case (Some p)
    then obtain secret where "r = Ok secret"
      "M' = close_store (db_path (database cfg)) (create_user C sys ak secret p db) M"
      using assms(2,4) by (auto simp: run_create_user_def Let_def db_def)
    then show ?thesis
      using Some created_user [OF assms(1) older, of secret p] assms(3)
      by (auto simp: s'_def open_close preset_policy_def scoped split: if_splits)
  qed
qed

section \<open>A concrete machine\<close>

definition demo_args :: SiteArgs where
  "demo_args = \<lparr>arg_location_id = ''home'', arg_s3_addr = ''0.0.0.0:9000'', arg_internal_addr = ''0.0.0.0:9001'',
     arg_advertise = ''http://home:9001'', arg_data_dir = ''data''\<rparr>"

definition demo_config :: Config where
  "demo_config = config_default\<lparr>
     server := (server config_default)\<lparr>s3_bind_addr := ''0.0.0.0:9000'', internal_bind_addr := ''0.0.0.0:9001'',
       advertise_addr := ''http://home:9001'', cluster_secret := ''s'', noise_private_key := ''key''\<rparr>,
     database := (database config_default)\<lparr>db_path := ''data/shardscape.db''\<rparr>,
     storage := (storage config_default)\<lparr>cfg_location_id := ''home'', backend := Local ''data/blocks''\<rparr>\<rparr>"

text \<open>A TOML crate that knows one configuration is enough to run the commands.\<close>

definition demo_tools :: Tools where
  "demo_tools = \<lparr>toml_to_string = (\<lambda>c. if c = demo_config then Ok ''site'' else Err),
     toml_from_str = (\<lambda>t. if t = ''site'' then Ok demo_config else Err),
     random_hex = (\<lambda>i n. replicate (2 * n) CHR ''f''), generate_private_key = Ok ''key'',
     create_dir_all = (\<lambda>_. Ok ()), write_file = (\<lambda>_. Ok ())\<rparr>"

lemma demo_toml_ok: "toml_ok demo_tools"
  by (simp add: toml_ok_def demo_tools_def)

definition demo_machine :: Machine where
  "demo_machine = snd (run_init demo_crates demo_tools 5 ''config.toml'' (Some ''s'') demo_args \<lparr>files_of = [], stores_of = []\<rparr>)"

lemma demo_init:
  "run_init demo_crates demo_tools 5 ''config.toml'' (Some ''s'') demo_args \<lparr>files_of = [], stores_of = []\<rparr> =
     (Ok (replicate 48 CHR ''f'', ''s''), demo_machine)"
proof -
  have "build_site_config demo_tools demo_args ''s'' = Ok demo_config"
    by (simp add: build_site_config_def demo_tools_def demo_args_def demo_config_def path_join_def config_default_def)
  then have "fst (run_init demo_crates demo_tools 5 ''config.toml'' (Some ''s'') demo_args \<lparr>files_of = [], stores_of = []\<rparr>) =
      Ok (replicate 48 CHR ''f'', ''s'')"
    by (simp add: run_init_def config_save_def Let_def) (simp add: demo_tools_def)
  then show ?thesis by (simp add: demo_machine_def prod_eq_iff)
qed

theorem init_bootstraps_admin_witness:
  "\<exists>cfg. config_load demo_tools demo_machine ''config.toml'' = Ok cfg \<and> cluster_secret (server cfg) = ''s'' \<and>
     get_secret_key demo_crates (open_store demo_machine (db_path (database cfg)) ''home'' (clock_new 0)) ''admin'' =
       Reply (replicate 48 CHR ''f'') \<and>
     authorize demo_crates (open_store demo_machine (db_path (database cfg)) ''home'' (clock_new 0)) (Some ''admin'')
       ''s3:PutObject'' (Some ''b'') (Some ''k'') = None \<and>
     run_init demo_crates demo_tools 6 ''config.toml'' None demo_args demo_machine = (Err, demo_machine)"
  by (rule init_bootstraps_admin [OF demo_toml_ok demo_json_ok demo_init]) simp

lemma demo_load: "config_load demo_tools \<lparr>files_of = [(''config.toml'', ''site'')], stores_of = []\<rparr> ''config.toml'' = Ok demo_config"
  by (simp add: config_load_def demo_tools_def)

definition demo_create_user :: "string result \<times> Machine" where
  "demo_create_user = run_create_user demo_crates demo_tools 5 ''config.toml'' ''app'' (Some ''sk'') ''readonly'' (Some ''b'')
     \<lparr>files_of = [(''config.toml'', ''site'')], stores_of = []\<rparr>"

theorem created_key_scope_witness:
  "get_secret_key demo_crates (open_store (snd demo_create_user) ''data/shardscape.db'' ''home'' (clock_new 0)) ''app'' =
     Reply ''sk'' \<and>
   authorize demo_crates (open_store (snd demo_create_user) ''data/shardscape.db'' ''home'' (clock_new 0)) (Some ''app'')
     ''s3:GetObject'' (Some ''b'') (Some ''k'') = None \<and>
   authorize demo_crates (open_store (snd demo_create_user) ''data/shardscape.db'' ''home'' (clock_new 0)) (Some ''app'')
     ''s3:PutObject'' (Some ''b'') (Some ''k'') \<noteq> None"
proof -
  have path: "db_path (database demo_config) = ''data/shardscape.db''" by (simp add: demo_config_def)
  have run: "run_create_user demo_crates demo_tools 5 ''config.toml'' ''app'' (Some ''sk'') ''readonly'' (Some ''b'')
      \<lparr>files_of = [(''config.toml'', ''site'')], stores_of = []\<rparr> = (Ok ''sk'', snd demo_create_user)"
    by (simp add: demo_create_user_def run_create_user_def demo_load preset_policy_def Let_def)
  show ?thesis
    using created_key_scope [OF demo_json_ok demo_load _ run, of "''home''" "clock_new 0" "''s3:GetObject''" "''b''" "''k''"]
      created_key_scope [OF demo_json_ok demo_load _ run, of "''home''" "clock_new 0" "''s3:PutObject''" "''b''" "''k''"]
    by (simp add: path open_store_def store_new_def readonly_actions_def)
qed

end
