(* ===== verification/Url_Text.thy ===== *)
theory Url_Text
  imports Decimal
begin

text \<open>
  The text handling of the internal interface in \<^verbatim>\<open>src/src/main.rs\<close>: splitting a query into pairs,
  percent-decoding, the conversion of bytes to a string that replaces what is not UTF-8, and the host and
  port of a peer's URL.
\<close>

section \<open>Strings\<close>

text \<open>\<^verbatim>\<open>str::split\<close> on a character: at least one piece.\<close>

fun split_on :: "char \<Rightarrow> string \<Rightarrow> string list" where
  "split_on d [] = [[]]"
| "split_on d (c # cs) =
     (if c = d then [] # split_on d cs
      else case split_on d cs of [] \<Rightarrow> [[c]] | p # ps \<Rightarrow> (c # p) # ps)"

text \<open>\<^verbatim>\<open>str::split_once\<close> on a character.\<close>

fun split_once :: "char \<Rightarrow> string \<Rightarrow> (string \<times> string) option" where
  "split_once d [] = None"
| "split_once d (c # cs) = (if c = d then Some ([], cs) else map_option (map_prod (Cons c) id) (split_once d cs))"

text \<open>\<^verbatim>\<open>trim_start_matches\<close> with a non-empty pattern, and \<^verbatim>\<open>trim_end_matches\<close> with a character.\<close>

function trim_start_matches :: "string \<Rightarrow> string \<Rightarrow> string" where
  "trim_start_matches p s =
     (if p \<noteq> [] \<and> prefix p s then trim_start_matches p (drop (length p) s) else s)"
  by pat_completeness auto
termination
  by (relation "measure (\<lambda>(p, s). length s)") (auto simp: prefix_def)

declare trim_start_matches.simps [simp del]

definition trim_end_matches :: "char \<Rightarrow> string \<Rightarrow> string" where
  "trim_end_matches c s = rev (dropWhile (\<lambda>x. x = c) (rev s))"

text \<open>The host and port that \<^verbatim>\<open>noise_connect\<close> dials.\<close>

definition host_port :: "string \<Rightarrow> string" where
  "host_port url =
     trim_start_matches ''https://'' (trim_start_matches ''http://'' (trim_end_matches CHR ''/'' url))"

section \<open>From bytes to text\<close>

text \<open>The ranges of the bytes that must follow a first byte of a UTF-8 sequence.\<close>

definition utf8_tail :: "nat \<Rightarrow> (nat \<times> nat) list option" where
  "utf8_tail b =
     (if b < 128 then Some []
      else if 194 \<le> b \<and> b \<le> 223 then Some [(128, 191)]
      else if b = 224 then Some [(160, 191), (128, 191)]
      else if b = 237 then Some [(128, 159), (128, 191)]
      else if 225 \<le> b \<and> b \<le> 239 then Some [(128, 191), (128, 191)]
      else if b = 240 then Some [(144, 191), (128, 191), (128, 191)]
      else if 241 \<le> b \<and> b \<le> 243 then Some [(128, 191), (128, 191), (128, 191)]
      else if b = 244 then Some [(128, 143), (128, 191), (128, 191)]
      else None)"

text \<open>How many of the ranges the next bytes meet.\<close>

fun tail_match :: "(nat \<times> nat) list \<Rightarrow> string \<Rightarrow> nat" where
  "tail_match ((lo, hi) # rs) (c # cs) =
     (if lo \<le> byte_of c \<and> byte_of c \<le> hi then Suc (tail_match rs cs) else 0)"
| "tail_match rs cs = 0"

definition REPLACEMENT_CHARACTER :: string where
  "REPLACEMENT_CHARACTER = [CHR 0xEF, CHR 0xBF, CHR 0xBD]"

text \<open>\<^verbatim>\<open>String::from_utf8_lossy\<close>: each maximal start of an ill-formed sequence becomes one replacement character.\<close>

function from_utf8_lossy :: "string \<Rightarrow> string" where
  "from_utf8_lossy [] = []"
| "from_utf8_lossy (c # cs) =
     (case utf8_tail (byte_of c) of
        None \<Rightarrow> REPLACEMENT_CHARACTER @ from_utf8_lossy cs
      | Some rs \<Rightarrow>
          if tail_match rs cs = length rs then c # take (length rs) cs @ from_utf8_lossy (drop (length rs) cs)
          else REPLACEMENT_CHARACTER @ from_utf8_lossy (drop (tail_match rs cs) cs))"
  by pat_completeness auto
termination
  by (relation "measure length") auto

section \<open>Percent-decoding\<close>

definition radix16 :: "char \<Rightarrow> nat option" where
  "radix16 c =
     (let b = byte_of c
      in if 48 \<le> b \<and> b \<le> 57 then Some (b - 48)
         else if 97 \<le> b \<and> b \<le> 102 then Some (b - 87)
         else if 65 \<le> b \<and> b \<le> 70 then Some (b - 55)
         else None)"

text \<open>\<^verbatim>\<open>u8::from_str_radix\<close> with radix 16 on two bytes; a plus sign is accepted before a digit.\<close>

definition u8_from_hex :: "char \<Rightarrow> char \<Rightarrow> char option" where
  "u8_from_hex c d =
     (case (radix16 c, radix16 d) of
        (Some x, Some y) \<Rightarrow> Some (char_of (16 * x + y))
      | (None, Some y) \<Rightarrow> if c = CHR ''+'' then Some (char_of y) else None
      | _ \<Rightarrow> None)"

text \<open>
  The loop of \<^verbatim>\<open>percent_decode\<close>. Slicing the string after the two digits panics when that is inside a
  character.
\<close>

fun percent_loop :: "string \<Rightarrow> string run" where
  "percent_loop (c # d1 # d2 # cs) =
     (if c = CHR ''%'' then
        (if cs \<noteq> [] \<and> 128 \<le> byte_of (hd cs) \<and> byte_of (hd cs) < 192 then Panic
         else case u8_from_hex d1 d2 of
                Some b \<Rightarrow> bind_run (percent_loop cs) (\<lambda>out. Value (b # out))
              | None \<Rightarrow> bind_run (percent_loop (d1 # d2 # cs)) (\<lambda>out. Value (c # out)))
      else bind_run (percent_loop (d1 # d2 # cs)) (\<lambda>out. Value ((if c = CHR ''+'' then CHR '' '' else c) # out)))"
| "percent_loop (c # cs) = bind_run (percent_loop cs) (\<lambda>out. Value ((if c = CHR ''+'' then CHR '' '' else c) # out))"
| "percent_loop [] = Value []"

definition percent_decode :: "string \<Rightarrow> string run" where
  "percent_decode s = bind_run (percent_loop s) (\<lambda>out. Value (from_utf8_lossy out))"

fun query_pairs :: "string list \<Rightarrow> (string \<times> string) list run" where
  "query_pairs [] = Value []"
| "query_pairs (kv # kvs) =
     (case split_once CHR ''='' kv of
        None \<Rightarrow> query_pairs kvs
      | Some (k, v) \<Rightarrow>
          bind_run (percent_decode k) (\<lambda>k'. bind_run (percent_decode v) (\<lambda>v'.
            bind_run (query_pairs kvs) (\<lambda>ps. Value ((k', v') # ps)))))"

definition url_query_pairs :: "string \<Rightarrow> (string \<times> string) list run" where
  "url_query_pairs q = query_pairs (filter (\<lambda>s. s \<noteq> []) (split_on CHR ''&'' q))"

section \<open>Plain text passes unchanged\<close>

text \<open>Characters that neither the query syntax nor percent-decoding touches.\<close>

definition plain :: "string \<Rightarrow> bool" where
  "plain s \<longleftrightarrow> (\<forall>c \<in> set s. byte_of c < 128 \<and> c \<notin> {CHR ''%'', CHR ''+'', CHR ''&'', CHR ''=''})"

lemma plain_simps [simp]: "plain []" "plain (c # s) \<longleftrightarrow> plain [c] \<and> plain s"
  by (auto simp: plain_def)

lemma lossy_ascii: "\<forall>c \<in> set s. byte_of c < 128 \<Longrightarrow> from_utf8_lossy s = s"
  by (induction s) (simp_all add: utf8_tail_def)

lemma percent_loop_plain: "plain s \<Longrightarrow> percent_loop s = Value s"
  by (induction s rule: percent_loop.induct) (auto simp: plain_def)

lemma percent_decode_plain: "plain s \<Longrightarrow> percent_decode s = Value s"
  by (auto simp: percent_decode_def percent_loop_plain plain_def intro: lossy_ascii)

lemma split_on_none: "d \<notin> set s \<Longrightarrow> split_on d s = [s]"
  by (induction s) auto

lemma split_on_app: "d \<notin> set s \<Longrightarrow> split_on d (s @ d # r) = s # split_on d r"
  by (induction s) auto

lemma split_once_app: "d \<notin> set k \<Longrightarrow> split_once d (k @ d # v) = Some (k, v)"
  by (induction k) auto

lemma query_two_pairs:
  assumes "plain i" "plain a"
  shows "url_query_pairs (''id='' @ i @ ''&addr='' @ a) = Value [(''id'', i), (''addr'', a)]"
proof -
  have amp: "CHR ''&'' \<notin> set (''id='' @ i)" "CHR ''&'' \<notin> set (''addr='' @ a)"
    using assms by (auto simp: plain_def)
  have "split_on CHR ''&'' ((''id='' @ i) @ CHR ''&'' # ''addr='' @ a) = [''id='' @ i, ''addr='' @ a]"
    using split_on_app [OF amp(1)] split_on_none [OF amp(2)] by simp
  moreover have "split_once CHR ''='' (''id='' @ i) = Some (''id'', i)" "split_once CHR ''='' (''addr='' @ a) = Some (''addr'', a)"
    using split_once_app [of "CHR ''=''" "''id''" i] split_once_app [of "CHR ''=''" "''addr''" a] by simp_all
  ultimately show ?thesis
    using assms by (simp add: url_query_pairs_def percent_decode_plain plain_def)
qed

section \<open>Decoding undoes encoding\<close>

text \<open>The encoder of the URL standard, as a reference: unreserved characters stay, any other byte is escaped.\<close>

definition hex_upper :: "nat \<Rightarrow> char" where
  "hex_upper n = ''0123456789ABCDEF'' ! n"

definition pct_byte :: "char \<Rightarrow> string" where
  "pct_byte c =
     (let b = byte_of c
      in if (48 \<le> b \<and> b \<le> 57) \<or> (65 \<le> b \<and> b \<le> 90) \<or> (97 \<le> b \<and> b \<le> 122) \<or> c \<in> set ''-._~''
         then [c] else [CHR ''%'', hex_upper (b div 16), hex_upper (b mod 16)])"

definition pct_encode :: "string \<Rightarrow> string" where
  "pct_encode s = concat (map pct_byte s)"

lemma radix16_upper: "n < 16 \<Longrightarrow> radix16 (hex_upper n) = Some n \<and> byte_of (hex_upper n) < 128"
proof -
  have "\<forall>n \<in> set [0..<16]. radix16 (hex_upper n) = Some n \<and> byte_of (hex_upper n) < 128" by code_simp
  then show "n < 16 \<Longrightarrow> ?thesis" by simp
qed

lemma pct_byte_cases:
  obtains (same) "pct_byte c = [c]" "c \<noteq> CHR ''%''" "c \<noteq> CHR ''+''" "byte_of c < 128"
  | (escaped) "pct_byte c = [CHR ''%'', hex_upper (byte_of c div 16), hex_upper (byte_of c mod 16)]"
proof -
  have "byte_of CHR ''%'' = 37" "byte_of CHR ''+'' = 43" by code_simp+
  then have "c = CHR ''%'' \<or> c = CHR ''+'' \<or> 128 \<le> byte_of c \<Longrightarrow>
      pct_byte c = [CHR ''%'', hex_upper (byte_of c div 16), hex_upper (byte_of c mod 16)]"
    by (auto simp: pct_byte_def Let_def)
  moreover have "pct_byte c = [c] \<or> pct_byte c = [CHR ''%'', hex_upper (byte_of c div 16), hex_upper (byte_of c mod 16)]"
    by (simp add: pct_byte_def Let_def)
  ultimately show thesis using that by fastforce
qed

lemma pct_encode_hd: "pct_encode s = [] \<or> byte_of (hd (pct_encode s)) < 128"
proof (cases s)
  case (Cons c r)
  have "byte_of CHR ''%'' < 128" by code_simp
  then show ?thesis using Cons by (cases c rule: pct_byte_cases) (simp_all add: pct_encode_def)
qed (simp add: pct_encode_def)

lemma percent_loop_encode: "percent_loop (pct_encode s) = Value s"
proof (induction s)
  case (Cons c s)
  have ascii: "\<not> (pct_encode s \<noteq> [] \<and> 128 \<le> byte_of (hd (pct_encode s)) \<and> x)" for x
    using pct_encode_hd [of s] by auto
  show ?case
  proof (cases c rule: pct_byte_cases)
    case same
    then have "percent_loop (c # r) = bind_run (percent_loop r) (\<lambda>out. Value (c # out))" for r
      by (cases "c # r" rule: percent_loop.cases) auto
    then show ?thesis using same Cons by (simp add: pct_encode_def)
  next
    case escaped
    have "byte_of c div 16 < 16" "byte_of c mod 16 < 16" using byte_of_less_256 [of c] by linarith+
    then have "u8_from_hex (hex_upper (byte_of c div 16)) (hex_upper (byte_of c mod 16)) = Some c"
      by (simp add: u8_from_hex_def radix16_upper)
    then show ?thesis using escaped Cons ascii by (simp add: pct_encode_def)
  qed
qed (simp add: pct_encode_def)

lemma utf8_first:
  assumes "valid_utf8 (c # cs)"
  obtains rs where "utf8_tail (byte_of c) = Some rs" "tail_match rs cs = length rs" "valid_utf8 (drop (length rs) cs)"
  using assms
  by (cases "map byte_of (c # cs)" rule: utf8_bytes.cases)
    (auto simp: valid_utf8_def utf8_tail_def utf8_cont_def utf8_second3_def utf8_second4_def split: if_splits)

lemma lossy_valid: "valid_utf8 s \<Longrightarrow> from_utf8_lossy s = s"
proof (induction s rule: from_utf8_lossy.induct)
  case (2 c cs)
  obtain rs where rs: "utf8_tail (byte_of c) = Some rs" "tail_match rs cs = length rs" "valid_utf8 (drop (length rs) cs)"
    using 2(4) by (rule utf8_first)
  with 2(2) show ?case by simp
qed simp

text \<open>
  Percent-decoding returns, without a panic, exactly the text that a standard encoder was given, for
  any text.
\<close>

theorem percent_decode_encoded: "valid_utf8 s \<Longrightarrow> percent_decode (pct_encode s) = Value s"
  by (simp add: percent_decode_def percent_loop_encode lossy_valid)

theorem percent_decode_encoded_witness:
  "percent_decode (pct_encode (''a b&'' @ [CHR 0xC3, CHR 0xA9])) = Value (''a b&'' @ [CHR 0xC3, CHR 0xA9])"
proof -
  have "valid_utf8 (''a b&'' @ [CHR 0xC3, CHR 0xA9])" by code_simp
  then show ?thesis by (rule percent_decode_encoded)
qed

text \<open>Text that is not encoded can stop the handler, and names with a plus sign are distorted.\<close>

lemma percent_decode_panics: "percent_decode (''%a'' @ [CHR 0xC3, CHR 0xA9]) = Panic"
  by code_simp

lemma plus_distorted: "percent_decode ''site+1'' = Value ''site 1''"
  by code_simp

end
