(* ===== verification/Fact_Log.thy ===== *)
theory Fact_Log
  imports Store_Props
begin

text \<open>
  The fact log and the per-peer cursors of \<^verbatim>\<open>src/src/store.rs\<close> (lines 986-1082): serving the log,
  consuming it, and applying a fact of a peer. The specification of applying a fact is the one row
  it writes to each replicated table; local writes are shown to be the application of the fact they
  log, so one replay theorem covers both.
\<close>

section \<open>The log and the cursors\<close>

text \<open>SQLite's \<^verbatim>\<open>LIMIT\<close>: a negative limit is no limit.\<close>

definition sql_limit :: "int \<Rightarrow> 'a list \<Rightarrow> 'a list" where
  "sql_limit n xs = (if n < 0 then xs else take (nat n) xs)"

definition read_log_row :: "Crates \<Rightarrow> int \<times> log_row \<Rightarrow> FactRecord result" where
  "read_log_row C q =
     bind_result (fact_of_json C (log_payload (snd q)))
       (\<lambda>f. Ok \<lparr>rec_seq = fst q, rec_ts = log_ts (snd q), rec_fact = f\<rparr>)"

definition facts_since :: "Crates \<Rightarrow> Store \<Rightarrow> int \<Rightarrow> int \<Rightarrow> FactRecord list result" where
  "facts_since C s after limit =
     collect_result (map (read_log_row C)
       (sql_limit limit (sort_key fst (filter (\<lambda>q. fst q > after) (fact_log s)))))"

definition get_cursor :: "Store \<Rightarrow> location \<Rightarrow> int" where
  "get_cursor s peer = (case map_of (replication_cursors s) peer of None \<Rightarrow> 0 | Some n \<Rightarrow> n)"

definition set_cursor :: "location \<Rightarrow> int \<Rightarrow> Store \<Rightarrow> Store" where
  "set_cursor peer last_seq s =
     s\<lparr>replication_cursors := upsert_newer id peer last_seq (replication_cursors s)\<rparr>"

interpretation curs: lww_table set_cursor "\<lambda>s. map_of (replication_cursors s)" id
  by unfold_locales (simp add: set_cursor_def map_of_upsert_newer)

section \<open>Applying a fact\<close>

definition apply_fact :: "Crates \<Rightarrow> int \<Rightarrow> FactRecord \<Rightarrow> Store \<Rightarrow> Store result" where
  "apply_fact C sys r s =
     (let ts = rec_ts r in
      case rec_fact r of
        ObjectPut b k bl sz et \<Rightarrow>
          bind_result (collect_result (map (hex_decode C) bl)) (\<lambda>decoded.
            Ok (put_object_row b k
                  \<lparr>obj_blocks = encode_blocks decoded, obj_size = sz, obj_etag = et,
                   obj_shard_id = compute_shard_id (blake3 C) k, obj_updated_at = ts, obj_deleted = False\<rparr> s))
      | ObjectDelete b k \<Rightarrow> Ok (put_object_row b k (tombstone C k ts) s)
      | BlockAnnounce h loc f sz \<Rightarrow>
          bind_result (hex_decode C h) (\<lambda>hash_b.
          bind_result (hex_decode C f) (\<lambda>fid_b.
            let s1 = upsert_block_location hash_b loc fid_b sz ts s;
                have_local = (map_of (block_locations s1) (hash_b, local_location_id s1) \<noteq> None);
                need_pull = (\<not> have_local \<and> loc \<noteq> local_location_id s1)
            in Ok (if need_pull then enqueue_replication sys hash_b [local_location_id s1] s1 else s1)))
      | UserPut ak sk p \<Rightarrow>
          Ok (put_user_row ak \<lparr>usr_secret = sk, usr_pol = p, usr_updated_at = ts\<rparr> s))"

text \<open>A caller that logs a failed application and goes on.\<close>

definition apply_or_skip :: "Crates \<Rightarrow> int \<times> FactRecord \<Rightarrow> Store \<Rightarrow> Store" where
  "apply_or_skip C q s =
     (case apply_fact C (fst q) (snd q) s of Err \<Rightarrow> s | Ok s' \<Rightarrow> s')"

definition applicable :: "Crates \<Rightarrow> Fact \<Rightarrow> bool" where
  "applicable C f =
     (case f of
        ObjectPut b k bl sz et \<Rightarrow> collect_result (map (hex_decode C) bl) \<noteq> Err
      | BlockAnnounce h loc fd sz \<Rightarrow> hex_decode C h \<noteq> Err \<and> hex_decode C fd \<noteq> Err
      | _ \<Rightarrow> True)"

lemma apply_fact_Err_iff: "apply_fact C sys r s = Err \<longleftrightarrow> \<not> applicable C (rec_fact r)"
  by (cases "rec_fact r")
    (auto simp: apply_fact_def applicable_def bind_result_def Let_def split: result.splits)

section \<open>What a fact writes\<close>

definition fact_object :: "Crates \<Rightarrow> FactRecord \<Rightarrow> ((string \<times> string) \<times> object_row) option" where
  "fact_object C r =
     (case rec_fact r of
        ObjectPut b k bl sz et \<Rightarrow>
          (case collect_result (map (hex_decode C) bl) of
             Err \<Rightarrow> None
           | Ok bs \<Rightarrow> Some ((b, k),
               \<lparr>obj_blocks = encode_blocks bs, obj_size = sz, obj_etag = et,
                obj_shard_id = compute_shard_id (blake3 C) k, obj_updated_at = rec_ts r, obj_deleted = False\<rparr>))
      | ObjectDelete b k \<Rightarrow> Some ((b, k), tombstone C k (rec_ts r))
      | _ \<Rightarrow> None)"

definition fact_user :: "FactRecord \<Rightarrow> (string \<times> user_row) option" where
  "fact_user r =
     (case rec_fact r of
        UserPut ak sk p \<Rightarrow> Some (ak, \<lparr>usr_secret = sk, usr_pol = p, usr_updated_at = rec_ts r\<rparr>)
      | _ \<Rightarrow> None)"

definition fact_location :: "Crates \<Rightarrow> FactRecord \<Rightarrow> ((hash \<times> location) \<times> location_row) option" where
  "fact_location C r =
     (case rec_fact r of
        BlockAnnounce h loc f sz \<Rightarrow>
          (case (hex_decode C h, hex_decode C f) of
             (Ok hb, Ok fb) \<Rightarrow> Some ((hb, loc), \<lparr>loc_fid = fb, loc_updated_at = rec_ts r\<rparr>)
           | _ \<Rightarrow> None)
      | _ \<Rightarrow> None)"

lemmas fact_rows = fact_object_def fact_user_def fact_location_def

lemma objects_enqueue [simp]:
  "objects (enqueue_replication sys h ts s) = objects s"
  "users (enqueue_replication sys h ts s) = users s"
  "blocks (enqueue_replication sys h ts s) = blocks s"
  "block_locations (enqueue_replication sys h ts s) = block_locations s"
  "fact_log (enqueue_replication sys h ts s) = fact_log s"
  "replication_cursors (enqueue_replication sys h ts s) = replication_cursors s"
  "local_location_id (enqueue_replication sys h ts s) = local_location_id s"
  by (simp_all add: enqueue_replication_def Let_def)

lemma upsert_location_keeps [simp]:
  "objects (upsert_block_location h loc f sz ts s) = objects s"
  "users (upsert_block_location h loc f sz ts s) = users s"
  "fact_log (upsert_block_location h loc f sz ts s) = fact_log s"
  "replication_cursors (upsert_block_location h loc f sz ts s) = replication_cursors s"
  "local_location_id (upsert_block_location h loc f sz ts s) = local_location_id s"
  by (simp_all add: upsert_block_location_def)

lemma put_row_keeps [simp]:
  "users (put_object_row b k row s) = users s"
  "block_locations (put_object_row b k row s) = block_locations s"
  "fact_log (put_object_row b k row s) = fact_log s"
  "replication_cursors (put_object_row b k row s) = replication_cursors s"
  "local_location_id (put_object_row b k row s) = local_location_id s"
  "objects (put_user_row ak urow s) = objects s"
  "block_locations (put_user_row ak urow s) = block_locations s"
  "fact_log (put_user_row ak urow s) = fact_log s"
  "replication_cursors (put_user_row ak urow s) = replication_cursors s"
  "local_location_id (put_user_row ak urow s) = local_location_id s"
  by (simp_all add: put_object_row_def put_user_row_def)

lemma apply_or_skip_keeps [simp]:
  "fact_log (apply_or_skip C q s) = fact_log s"
  "replication_cursors (apply_or_skip C q s) = replication_cursors s"
  "local_location_id (apply_or_skip C q s) = local_location_id s"
  by (cases "rec_fact (snd q)";
      simp add: apply_or_skip_def apply_fact_def bind_result_def Let_def split: result.split)+

lemma store_ok_set_cursor [simp]: "store_ok s \<Longrightarrow> store_ok (set_cursor p n s)"
  by (simp add: store_ok_def set_cursor_def)

lemma store_ok_apply [simp]: "store_ok s \<Longrightarrow> store_ok (apply_or_skip C q s)"
  by (cases "rec_fact (snd q)")
    (simp_all add: apply_or_skip_def apply_fact_def bind_result_def Let_def split: result.split)

interpretation robjs: lww_replay "apply_or_skip C" "\<lambda>s. map_of (objects s)" obj_updated_at
  "\<lambda>q. fact_object C (snd q)"
  for C
  by unfold_locales
    (auto simp: apply_or_skip_def apply_fact_def fact_object_def bind_result_def Let_def objs.get_put [of "(b, k)" for b k, simplified]
      split: Fact.split result.split)

interpretation rusrs: lww_replay "apply_or_skip C" "\<lambda>s. map_of (users s)" usr_updated_at
  "\<lambda>q. fact_user (snd q)"
  for C
  by unfold_locales
    (auto simp: apply_or_skip_def apply_fact_def fact_user_def bind_result_def Let_def usrs.get_put
      split: Fact.split result.split)

interpretation rlocs: lww_replay "apply_or_skip C" "\<lambda>s. map_of (block_locations s)" loc_updated_at
  "\<lambda>q. fact_location C (snd q)"
  for C
  by unfold_locales
    (auto simp: apply_or_skip_def apply_fact_def fact_location_def bind_result_def Let_def upsert_block_location_def
      map_of_upsert_newer split: Fact.split result.split)

section \<open>Local writes\<close>

definition own_record :: "int \<Rightarrow> Fact \<Rightarrow> Store \<Rightarrow> FactRecord" where
  "own_record ts f s = \<lparr>rec_seq = next_seq (fact_log s), rec_ts = ts, rec_fact = f\<rparr>"

definition log_and_apply :: "Crates \<Rightarrow> int \<Rightarrow> Fact \<Rightarrow> Store \<Rightarrow> Store" where
  "log_and_apply C ts f s = append_fact_tx C ts f (apply_or_skip C (0, own_record ts f s) s)"

lemma insert_object_as_fact:
  assumes "hex_ok C"
  shows "insert_object C sys b (compute_shard_id (blake3 C) k) k bs sz et s =
    log_and_apply C (store_now_micros s sys) (ObjectPut b k (map (hex_encode C) bs) sz et) s"
  using assms
  by (simp add: insert_object_def log_and_apply_def apply_or_skip_def apply_fact_def own_record_def Let_def comp_def)

lemma delete_object_as_fact:
  "delete_object C sys b k s = log_and_apply C (store_now_micros s sys) (ObjectDelete b k) s"
  by (simp add: delete_object_def log_and_apply_def apply_or_skip_def apply_fact_def own_record_def Let_def)

lemma create_user_as_fact:
  "create_user C sys ak sk p s =
    log_and_apply C (store_now_micros s sys) (UserPut ak sk (policy_to_json C p)) s"
  by (simp add: create_user_def log_and_apply_def apply_or_skip_def apply_fact_def own_record_def Let_def)

lemma store_local_block_as_fact:
  assumes "hex_ok C"
  shows "store_local_block C sys h f sz s =
    log_and_apply C (store_now_micros s sys)
      (BlockAnnounce (hex_encode C h) (local_location_id s) (hex_encode C f) sz) s"
  using assms
  by (simp add: store_local_block_def log_and_apply_def apply_or_skip_def apply_fact_def own_record_def Let_def)

lemmas local_writes_as_facts =
  insert_object_as_fact delete_object_as_fact create_user_as_fact store_local_block_as_fact

section \<open>Reading the log\<close>

definition log_readable :: "Crates \<Rightarrow> Store \<Rightarrow> bool" where
  "log_readable C s \<longleftrightarrow>
     (\<forall>q \<in> set (fact_log s). \<exists>f. fact_of_json C (log_payload (snd q)) = Ok f \<and> applicable C f)"

definition log_facts :: "Crates \<Rightarrow> Store \<Rightarrow> FactRecord list" where
  "log_facts C s =
     concat (map (\<lambda>q. case read_log_row C q of Err \<Rightarrow> [] | Ok r \<Rightarrow> [r]) (fact_log s))"

lemma log_facts_cong: "fact_log s = fact_log t \<Longrightarrow> log_facts C s = log_facts C t"
  by (simp add: log_facts_def)

lemma log_readable_cong: "fact_log s = fact_log t \<Longrightarrow> log_readable C s = log_readable C t"
  by (simp add: log_readable_def)

lemma log_numbered_filter: "log_numbered log \<Longrightarrow> filter (\<lambda>q. fst q > int m) log = drop m log"
proof (induction log rule: rev_induct)
  case (snoc x log)
  then have "log_numbered log" "fst x = int (length log) + 1" by (simp_all add: log_numbered_def)
  with snoc.IH show ?case by (cases "m \<le> length log") simp_all
qed simp

lemma log_numbered_sorted: "log_numbered log \<Longrightarrow> sorted (map fst log)"
proof -
  have "sorted (map int [1..<Suc n])" for n by (simp add: sorted_map del: upt_Suc)
  then show "log_numbered log \<Longrightarrow> sorted (map fst log)" unfolding log_numbered_def by simp
qed

lemma log_readable_map:
  assumes "log_readable C s"
  obtains g where "log_facts C s = map g (fact_log s)"
    and "\<And>q. q \<in> set (fact_log s) \<Longrightarrow> read_log_row C q = Ok (g q)"
proof -
  have "\<forall>q \<in> set (fact_log s). \<exists>r. read_log_row C q = Ok r"
    using assms by (auto simp: log_readable_def read_log_row_def bind_result_def split: result.split)
  from bchoice [OF this] obtain g where g: "\<forall>q \<in> set (fact_log s). read_log_row C q = Ok (g q)" ..
  have "concat (map (\<lambda>q. case read_log_row C q of Err \<Rightarrow> [] | Ok r \<Rightarrow> [r]) log) = map g log"
    if "set log \<subseteq> set (fact_log s)" for log
    using that g by (induction log) auto
  then have "log_facts C s = map g (fact_log s)" by (simp add: log_facts_def)
  with g show thesis by (auto intro: that)
qed

lemma log_facts_length: "log_readable C s \<Longrightarrow> length (log_facts C s) = length (fact_log s)"
  by (elim log_readable_map) simp

lemma collect_map_Ok: "(\<And>x. x \<in> set xs \<Longrightarrow> f x = Ok (g x)) \<Longrightarrow> collect_result (map f xs) = Ok (map g xs)"
  by (induction xs) simp_all

lemma read_log_row_seq: "read_log_row C q = Ok r \<Longrightarrow> rec_seq r = fst q"
  by (auto simp: read_log_row_def bind_result_def split: result.splits)

lemma log_seq:
  assumes "store_ok s" "log_readable C s" "i < length (fact_log s)"
  shows "rec_seq (log_facts C s ! i) = int i + 1"
proof -
  from assms(2) obtain g where g: "log_facts C s = map g (fact_log s)"
    "\<And>q. q \<in> set (fact_log s) \<Longrightarrow> read_log_row C q = Ok (g q)" by (rule log_readable_map) blast
  have "map fst (fact_log s) ! i = int (Suc i)"
    using assms(1,3) unfolding store_ok_def log_numbered_def by (simp del: upt_Suc)
  then have "fst (fact_log s ! i) = int i + 1" using assms(3) by simp
  with g(1) read_log_row_seq [OF g(2) [of "fact_log s ! i"]] assms(3) show ?thesis by simp
qed

lemma log_applicable: "log_readable C s \<Longrightarrow> r \<in> set (log_facts C s) \<Longrightarrow> applicable C (rec_fact r)"
  by (fastforce simp: log_facts_def log_readable_def read_log_row_def bind_result_def split: result.splits)

lemma facts_since_drop:
  assumes "store_ok s" "log_readable C s" "0 \<le> after"
  shows "facts_since C s after limit = Ok (sql_limit limit (drop (nat after) (log_facts C s)))"
proof -
  from assms(2) obtain g where g: "log_facts C s = map g (fact_log s)"
    "\<And>q. q \<in> set (fact_log s) \<Longrightarrow> read_log_row C q = Ok (g q)" by (rule log_readable_map) blast
  have n: "log_numbered (fact_log s)" using assms(1) by (simp add: store_ok_def)
  let ?d = "drop (nat after) (fact_log s)"
  have "filter (\<lambda>q. fst q > after) (fact_log s) = ?d"
    using log_numbered_filter [OF n, of "nat after"] assms(3) by simp
  moreover have "sort_key fst ?d = ?d"
    using log_numbered_sorted [OF n] by (simp add: sort_key_id_if_sorted drop_map sorted_wrt_drop flip: drop_map)
  moreover have "collect_result (map (read_log_row C) (sql_limit limit ?d)) = Ok (map g (sql_limit limit ?d))"
    by (rule collect_map_Ok, rule g(2))
      (auto simp: sql_limit_def dest: in_set_takeD in_set_dropD split: if_splits)
  ultimately show ?thesis
    by (simp add: facts_since_def g(1)) (simp add: sql_limit_def take_map drop_map)
qed

lemma log_facts_append:
  assumes "json_ok C" "store_ok s"
  shows "log_facts C (append_fact_tx C ts f s) =
    log_facts C s @ [\<lparr>rec_seq = next_seq (fact_log s), rec_ts = ts, rec_fact = f\<rparr>]"
  using assms by (simp add: log_facts_def append_fact_tx_def read_log_row_def)

lemma log_readable_append:
  assumes "json_ok C" "log_readable C s" "applicable C f"
  shows "log_readable C (append_fact_tx C ts f s)"
  using assms by (auto simp: log_readable_def append_fact_tx_def)

section \<open>Properties\<close>

text \<open>
  C12. Replication order does not matter: two sites that start without rows and apply the same facts in any order,
  with any repetitions and each at its own clock readings, hold the same objects, users and block
  locations, provided no two different rows written to one key carry the same timestamp.
\<close>

theorem replay_converges_all:
  assumes "snd ` set fs = snd ` set gs"
    and "\<And>k. tie_free obj_updated_at (candidates (fact_object C) k (snd ` set fs))"
    and "\<And>k. tie_free usr_updated_at (candidates fact_user k (snd ` set fs))"
    and "\<And>k. tie_free loc_updated_at (candidates (fact_location C) k (snd ` set fs))"
  shows "map_of (objects (fold (apply_or_skip C) fs (store_new a ca))) =
           map_of (objects (fold (apply_or_skip C) gs (store_new b cb))) \<and>
         map_of (users (fold (apply_or_skip C) fs (store_new a ca))) =
           map_of (users (fold (apply_or_skip C) gs (store_new b cb))) \<and>
         map_of (block_locations (fold (apply_or_skip C) fs (store_new a ca))) =
           map_of (block_locations (fold (apply_or_skip C) gs (store_new b cb)))"
  by (intro conjI robjs.replay_converges rusrs.replay_converges rlocs.replay_converges)
    (simp_all add: candidates_image assms(1) assms(2-4) [unfolded assms(1)] store_new_def)

theorem replay_converges_all_witness:
  "let p = \<lparr>rec_seq = 1, rec_ts = 5, rec_fact = ObjectPut ''b'' ''k'' [] 0 ''e''\<rparr>;
       d = \<lparr>rec_seq = 2, rec_ts = 6, rec_fact = ObjectDelete ''b'' ''k''\<rparr>
   in map_of (objects (fold (apply_or_skip demo_crates) [(3, p), (4, d)] (store_new ''x'' (clock_new 0)))) =
      map_of (objects (fold (apply_or_skip demo_crates) [(8, d), (9, p), (10, d)] (store_new ''y'' (clock_new 0))))"
proof -
  let ?p = "\<lparr>rec_seq = 1, rec_ts = 5, rec_fact = ObjectPut ''b'' ''k'' [] 0 ''e''\<rparr>"
  let ?d = "\<lparr>rec_seq = 2, rec_ts = 6, rec_fact = ObjectDelete ''b'' ''k''\<rparr>"
  have "snd ` set [(3 :: int, ?p), (4, ?d)] = snd ` set [(8, ?d), (9, ?p), (10, ?d)]" by auto
  from replay_converges_all [OF this, of demo_crates "''x''" "clock_new 0" "''y''" "clock_new 0"]
  show ?thesis
    by (simp add: fact_rows tombstone_def tie_free_def)
qed

text \<open>
  C13. A local write and the replication of that write are the same thing: \<^verbatim>\<open>insert_object\<close>,
  \<^verbatim>\<open>delete_object\<close>, \<^verbatim>\<open>create_user\<close> and \<^verbatim>\<open>store_local_block\<close> each change the store exactly as applying
  the fact they log with its timestamp, and then append that fact; a peer that applies the logged fact
  therefore makes the writer's own change.
\<close>

theorem local_write_is_its_fact:
  assumes "hex_ok C"
  shows
    "insert_object C sys b (compute_shard_id (blake3 C) k) k bs sz et s =
       log_and_apply C (store_now_micros s sys) (ObjectPut b k (map (hex_encode C) bs) sz et) s \<and>
     delete_object C sys b k s = log_and_apply C (store_now_micros s sys) (ObjectDelete b k) s \<and>
     create_user C sys ak sk p s =
       log_and_apply C (store_now_micros s sys) (UserPut ak sk (policy_to_json C p)) s \<and>
     store_local_block C sys h f n s =
       log_and_apply C (store_now_micros s sys)
         (BlockAnnounce (hex_encode C h) (local_location_id s) (hex_encode C f) n) s"
  by (intro conjI local_writes_as_facts assms)

theorem local_write_is_its_fact_witness:
  "delete_object demo_crates 7 ''b'' ''k'' (store_new ''a'' (clock_new 0)) =
     log_and_apply demo_crates 7 (ObjectDelete ''b'' ''k'') (store_new ''a'' (clock_new 0))"
proof -
  have "store_now_micros (store_new ''a'' (clock_new 0)) 7 = 7"
    by (simp add: store_now_micros_def clock_now_micros_def store_new_def clock_new_def in_i64_def)
  with local_write_is_its_fact [OF demo_hex_ok, of 7 "''b''" "''k''" "[]" 0 "''''"
      "store_new ''a'' (clock_new 0)" "''''" "''''" admin_policy "[]" "[]" 0]
  show ?thesis by simp
qed

text \<open>
  Serving the log: a peer that asks for the facts after a sequence number gets exactly the
  facts with larger numbers, in order, up to the limit; none is skipped or repeated, so paging
  through the log with the last number received sees every fact once.
\<close>

theorem facts_since_page:
  assumes "store_ok s" "log_readable C s" "0 \<le> after" "0 \<le> limit"
  shows "facts_since C s after limit = Ok (take (nat limit) (drop (nat after) (log_facts C s))) \<and>
    map rec_seq (log_facts C s) = map int [1..<Suc (length (fact_log s))]"
proof -
  have "map rec_seq (log_facts C s) = map int [1..<Suc (length (fact_log s))]"
    by (rule nth_equalityI) (simp_all add: log_facts_length log_seq assms del: upt_Suc)
  with facts_since_drop [OF assms(1-3)] assms(4) show ?thesis by (simp add: sql_limit_def)
qed

lemma demo_log_readable:
  "log_readable demo_crates (delete_object demo_crates 7 ''b'' ''k'' (store_new ''a'' (clock_new 0)))"
  "length (fact_log (delete_object demo_crates 7 ''b'' ''k'' (store_new ''a'' (clock_new 0)))) = 1"
  by (auto simp: log_readable_def delete_object_def append_fact_tx_def Let_def put_object_row_def store_new_def
      applicable_def demo_json_ok)

theorem facts_since_page_witness:
  "let s = delete_object demo_crates 7 ''b'' ''k'' (store_new ''a'' (clock_new 0))
   in facts_since demo_crates s 0 500 = Ok (log_facts demo_crates s)"
  using facts_since_page [of "delete_object demo_crates 7 ''b'' ''k'' (store_new ''a'' (clock_new 0))"
      demo_crates 0 500] demo_log_readable log_facts_length [OF demo_log_readable(1)]
  by (simp add: Let_def)

text \<open>
  Mirroring: applying the announcement of a block stored at another site either finds a local
  copy or leaves a pull of that block in this site's queue; an entry that was already queued keeps
  its retry state. The announcement of the site's own block queues nothing.
\<close>

theorem announce_enqueues_pull:
  assumes "hex_decode C h = Ok hb" "hex_decode C f = Ok fb"
    and "apply_fact C sys \<lparr>rec_seq = q, rec_ts = ts, rec_fact = BlockAnnounce h loc f sz\<rparr> s = Ok s'"
  shows "map_of (block_locations s') (hb, loc) \<noteq> None \<and>
    map_of (replication_queue s') =
      (if loc = local_location_id s \<or> get_local_block_fid s hb \<noteq> None
       then map_of (replication_queue s)
       else (map_of (replication_queue s))((local_location_id s, hb) \<mapsto>
              (case map_of (replication_queue s) (local_location_id s, hb) of
                 None \<Rightarrow> \<lparr>q_next_attempt_at = 0, q_attempts = 0, q_enqueued_at = store_now_millis s sys\<rparr>
               | Some r \<Rightarrow> r)))"
  using assms
  by (cases "map_of (replication_queue s) (local_location_id s, hb)")
    (auto simp: apply_fact_def Let_def upsert_block_location_def map_of_upsert_newer get_local_block_fid_def
      enqueue_replication_def map_of_insert_ignore store_now_millis_def store_now_micros_def split: if_splits)

theorem announce_enqueues_pull_witness:
  "\<exists>s'. apply_fact demo_crates 0 \<lparr>rec_seq = 1, rec_ts = 5, rec_fact = BlockAnnounce ''0a'' ''b'' ''01'' 3\<rparr>
      (store_new ''a'' (clock_new 0)) = Ok s' \<and> map_of (replication_queue s') (''a'', [10]) \<noteq> None"
proof -
  have d: "hex_decode demo_crates ''0a'' = Ok [10]" "hex_decode demo_crates ''01'' = Ok [1]"
    by (simp_all add: demo_crates_def)
  obtain s' where s': "apply_fact demo_crates 0
      \<lparr>rec_seq = 1, rec_ts = 5, rec_fact = BlockAnnounce ''0a'' ''b'' ''01'' 3\<rparr>
      (store_new ''a'' (clock_new 0)) = Ok s'"
    by (simp add: apply_fact_def d Let_def)
  with announce_enqueues_pull [OF d s'] show ?thesis
    by (simp add: store_new_def get_local_block_fid_def)
qed

end
