(* ===== verification/Sync.thy ===== *)
theory Sync
  imports Fact_Log
begin

text \<open>
  Pulling facts from peers (\<^verbatim>\<open>sync_facts_once\<close> of \<^verbatim>\<open>src/src/main.rs\<close>, lines 741-782). The request to a
  peer (\<^verbatim>\<open>noise_get_facts\<close>: Noise handshake, HTTP, timeout) is the argument \<open>fetch\<close>, which may fail
  and may answer differently at each call; the clock readings are the argument \<open>sys\<close>. Both are
  indexed by a counter of the calls made so far.
\<close>

section \<open>The loop\<close>

definition FACT_SYNC_BATCH :: int where
  "FACT_SYNC_BATCH = 500"

fun apply_page ::
    "Crates \<Rightarrow> (nat \<Rightarrow> int) \<Rightarrow> nat \<Rightarrow> FactRecord list \<Rightarrow> int \<Rightarrow> Store \<Rightarrow> nat \<times> int \<times> Store" where
  "apply_page C sys n [] max_seq s = (n, max_seq, s)"
| "apply_page C sys n (f # fs) max_seq s =
     (case apply_fact C (sys n) f s of
        Err \<Rightarrow> apply_page C sys (Suc n) fs max_seq s
      | Ok s' \<Rightarrow> apply_page C sys (Suc n) fs (max max_seq (rec_seq f)) s')"

text \<open>One round of the loop for a peer: \<open>Inl\<close> leaves the loop, \<open>Inr\<close> goes round again.\<close>

definition sync_round ::
    "Crates \<Rightarrow> (nat \<Rightarrow> int) \<Rightarrow> (nat \<Rightarrow> int \<Rightarrow> FactRecord list result) \<Rightarrow> location \<Rightarrow> nat \<Rightarrow> Store \<Rightarrow>
     (nat \<times> Store) + (nat \<times> Store)" where
  "sync_round C sys fetch peer n s =
     (let after = get_cursor s peer in
      case fetch n after of
        Err \<Rightarrow> Inl (Suc n, s)
      | Ok facts \<Rightarrow>
          if facts = [] then Inl (Suc n, s)
          else (let r = apply_page C sys (Suc n) facts after s;
                    s' = set_cursor peer (fst (snd r)) (snd (snd r))
                in if int (length facts) < FACT_SYNC_BATCH then Inl (fst r, s') else Inr (fst r, s')))"

partial_function (option) sync_peer ::
    "Crates \<Rightarrow> (nat \<Rightarrow> int) \<Rightarrow> (nat \<Rightarrow> int \<Rightarrow> FactRecord list result) \<Rightarrow> location \<Rightarrow> nat \<Rightarrow> Store \<Rightarrow>
     (nat \<times> Store) option" where
  "sync_peer C sys fetch peer n s =
     (case sync_round C sys fetch peer n s of
        Inl r \<Rightarrow> Some r
      | Inr r \<Rightarrow> sync_peer C sys fetch peer (fst r) (snd r))"

declare sync_peer.simps [code]

primrec sync_facts_once ::
    "Crates \<Rightarrow> (nat \<Rightarrow> int) \<Rightarrow> (string \<Rightarrow> nat \<Rightarrow> int \<Rightarrow> FactRecord list result) \<Rightarrow>
     (location \<times> string) list \<Rightarrow> nat \<Rightarrow> Store \<Rightarrow> (nat \<times> Store) option" where
  "sync_facts_once C sys fetch [] n s = Some (n, s)"
| "sync_facts_once C sys fetch (p # peers) n s =
     Option.bind (sync_peer C sys (fetch (snd p)) (fst p) n s)
       (\<lambda>r. sync_facts_once C sys fetch peers (fst r) (snd r))"

text \<open>A round asks the peer for one page only.\<close>

lemma sync_round_cong:
  "fetch n (get_cursor s peer) = fetch' n (get_cursor s peer) \<Longrightarrow>
     sync_round C sys fetch peer n s = sync_round C sys fetch' peer n s"
  by (simp add: sync_round_def)

section \<open>A page\<close>

lemma apply_page_applicable:
  assumes "\<forall>f \<in> set fs. applicable C (rec_fact f)"
  shows "apply_page C sys n fs m s =
    (n + length fs, fold max (map rec_seq fs) m,
     fold (apply_or_skip C) (zip (map sys [n..<n + length fs]) fs) s)"
  using assms
proof (induction fs arbitrary: n m s)
  case (Cons f fs)
  then have "apply_fact C (sys n) f s \<noteq> Err" by (simp add: apply_fact_Err_iff)
  then obtain s' where s': "apply_fact C (sys n) f s = Ok s'" by (cases "apply_fact C (sys n) f s") auto
  have "[n..<n + length (f # fs)] = n # [Suc n..<Suc n + length fs]"
    by (simp add: upt_conv_Cons del: upt_Suc)
  with s' Cons show ?case by (simp add: apply_or_skip_def max.commute del: upt_Suc)
qed simp

lemma apply_cursors_commute:
  "apply_or_skip C q (s\<lparr>replication_cursors := cs\<rparr>) = (apply_or_skip C q s)\<lparr>replication_cursors := cs\<rparr>"
  by (cases "rec_fact (snd q)")
    (simp_all add: apply_or_skip_def apply_fact_def bind_result_def Let_def put_object_row_def put_user_row_def
      upsert_block_location_def enqueue_replication_def store_now_millis_def store_now_micros_def
      split: result.split)

lemma fold_apply_cursors:
  "fold (apply_or_skip C) qs (s\<lparr>replication_cursors := cs\<rparr>) =
     (fold (apply_or_skip C) qs s)\<lparr>replication_cursors := cs\<rparr>"
  by (induction qs arbitrary: s) (simp_all add: apply_cursors_commute)

lemma fold_apply_keeps [simp]:
  "fact_log (fold (apply_or_skip C) qs s) = fact_log s"
  "replication_cursors (fold (apply_or_skip C) qs s) = replication_cursors s"
  "local_location_id (fold (apply_or_skip C) qs s) = local_location_id s"
  by (induction qs arbitrary: s) simp_all

lemma store_ok_fold_apply [simp]: "store_ok s \<Longrightarrow> store_ok (fold (apply_or_skip C) qs s)"
  by (induction qs arbitrary: s) simp_all

lemma fold_max_seqs: "fold max (map int [Suc c..<Suc c + n]) (int c) = int (c + n)"
  by (induction n) simp_all

text \<open>What serving the log after a cursor and applying the page does.\<close>

lemma page_of_log:
  assumes "store_ok t" "log_readable C t" "0 \<le> after" "after \<le> int (length (fact_log t))"
  defines "page \<equiv> take 500 (drop (nat after) (log_facts C t))"
  shows "facts_since C t after FACT_SYNC_BATCH = Ok page"
    and "apply_page C sys n page after s =
      (n + length page, after + int (length page),
       fold (apply_or_skip C) (zip (map sys [n..<n + length page]) page) s)"
proof -
  show "facts_since C t after FACT_SYNC_BATCH = Ok page"
    using facts_since_drop [OF assms(1-3)] by (simp add: page_def sql_limit_def FACT_SYNC_BATCH_def)
  have "map rec_seq page = map int [Suc (nat after)..<Suc (nat after) + length page]"
    using assms(3,4)
    by (intro nth_equalityI)
      (simp_all add: page_def log_seq assms(1,2) log_facts_length less_diff_conv add.commute del: upt_Suc)
  then have "fold max (map rec_seq page) after = after + int (length page)"
    using fold_max_seqs [of "nat after" "length page"] assms(3) by (simp del: upt_Suc)
  moreover have "\<forall>f \<in> set page. applicable C (rec_fact f)"
    using log_applicable [OF assms(2)] by (auto simp: page_def dest: in_set_takeD in_set_dropD)
  ultimately show "apply_page C sys n page after s =
      (n + length page, after + int (length page),
       fold (apply_or_skip C) (zip (map sys [n..<n + length page]) page) s)"
    by (simp add: apply_page_applicable)
qed

section \<open>Catching up\<close>

lemma get_set_cursor:
  "get_cursor (set_cursor p n s) p' =
     (if p' = p then (case map_of (replication_cursors s) p of None \<Rightarrow> n | Some m \<Rightarrow> max m n)
      else get_cursor s p')"
  by (auto simp: get_cursor_def set_cursor_def map_of_upsert_newer split: option.split)

lemma get_set_cursor_forward:
  "get_cursor s p \<le> n \<Longrightarrow> get_cursor (set_cursor p n s) = (get_cursor s)(p := n)"
  by (cases "map_of (replication_cursors s) p")
    (auto simp: get_cursor_def set_cursor_def map_of_upsert_newer fun_eq_iff)

text \<open>\<open>advances s qs peer c s'\<close>: \<open>s'\<close> is \<open>s\<close> after applying \<open>qs\<close>, with the peer's cursor at \<open>c\<close>.\<close>

definition advances :: "Crates \<Rightarrow> Store \<Rightarrow> (int \<times> FactRecord) list \<Rightarrow> location \<Rightarrow> int \<Rightarrow> Store \<Rightarrow> bool" where
  "advances C s qs peer c s' \<longleftrightarrow>
     (\<exists>cs. s' = (fold (apply_or_skip C) qs s)\<lparr>replication_cursors := cs\<rparr>) \<and>
     get_cursor s' = (get_cursor s)(peer := c)"

lemma advances_trans:
  assumes "advances C s qs peer c s1" "advances C s1 rs peer d s2"
  shows "advances C s (qs @ rs) peer d s2"
  using assms unfolding advances_def by (auto simp: fold_apply_cursors)

lemma advances_page:
  assumes "store_ok t" "log_readable C t" "0 \<le> get_cursor s peer"
    and "get_cursor s peer \<le> int (length (fact_log t))"
    and "r = apply_page C sys n (take 500 (drop (nat (get_cursor s peer)) (log_facts C t))) (get_cursor s peer) s"
  shows "\<exists>qs. map snd qs = take 500 (drop (nat (get_cursor s peer)) (log_facts C t)) \<and>
    advances C s qs peer (get_cursor s peer + int (length qs)) (set_cursor peer (fst (snd r)) (snd (snd r)))"
proof -
  let ?page = "take 500 (drop (nat (get_cursor s peer)) (log_facts C t))"
  let ?qs = "zip (map sys [n..<n + length ?page]) ?page"
  have r: "r = (n + length ?page, get_cursor s peer + int (length ?page), fold (apply_or_skip C) ?qs s)"
    using page_of_log(2) [OF assms(1-4), of sys n s] assms(5) by simp
  have "length ?qs = length ?page" "map snd ?qs = ?page" by simp_all
  moreover have "get_cursor (fold (apply_or_skip C) ?qs s) = get_cursor s"
    by (simp add: get_cursor_def fun_eq_iff)
  ultimately show ?thesis
    by (intro exI [of _ ?qs])
      (auto simp: r advances_def get_set_cursor_forward, auto simp: set_cursor_def)
qed

lemma sync_catches_up:
  assumes t: "store_ok t" "log_readable C t"
    and fetch: "\<And>n after. 0 \<le> after \<Longrightarrow> after \<le> int (length (fact_log t)) \<Longrightarrow>
      fetch n after = facts_since C t after FACT_SYNC_BATCH"
    and cur: "0 \<le> get_cursor s peer" "get_cursor s peer \<le> int (length (fact_log t))"
  shows "\<exists>n' s' qs. sync_peer C sys fetch peer n s = Some (n', s') \<and>
    map snd qs = drop (nat (get_cursor s peer)) (log_facts C t) \<and>
    advances C s qs peer (int (length (fact_log t))) s'"
  using cur
proof (induction "nat (int (length (fact_log t)) - get_cursor s peer)" arbitrary: s n rule: less_induct)
  case less
  let ?c = "get_cursor s peer"
  let ?page = "take 500 (drop (nat ?c) (log_facts C t))"
  let ?r = "apply_page C sys (Suc n) ?page ?c s"
  let ?s1 = "set_cursor peer (fst (snd ?r)) (snd (snd ?r))"
  have served: "fetch n ?c = Ok ?page"
    using page_of_log(1) [OF t less.prems] fetch [OF less.prems] by simp
  have len: "length ?page = min 500 (nat (int (length (fact_log t)) - ?c))"
    using less.prems by (simp add: log_facts_length [OF t(2)] min_def) linarith
  obtain qs where qs: "map snd qs = ?page" "advances C s qs peer (?c + int (length qs)) ?s1"
    using advances_page [OF t less.prems refl, of sys "Suc n"] by blast
  have lqs: "length qs = length ?page" using arg_cong [OF qs(1), of length] by simp
  consider (empty) "?page = []" | (short) "?page \<noteq> []" "length ?page < 500" | (full) "length ?page = 500"
    by fastforce
  then show ?case
  proof cases
    case empty
    then have "?c = int (length (fact_log t))" using len less.prems by simp
    then have "advances C s [] peer (int (length (fact_log t))) s"
      by (auto simp: advances_def intro!: exI [of _ "replication_cursors s"])
    moreover have "drop (nat ?c) (log_facts C t) = []" using empty by simp
    ultimately show ?thesis
      using served empty by (subst sync_peer.simps) (auto simp: sync_round_def Let_def)
  next
    case short
    then have "?c + int (length qs) = int (length (fact_log t))" "?page = drop (nat ?c) (log_facts C t)"
      using len lqs less.prems by (auto simp: min_def split: if_splits)
    with qs show ?thesis
      using served short by (subst sync_peer.simps) (auto simp: sync_round_def Let_def FACT_SYNC_BATCH_def)
  next
    case full
    have c1: "get_cursor ?s1 peer = ?c + 500" using qs(2) lqs full by (simp add: advances_def)
    have "?c + 500 \<le> int (length (fact_log t))" using full len by (simp add: min_def split: if_splits)
    with less.hyps [of ?s1 "fst ?r"] c1 less.prems obtain n' s' rs where
      rs: "sync_peer C sys fetch peer (fst ?r) ?s1 = Some (n', s')"
      "map snd rs = drop (nat (?c + 500)) (log_facts C t)"
      "advances C ?s1 rs peer (int (length (fact_log t))) s'"
      by auto
    have "map snd (qs @ rs) = drop (nat ?c) (log_facts C t)"
      using qs(1) rs(2) less.prems by (simp add: nat_add_distrib add.commute [of _ 500] flip: drop_drop)
    moreover have "sync_peer C sys fetch peer n s = Some (n', s')"
      using served full rs(1)
      by (subst sync_peer.simps) (auto simp: sync_round_def Let_def FACT_SYNC_BATCH_def)
    ultimately show ?thesis using advances_trans [OF qs(2) rs(3)] by blast
  qed
qed

end
