(* ===== verification/Cluster.thy ===== *)
theory Cluster
  imports Sync
begin

text \<open>
  The cluster as a transition system: every site has its metadata store, clients write at any site,
  every site pulls pages of facts from any other, and the background tasks of a site change the
  tables that are not replicated. One step is one store operation or one page of
  \<^verbatim>\<open>sync_facts_once\<close>; steps of different sites interleave freely and a site may stop pulling for as long
  as it likes. Site \<open>i\<close> is the store \<open>\<sigma> i\<close>, under its location id.
\<close>

section \<open>Steps\<close>

type_synonym cluster = "location \<Rightarrow> Store"

text \<open>Operations that touch neither the replicated object and user rows nor the log and cursors.\<close>

inductive background :: "Store \<Rightarrow> Store \<Rightarrow> bool" where
  bg_clock: "background s (s\<lparr>clock := c\<rparr>)"
| bg_delete_local_block: "background s (snd (delete_local_block h s))"
| bg_add_pending: "background s (add_pending_deletion h t s)"
| bg_remove_pending: "background s (remove_pending_deletion h s)"
| bg_add_location: "background s (add_block_location sys h loc f s)"
| bg_insert_multipart: "background s (insert_multipart b u k s)"
| bg_delete_multipart: "background s (delete_multipart_upload b u s)"
| bg_insert_part: "background s (insert_part b u n bs sz et s)"
| bg_delete_parts: "background s (delete_parts b u s)"
| bg_enqueue: "background s (enqueue_replication sys h targets s)"
| bg_dequeue: "background s (dequeue_replication h s)"
| bg_defer: "background s (defer_replication sys e s)"
| bg_register: "background s (register_node sys url s)"
| bg_record_peer: "background s (record_peer sys loc url s)"

inductive cluster_step :: "Crates \<Rightarrow> cluster \<Rightarrow> cluster \<Rightarrow> bool" for C where
  put: "cluster_step C \<sigma>
    (\<sigma>(i := insert_object C sys b (compute_shard_id (blake3 C) k) k bs sz et (\<sigma> i)))"
| delete: "cluster_step C \<sigma> (\<sigma>(i := delete_object C sys b k (\<sigma> i)))"
| user: "cluster_step C \<sigma> (\<sigma>(i := create_user C sys ak sk p (\<sigma> i)))"
| block: "cluster_step C \<sigma> (\<sigma>(i := store_local_block C sys h f sz (\<sigma> i)))"
| pull: "i \<noteq> j \<Longrightarrow>
    sync_round C sys (\<lambda>n after. facts_since C (\<sigma> j) after FACT_SYNC_BATCH) j n (\<sigma> i) \<in> {Inl (n', s'), Inr (n', s')} \<Longrightarrow>
    cluster_step C \<sigma> (\<sigma>(i := s'))"
| task: "background (\<sigma> i) s' \<Longrightarrow> cluster_step C \<sigma> (\<sigma>(i := s'))"

inductive_cases cluster_stepE: "cluster_step C \<sigma> \<sigma>'"

definition cluster_new :: "(location \<Rightarrow> ClusterClock) \<Rightarrow> cluster" where
  "cluster_new clk = (\<lambda>i. store_new i (clk i))"

inductive reachable :: "Crates \<Rightarrow> cluster \<Rightarrow> bool" for C where
  init: "reachable C (cluster_new clk)"
| step: "reachable C \<sigma> \<Longrightarrow> cluster_step C \<sigma> \<sigma>' \<Longrightarrow> reachable C \<sigma>'"

section \<open>What a site has seen\<close>

definition known :: "Crates \<Rightarrow> cluster \<Rightarrow> location \<Rightarrow> FactRecord set" where
  "known C \<sigma> i =
     set (log_facts C (\<sigma> i)) \<union> (\<Union>j. set (take (nat (get_cursor (\<sigma> i) j)) (log_facts C (\<sigma> j))))"

definition all_facts :: "Crates \<Rightarrow> cluster \<Rightarrow> FactRecord set" where
  "all_facts C \<sigma> = (\<Union>i. set (log_facts C (\<sigma> i)))"

definition site_ok :: "Crates \<Rightarrow> cluster \<Rightarrow> location \<Rightarrow> bool" where
  "site_ok C \<sigma> i \<longleftrightarrow>
     store_ok (\<sigma> i) \<and> local_location_id (\<sigma> i) = i \<and> log_readable C (\<sigma> i) \<and>
     (\<forall>j. 0 \<le> get_cursor (\<sigma> i) j \<and> get_cursor (\<sigma> i) j \<le> int (length (fact_log (\<sigma> j))))"

definition rows_newest :: "Crates \<Rightarrow> FactRecord set \<Rightarrow> Store \<Rightarrow> bool" where
  "rows_newest C F s \<longleftrightarrow>
     (\<forall>k. newest obj_updated_at (candidates (fact_object C) k F) (map_of (objects s) k)) \<and>
     (\<forall>k. newest usr_updated_at (candidates fact_user k F) (map_of (users s) k))"

definition cluster_inv :: "Crates \<Rightarrow> cluster \<Rightarrow> bool" where
  "cluster_inv C \<sigma> \<longleftrightarrow> (\<forall>i. site_ok C \<sigma> i \<and> rows_newest C (known C \<sigma> i) (\<sigma> i))"

lemma rows_newest_replay:
  assumes "rows_newest C F s"
  shows "rows_newest C (F \<union> snd ` set qs) (fold (apply_or_skip C) qs s)"
proof -
  have F: "snd ` (Pair (0 :: int) ` F \<union> set qs) = F \<union> snd ` set qs" "snd ` (Pair (0 :: int) ` F) = F"
    by (auto simp: image_Un image_image)
  note r = robjs.replay_newest [of C _ "Pair 0 ` F" s qs, unfolded candidates_image F]
    rusrs.replay_newest [of _ "Pair 0 ` F" s qs C, unfolded candidates_image F]
  show ?thesis using assms r by (simp add: rows_newest_def)
qed

lemma rows_newest_cong:
  "objects s = objects t \<Longrightarrow> users s = users t \<Longrightarrow> rows_newest C F s = rows_newest C F t"
  by (simp add: rows_newest_def)

section \<open>The invariant is preserved\<close>

text \<open>
  Changing one site, with its log growing at the end: the other sites keep what they know, so only
  the changed site has to be looked at.
\<close>

lemma cluster_inv_update:
  assumes inv: "cluster_inv C \<sigma>"
    and log: "log_facts C s' = log_facts C (\<sigma> i) @ xs" "length (fact_log (\<sigma> i)) \<le> length (fact_log s')"
    and site: "site_ok C (\<sigma>(i := s')) i" "rows_newest C (known C (\<sigma>(i := s')) i) s'"
  shows "cluster_inv C (\<sigma>(i := s'))"
proof -
  have "site_ok C (\<sigma>(i := s')) m \<and> rows_newest C (known C (\<sigma>(i := s')) m) ((\<sigma>(i := s')) m)" if "m \<noteq> i" for m
  proof -
    from inv have ok: "site_ok C \<sigma> m" "site_ok C \<sigma> i" "rows_newest C (known C \<sigma> m) (\<sigma> m)"
      by (simp_all add: cluster_inv_def)
    then have "get_cursor (\<sigma> m) i \<le> int (length (log_facts C (\<sigma> i)))"
      by (simp add: site_ok_def log_facts_length)
    then have "take (nat (get_cursor (\<sigma> m) j)) (log_facts C ((\<sigma>(i := s')) j)) =
        take (nat (get_cursor (\<sigma> m) j)) (log_facts C (\<sigma> j))" for j
      by (cases "j = i") (simp_all add: log(1))
    then have "known C (\<sigma>(i := s')) m = known C \<sigma> m" using that by (simp add: known_def)
    moreover have "get_cursor (\<sigma> m) j \<le> int (length (fact_log ((\<sigma>(i := s')) j)))" for j
    proof -
      have "get_cursor (\<sigma> m) j \<le> int (length (fact_log (\<sigma> j)))" using ok(1) by (simp add: site_ok_def)
      then show ?thesis using log(2) by (cases "j = i") auto
    qed
    then have "site_ok C (\<sigma>(i := s')) m" using ok(1) that by (simp add: site_ok_def)
    ultimately show ?thesis using ok(3) that by simp
  qed
  with site show ?thesis by (auto simp: cluster_inv_def)
qed

lemma UN_absorb:
  "(\<And>j. X j \<subseteq> A \<union> Y j) \<Longrightarrow> (\<And>j. Y j \<subseteq> A \<union> X j) \<Longrightarrow> A \<union> (\<Union>j. X j) = A \<union> (\<Union>j. Y j)"
  by blast

lemma known_append:
  assumes "log_facts C s' = log_facts C (\<sigma> i) @ xs" "get_cursor s' = get_cursor (\<sigma> i)" "site_ok C \<sigma> i"
  shows "known C (\<sigma>(i := s')) i = known C \<sigma> i \<union> set xs"
proof -
  have "set (take n (log_facts C ((\<sigma>(i := s')) j))) \<subseteq> set (log_facts C s') \<union> set (take n (log_facts C (\<sigma> j)))"
    "set (take n (log_facts C (\<sigma> j))) \<subseteq> set (log_facts C s') \<union> set (take n (log_facts C ((\<sigma>(i := s')) j)))"
    for n j
    by (cases "j = i"; auto simp: assms(1) dest: in_set_takeD)+
  then have "set (log_facts C s') \<union> (\<Union>j. set (take (f j) (log_facts C ((\<sigma>(i := s')) j)))) =
      set (log_facts C s') \<union> (\<Union>j. set (take (f j) (log_facts C (\<sigma> j))))" for f
    by (intro UN_absorb) simp_all
  then show ?thesis by (auto simp: known_def assms(1,2))
qed

lemma inv_log_and_apply:
  assumes inv: "cluster_inv C \<sigma>" and C: "json_ok C" and f: "applicable C f"
  shows "cluster_inv C (\<sigma>(i := log_and_apply C ts f (\<sigma> i)))"
proof -
  let ?s = "\<sigma> i" and ?s' = "log_and_apply C ts f (\<sigma> i)" and ?r = "own_record ts f (\<sigma> i)"
  from inv have ok: "site_ok C \<sigma> i" "rows_newest C (known C \<sigma> i) ?s" by (simp_all add: cluster_inv_def)
  then have sok: "store_ok ?s" "log_readable C ?s" by (simp_all add: site_ok_def)
  have log: "log_facts C ?s' = log_facts C ?s @ [?r]"
    using sok by (simp add: log_and_apply_def log_facts_append [OF C] own_record_def
        log_facts_cong [of "apply_or_skip C q ?s" ?s for q])
  have keeps: "get_cursor ?s' = get_cursor ?s" "local_location_id ?s' = local_location_id ?s"
    "length (fact_log ?s') = Suc (length (fact_log ?s))"
    by (simp_all add: log_and_apply_def append_fact_tx_def get_cursor_def fun_eq_iff)
  have "log_readable C ?s'"
    using sok(2) f unfolding log_and_apply_def
    by (intro log_readable_append [OF C]) (simp_all add: log_readable_cong [of "apply_or_skip C q ?s" ?s for q])
  moreover have "store_ok ?s'" using sok by (simp add: log_and_apply_def)
  moreover have "get_cursor ?s j \<le> int (length (fact_log ((\<sigma>(i := ?s')) j)))" for j
  proof -
    have "get_cursor ?s j \<le> int (length (fact_log (\<sigma> j)))" using ok(1) by (simp add: site_ok_def)
    then show ?thesis by (cases "j = i") (auto simp: keeps(3))
  qed
  ultimately have "site_ok C (\<sigma>(i := ?s')) i"
    using ok(1) by (simp add: site_ok_def keeps)
  moreover have "objects ?s' = objects (fold (apply_or_skip C) [(0, ?r)] ?s)"
    "users ?s' = users (fold (apply_or_skip C) [(0, ?r)] ?s)"
    by (simp_all add: log_and_apply_def)
  then have "rows_newest C (known C (\<sigma>(i := ?s')) i) ?s'"
    using rows_newest_replay [OF ok(2), of "[(0, ?r)]"]
    unfolding known_append [OF log keeps(1) ok(1)] by (simp add: rows_newest_cong [of ?s'])
  ultimately show ?thesis using cluster_inv_update [OF inv log] keeps(3) by simp
qed

lemma known_advance:
  assumes "i \<noteq> j" "log_facts C s' = log_facts C (\<sigma> i)"
    and "get_cursor s' = (get_cursor (\<sigma> i))(j := c + int (length fs))" "c = get_cursor (\<sigma> i) j" "0 \<le> c"
    and "fs = take m (drop (nat c) (log_facts C (\<sigma> j)))"
  shows "known C (\<sigma>(i := s')) i = known C \<sigma> i \<union> set fs"
proof -
  let ?T = "\<lambda>x. set (take (nat (get_cursor (\<sigma> i) x)) (log_facts C (\<sigma> x)))"
  have "take (length fs) (drop (nat c) (log_facts C (\<sigma> j))) = fs"
    by (simp add: assms(6) min_def)
  then have "set (take (nat (c + int (length fs))) (log_facts C (\<sigma> j))) = ?T j \<union> set fs"
    using assms(4,5) by (simp add: nat_add_distrib take_add)
  then have "set (take (nat (get_cursor s' x)) (log_facts C ((\<sigma>(i := s')) x))) =
      ?T x \<union> (if x = j then set fs else {})" for x
    using assms(1) by (cases "x = j"; cases "x = i") (simp_all add: assms(2,3))
  then have "(\<Union>x. set (take (nat (get_cursor s' x)) (log_facts C ((\<sigma>(i := s')) x)))) = (\<Union>x. ?T x) \<union> set fs"
    by (simp only: UN_Un_distrib) auto
  then show ?thesis by (simp only: known_def fun_upd_same assms(2) Un_assoc)
qed

lemma inv_advances:
  assumes inv: "cluster_inv C \<sigma>"
    and adv: "advances C (\<sigma> i) qs j (get_cursor (\<sigma> i) j + int (length qs)) s'"
    and qs: "map snd qs = take m (drop (nat (get_cursor (\<sigma> i) j)) (log_facts C (\<sigma> j)))"
    and ij: "i \<noteq> j" and ok': "store_ok s'"
  shows "cluster_inv C (\<sigma>(i := s'))"
proof -
  let ?c = "get_cursor (\<sigma> i) j"
  from inv have ok: "site_ok C \<sigma> i" "rows_newest C (known C \<sigma> i) (\<sigma> i)" "site_ok C \<sigma> j"
    by (simp_all add: cluster_inv_def)
  from adv obtain cs where s': "s' = (fold (apply_or_skip C) qs (\<sigma> i))\<lparr>replication_cursors := cs\<rparr>"
    and cur: "get_cursor s' = (get_cursor (\<sigma> i))(j := ?c + int (length qs))"
    unfolding advances_def by blast
  have log: "fact_log s' = fact_log (\<sigma> i)" by (simp add: s')
  have c: "0 \<le> ?c" "?c \<le> int (length (fact_log (\<sigma> j)))" using ok(1) by (simp_all add: site_ok_def)
  have "length (map snd qs) \<le> length (fact_log (\<sigma> j)) - nat ?c"
    unfolding qs using ok(3) by (simp add: site_ok_def log_facts_length)
  with c have len: "?c + int (length qs) \<le> int (length (fact_log (\<sigma> j)))" by simp
  have "known C (\<sigma>(i := s')) i = known C \<sigma> i \<union> set (map snd qs)"
    by (rule known_advance [OF ij log_facts_cong [OF log] _ refl c(1) qs]) (simp add: cur)
  moreover have "objects s' = objects (fold (apply_or_skip C) qs (\<sigma> i))"
    "users s' = users (fold (apply_or_skip C) qs (\<sigma> i))" by (simp_all add: s')
  ultimately have "rows_newest C (known C (\<sigma>(i := s')) i) s'"
    using rows_newest_replay [OF ok(2), of qs] by (simp add: rows_newest_cong [of s'])
  moreover have "site_ok C (\<sigma>(i := s')) i"
  proof -
    have "local_location_id s' = local_location_id (\<sigma> i)" by (simp add: s')
    then show ?thesis
      using ok(1) ok' len c ij by (simp add: site_ok_def cur log log_readable_cong [OF log])
  qed
  ultimately show ?thesis
    using cluster_inv_update [OF inv, of s' i "[]"] by (simp add: log log_facts_cong [OF log])
qed

lemma inv_pull:
  assumes inv: "cluster_inv C \<sigma>" and ij: "i \<noteq> j"
    and round: "sync_round C sys (\<lambda>n after. facts_since C (\<sigma> j) after FACT_SYNC_BATCH) j n (\<sigma> i)
      \<in> {Inl (n', s'), Inr (n', s')}"
  shows "cluster_inv C (\<sigma>(i := s'))"
proof -
  let ?c = "get_cursor (\<sigma> i) j"
  let ?page = "take 500 (drop (nat ?c) (log_facts C (\<sigma> j)))"
  let ?r = "apply_page C sys (Suc n) ?page ?c (\<sigma> i)"
  let ?s' = "set_cursor j (fst (snd ?r)) (snd (snd ?r))"
  from inv have ok: "store_ok (\<sigma> i)" "store_ok (\<sigma> j)" "log_readable C (\<sigma> j)" "0 \<le> ?c"
    "?c \<le> int (length (fact_log (\<sigma> j)))" by (simp_all add: cluster_inv_def site_ok_def)
  note page = page_of_log [OF ok(2-5)]
  from round page(1) have "s' = \<sigma> i \<or> s' = ?s'"
    by (auto simp: sync_round_def Let_def split: if_splits)
  then show ?thesis
  proof
    assume s': "s' = ?s'"
    obtain qs where "map snd qs = ?page" "advances C (\<sigma> i) qs j (?c + int (length qs)) ?s'"
      using advances_page [OF ok(2-5) refl, of sys "Suc n"] by blast
    moreover have "store_ok ?s'" using ok(1) by (simp add: page(2))
    ultimately show ?thesis unfolding s' by (intro inv_advances [OF inv _ _ ij])
  qed (simp add: inv)
qed

lemma background_ok: "background s s' \<Longrightarrow> store_ok s \<Longrightarrow> store_ok s'"
  by (induction rule: background.induct) (simp_all, simp add: store_ok_def)

lemma background_keeps:
  assumes "background s s'"
  shows "objects s' = objects s" "users s' = users s" "fact_log s' = fact_log s"
    "replication_cursors s' = replication_cursors s" "local_location_id s' = local_location_id s"
  using assms
  by (induction; simp add: delete_local_block_def add_pending_deletion_def remove_pending_deletion_def
      add_block_location_def insert_multipart_def delete_multipart_upload_def insert_part_def delete_parts_def
      dequeue_replication_def defer_replication_def register_node_def record_peer_def upsert_node_def
      upsert_block_location_def Let_def split: option.split)+

lemma inv_background:
  assumes inv: "cluster_inv C \<sigma>" and bg: "background (\<sigma> i) s'"
  shows "cluster_inv C (\<sigma>(i := s'))"
proof -
  note keeps = background_keeps [OF bg]
  have cur: "get_cursor s' = get_cursor (\<sigma> i)" by (simp add: get_cursor_def keeps fun_eq_iff)
  from inv have ok: "site_ok C \<sigma> i" "rows_newest C (known C \<sigma> i) (\<sigma> i)" by (simp_all add: cluster_inv_def)
  have log: "log_facts C s' = log_facts C (\<sigma> i) @ []" by (simp add: log_facts_cong [OF keeps(3)])
  have "known C (\<sigma>(i := s')) i = known C \<sigma> i"
    using known_append [OF log cur ok(1)] by simp
  moreover have "fact_log ((\<sigma>(i := s')) j) = fact_log (\<sigma> j)" for j by (simp add: keeps(3))
  then have "site_ok C (\<sigma>(i := s')) i"
    using ok(1) keeps(5) background_ok [OF bg] by (simp add: site_ok_def cur log_readable_cong [OF keeps(3)])
  ultimately show ?thesis
    using cluster_inv_update [OF inv log] ok(2) by (simp add: keeps rows_newest_cong [OF keeps(1,2)])
qed

lemma collect_hex_encoded: "hex_ok C \<Longrightarrow> collect_result (map (hex_decode C) (map (hex_encode C) bs)) = Ok bs"
  by (simp add: comp_def)

lemma inv_step:
  assumes "cluster_step C \<sigma> \<sigma>'" "cluster_inv C \<sigma>" "hex_ok C" "json_ok C"
  shows "cluster_inv C \<sigma>'"
  using assms(1)
proof cases
  case pull
  then show ?thesis using inv_pull [OF assms(2)] by blast
next
  case task
  then show ?thesis using inv_background [OF assms(2)] by blast
qed (use assms(2-4) in \<open>simp_all add: local_writes_as_facts inv_log_and_apply applicable_def collect_hex_encoded del: map_map\<close>)

lemma inv_init: "cluster_inv C (cluster_new clk)"
proof -
  have "log_facts C (cluster_new clk i) = []" "get_cursor (cluster_new clk i) j = 0"
    "fact_log (cluster_new clk i) = []" for i j
    by (simp_all add: cluster_new_def store_new_def log_facts_def get_cursor_def)
  then have "known C (cluster_new clk) i = {}" for i by (simp add: known_def)
  moreover have "site_ok C (cluster_new clk) i" for i
    by (simp add: site_ok_def cluster_new_def log_readable_def, simp add: store_new_def get_cursor_def)
  ultimately show ?thesis
    by (simp add: cluster_inv_def rows_newest_def) (simp add: cluster_new_def store_new_def)
qed

lemma reachable_inv:
  assumes "reachable C \<sigma>" "hex_ok C" "json_ok C"
  shows "cluster_inv C \<sigma>"
  using assms by (induction) (auto intro: inv_init inv_step)

section \<open>Properties\<close>

lemma newest_written: "newest stamp (candidates wr k F) r \<Longrightarrow> r = Some v \<Longrightarrow> \<exists>f \<in> F. wr f = Some (k, v)"
  by (auto simp: candidates_def)

lemma newest_covers:
  assumes "newest stamp (candidates wr k F) r" "f \<in> F" "wr f = Some (k, v)"
  shows "\<exists>w. r = Some w \<and> stamp v \<le> stamp w"
proof -
  have "v \<in> candidates wr k F" using assms(2,3) by (auto simp: candidates_def)
  with assms(1) show ?thesis by (cases r) auto
qed

definition caught_up :: "cluster \<Rightarrow> location \<Rightarrow> bool" where
  "caught_up \<sigma> i \<longleftrightarrow> (\<forall>j. j \<noteq> i \<longrightarrow> get_cursor (\<sigma> i) j = int (length (fact_log (\<sigma> j))))"

lemma known_caught_up:
  assumes "cluster_inv C \<sigma>" "caught_up \<sigma> i"
  shows "known C \<sigma> i = all_facts C \<sigma>"
proof -
  have "set (take (nat (get_cursor (\<sigma> i) j)) (log_facts C (\<sigma> j))) = set (log_facts C (\<sigma> j))" if "j \<noteq> i" for j
    using assms that by (simp add: caught_up_def cluster_inv_def site_ok_def log_facts_length)
  then have "set (log_facts C (\<sigma> j)) \<subseteq>
      set (log_facts C (\<sigma> i)) \<union> set (take (nat (get_cursor (\<sigma> i) j)) (log_facts C (\<sigma> j)))" for j
    by (cases "j = i") auto
  then have "known C \<sigma> i = set (log_facts C (\<sigma> i)) \<union> (\<Union>j. set (log_facts C (\<sigma> j)))"
    unfolding known_def by (intro UN_absorb) (simp_all add: le_supI2 set_take_subset)
  then show ?thesis by (auto simp: all_facts_def)
qed

lemma rows_newest_all:
  assumes "cluster_inv C \<sigma>" "caught_up \<sigma> i"
  shows "rows_newest C (all_facts C \<sigma>) (\<sigma> i)"
proof -
  have "rows_newest C (known C \<sigma> i) (\<sigma> i)" using assms(1) by (simp add: cluster_inv_def)
  then show ?thesis by (simp only: known_caught_up [OF assms])
qed

lemma caught_up_agree:
  assumes "reachable C \<sigma>" "hex_ok C" "json_ok C"
    and "caught_up \<sigma> i" "caught_up \<sigma> j"
    and "\<And>k. tie_free obj_updated_at (candidates (fact_object C) k (all_facts C \<sigma>))"
    and "\<And>k. tie_free usr_updated_at (candidates fact_user k (all_facts C \<sigma>))"
  shows "get_object (\<sigma> i) = get_object (\<sigma> j) \<and> get_user C (\<sigma> i) = get_user C (\<sigma> j)"
proof -
  note inv = reachable_inv [OF assms(1-3)]
  note r = rows_newest_all [OF inv assms(4)] rows_newest_all [OF inv assms(5)]
  have "map_of (objects (\<sigma> i)) k = map_of (objects (\<sigma> j)) k" for k
    by (rule newest_unique [OF _ _ assms(6) [of k]]) (use r in \<open>simp_all only: rows_newest_def\<close>)
  moreover have "map_of (users (\<sigma> i)) u = map_of (users (\<sigma> j)) u" for u
    by (rule newest_unique [OF _ _ assms(7) [of u]]) (use r in \<open>simp_all only: rows_newest_def\<close>)
  ultimately show ?thesis by (simp add: get_object_def get_user_def fun_eq_iff)
qed

text \<open>
  C1. Convergence: in every state the cluster can reach, two sites that have pulled every log to its
  end serve the same objects and the same credentials, whatever was written where, in whatever order
  and however interleaved the pulls and the background tasks were, provided no two different rows
  written to the same key carry the same timestamp.
\<close>

theorem cluster_converges:
  assumes "reachable C \<sigma>" "hex_ok C" "json_ok C"
    and "caught_up \<sigma> i" "caught_up \<sigma> j"
    and "\<And>k. tie_free obj_updated_at (candidates (fact_object C) k (all_facts C \<sigma>))"
    and "\<And>k. tie_free usr_updated_at (candidates fact_user k (all_facts C \<sigma>))"
  shows "get_object (\<sigma> i) = get_object (\<sigma> j) \<and> get_user C (\<sigma> i) = get_user C (\<sigma> j)"
  using assms by (rule caught_up_agree)

definition demo_site :: Store where
  "demo_site = delete_object demo_crates 7 ''b'' ''k'' (store_new ''a'' (clock_new 0))"

lemma demo_site_facts:
  "store_ok demo_site" "log_readable demo_crates demo_site" "length (fact_log demo_site) = 1"
  "local_location_id demo_site = ''a''" "get_cursor demo_site j = 0"
  "log_facts demo_crates demo_site = [\<lparr>rec_seq = 1, rec_ts = 7, rec_fact = ObjectDelete ''b'' ''k''\<rparr>]"
proof -
  show "store_ok demo_site" by (simp add: demo_site_def)
  show "log_readable demo_crates demo_site" "length (fact_log demo_site) = 1"
    using demo_log_readable by (simp_all add: demo_site_def)
  show "local_location_id demo_site = ''a''" "get_cursor demo_site j = 0"
    "log_facts demo_crates demo_site = [\<lparr>rec_seq = 1, rec_ts = 7, rec_fact = ObjectDelete ''b'' ''k''\<rparr>]"
    by (simp_all add: demo_site_def delete_object_def append_fact_tx_def put_object_row_def store_new_def
        Let_def get_cursor_def log_facts_def read_log_row_def demo_json_ok next_seq_def store_now_micros_def
        clock_now_micros_def clock_new_def in_i64_def)
qed

text \<open>One page suffices when fewer facts than a page are missing.\<close>

lemma pull_last_page:
  assumes "reachable C \<sigma>" "hex_ok C" "json_ok C" "i \<noteq> j"
    and "int (length (fact_log (\<sigma> j))) < get_cursor (\<sigma> i) j + 500"
  obtains s' qs where "cluster_step C \<sigma> (\<sigma>(i := s'))" "fact_log s' = fact_log (\<sigma> i)"
    and "get_cursor s' = (get_cursor (\<sigma> i))(j := int (length (fact_log (\<sigma> j))))"
    and "map snd qs = drop (nat (get_cursor (\<sigma> i) j)) (log_facts C (\<sigma> j))"
    and "objects s' = objects (fold (apply_or_skip C) qs (\<sigma> i))"
proof -
  let ?c = "get_cursor (\<sigma> i) j"
  let ?page = "take 500 (drop (nat ?c) (log_facts C (\<sigma> j)))"
  let ?r = "apply_page C (\<lambda>_. 0) 1 ?page ?c (\<sigma> i)"
  let ?s = "set_cursor j (fst (snd ?r)) (snd (snd ?r))"
  from reachable_inv [OF assms(1-3)] have ok: "store_ok (\<sigma> j)" "log_readable C (\<sigma> j)" "0 \<le> ?c"
    "?c \<le> int (length (fact_log (\<sigma> j)))" by (simp_all add: cluster_inv_def site_ok_def)
  define s' where "s' = (if ?page = [] then \<sigma> i else ?s)"
  have len: "?c + int (length ?page) = int (length (fact_log (\<sigma> j)))"
    using ok assms(5) by (simp add: log_facts_length min_def)
  have "sync_round C (\<lambda>_. 0) (\<lambda>n after. facts_since C (\<sigma> j) after FACT_SYNC_BATCH) j 0 (\<sigma> i) =
      Inl (if ?page = [] then 1 else fst ?r, s')"
    using page_of_log(1) [OF ok] len assms(5)
    by (simp add: sync_round_def Let_def FACT_SYNC_BATCH_def s'_def del: take_eq_Nil)
  then have step: "cluster_step C \<sigma> (\<sigma>(i := s'))"
    by (intro cluster_step.pull [OF assms(4)]) blast
  obtain qs where qs: "map snd qs = ?page" "advances C (\<sigma> i) qs j (?c + int (length qs)) ?s"
    using advances_page [OF ok refl, of "\<lambda>_. 0" 1] by blast
  have "length qs = length ?page" using arg_cong [OF qs(1), of length] by simp
  with qs(2) len have "get_cursor ?s = (get_cursor (\<sigma> i))(j := int (length (fact_log (\<sigma> j))))"
    by (simp add: advances_def)
  moreover from qs(2) have keeps: "fact_log ?s = fact_log (\<sigma> i)" "objects ?s = objects (fold (apply_or_skip C) qs (\<sigma> i))"
    unfolding advances_def by force+
  moreover have "?page = [] \<Longrightarrow> int (length (fact_log (\<sigma> j))) = ?c" using len by (simp del: take_eq_Nil)
  ultimately have "fact_log s' = fact_log (\<sigma> i)"
    "get_cursor s' = (get_cursor (\<sigma> i))(j := int (length (fact_log (\<sigma> j))))"
    by (cases "?page = []"; simp add: s'_def del: take_eq_Nil)+
  moreover have "objects s' = objects (fold (apply_or_skip C) qs (\<sigma> i))"
    using keeps(2) qs(1) by (cases "?page = []"; simp add: s'_def del: take_eq_Nil)
  moreover have "map snd qs = drop (nat ?c) (log_facts C (\<sigma> j))"
    using len ok(3) by (simp add: qs(1) log_facts_length [OF ok(2)] min_def split: if_splits)
  ultimately show thesis using step by (intro that)
qed

lemma demo_reachable: "reachable demo_crates ((cluster_new (\<lambda>_. clock_new 0))(''a'' := demo_site))"
  unfolding demo_site_def
  using reachable.step [OF reachable.init cluster_step.delete [of _ "cluster_new (\<lambda>_. clock_new 0)" "''a''"]]
  by (simp add: cluster_new_def)

text \<open>A cluster in which site \<open>a\<close> deleted a key and site \<open>b\<close> pulled that fact.\<close>

lemma demo_cluster:
  obtains s' where "reachable demo_crates ((cluster_new (\<lambda>_. clock_new 0))(''a'' := demo_site, ''b'' := s'))"
    and "get_cursor s' = (\<lambda>_. 0)(''a'' := 1)" "fact_log s' = []"
proof -
  let ?\<sigma> = "(cluster_new (\<lambda>_. clock_new 0))(''a'' := demo_site)"
  note r = demo_reachable
  have c: "get_cursor (?\<sigma> ''b'') = (\<lambda>_. 0)" "fact_log (?\<sigma> ''b'') = []" "?\<sigma> ''a'' = demo_site"
    by (simp_all add: cluster_new_def get_cursor_def store_new_def fun_eq_iff)
  obtain s' where s': "cluster_step demo_crates ?\<sigma> (?\<sigma>(''b'' := s'))" "fact_log s' = fact_log (?\<sigma> ''b'')"
    "get_cursor s' = (get_cursor (?\<sigma> ''b''))(''a'' := int (length (fact_log (?\<sigma> ''a''))))"
    by (rule pull_last_page [OF r demo_hex_ok demo_json_ok, of "''b''" "''a''"])
      (simp_all add: c demo_site_facts(3) del: fun_upd_apply)
  show thesis
    using s'(2,3) by (intro that [OF reachable.step [OF r s'(1)]]) (simp_all only: c demo_site_facts(3) of_nat_1)
qed

theorem cluster_converges_witness:
  "\<exists>\<sigma>. reachable demo_crates \<sigma> \<and> fact_log (\<sigma> ''a'') \<noteq> [] \<and> get_object (\<sigma> ''a'') = get_object (\<sigma> ''b'')"
proof -
  obtain s' where s': "reachable demo_crates ((cluster_new (\<lambda>_. clock_new 0))(''a'' := demo_site, ''b'' := s'))"
      (is "reachable _ ?\<sigma>")
    "get_cursor s' = (\<lambda>_. 0)(''a'' := 1)" "fact_log s' = []" by (rule demo_cluster)
  have "log_facts demo_crates (?\<sigma> i) = (if i = ''a'' then log_facts demo_crates demo_site else [])" for i
    using s'(3) by (simp add: log_facts_def cluster_new_def store_new_def)
  then have "all_facts demo_crates ?\<sigma> = set (log_facts demo_crates demo_site)"
    by (auto simp: all_facts_def)
  moreover have "fact_log (?\<sigma> i) = (if i = ''a'' then fact_log demo_site else [])" for i
    using s'(3) by (simp add: cluster_new_def store_new_def)
  then have "caught_up ?\<sigma> ''a''" "caught_up ?\<sigma> ''b''"
    by (simp_all add: caught_up_def s'(2) demo_site_facts) (simp add: cluster_new_def store_new_def)
  ultimately have "get_object (?\<sigma> ''a'') = get_object (?\<sigma> ''b'')"
    using cluster_converges [OF s'(1) demo_hex_ok demo_json_ok, of "''a''" "''b''"]
    by (simp add: demo_site_facts(6) fact_rows tie_free_def)
  with s'(1) demo_site_facts(3) show ?thesis by (intro exI [of _ ?\<sigma>]) auto
qed

text \<open>
  C3. Last write wins, at every moment: in every reachable state, every object row and every credential row a site
  holds was written by a fact that the site has logged itself or pulled, and a site that has seen a write to a key
  holds a row for it that is at least as new. A newer write seen is never lost to an older one, no row is made up,
  and a key that was never written has no row.
\<close>

theorem reachable_rows_newest:
  assumes "reachable C \<sigma>" "hex_ok C" "json_ok C"
  shows "(\<forall>bk row. map_of (objects (\<sigma> i)) bk = Some row \<longrightarrow> (\<exists>f \<in> known C \<sigma> i. fact_object C f = Some (bk, row))) \<and>
    (\<forall>f \<in> known C \<sigma> i. \<forall>bk v. fact_object C f = Some (bk, v) \<longrightarrow>
       (\<exists>row. map_of (objects (\<sigma> i)) bk = Some row \<and> obj_updated_at v \<le> obj_updated_at row)) \<and>
    (\<forall>ak row. map_of (users (\<sigma> i)) ak = Some row \<longrightarrow> (\<exists>f \<in> known C \<sigma> i. fact_user f = Some (ak, row))) \<and>
    (\<forall>f \<in> known C \<sigma> i. \<forall>ak v. fact_user f = Some (ak, v) \<longrightarrow>
       (\<exists>row. map_of (users (\<sigma> i)) ak = Some row \<and> usr_updated_at v \<le> usr_updated_at row))"
proof -
  have "rows_newest C (known C \<sigma> i) (\<sigma> i)" using reachable_inv [OF assms] by (simp add: cluster_inv_def)
  then have n: "newest obj_updated_at (candidates (fact_object C) bk (known C \<sigma> i)) (map_of (objects (\<sigma> i)) bk)"
    "newest usr_updated_at (candidates fact_user ak (known C \<sigma> i)) (map_of (users (\<sigma> i)) ak)" for bk ak
    by (simp_all only: rows_newest_def)
  show ?thesis
    by (intro conjI allI impI ballI newest_written [OF n(1)] newest_written [OF n(2)] newest_covers [OF n(1)] newest_covers [OF n(2)])
qed

theorem reachable_rows_newest_witness:
  "\<exists>\<sigma>. reachable demo_crates \<sigma> \<and> (\<exists>row. map_of (objects (\<sigma> ''b'')) (''b'', ''k'') = Some row \<and> 7 \<le> obj_updated_at row)"
proof -
  obtain s' where s': "reachable demo_crates ((cluster_new (\<lambda>_. clock_new 0))(''a'' := demo_site, ''b'' := s'))"
      (is "reachable _ ?\<sigma>")
    "get_cursor s' = (\<lambda>_. 0)(''a'' := 1)" "fact_log s' = []" by (rule demo_cluster)
  let ?r = "\<lparr>rec_seq = 1, rec_ts = 7, rec_fact = ObjectDelete ''b'' ''k''\<rparr>"
  have "?r \<in> set (take (nat (get_cursor (?\<sigma> ''b'') ''a'')) (log_facts demo_crates (?\<sigma> ''a'')))"
    by (simp add: s'(2) demo_site_facts(6))
  then have "?r \<in> known demo_crates ?\<sigma> ''b''" unfolding known_def by blast
  moreover have "fact_object demo_crates ?r = Some ((''b'', ''k''), tombstone demo_crates ''k'' 7)" by (simp add: fact_object_def)
  ultimately have "\<exists>row. map_of (objects (?\<sigma> ''b'')) (''b'', ''k'') = Some row \<and> 7 \<le> obj_updated_at row"
    using reachable_rows_newest [OF s'(1) demo_hex_ok demo_json_ok, of "''b''"] by (fastforce simp: tombstone_def)
  with s'(1) show ?thesis by blast
qed

end
