(* ===== verification/Convergence.thy ===== *)
theory Convergence
  imports Cluster
begin

text \<open>
  What the anti-entropy loop achieves for the cluster: \<^verbatim>\<open>sync_facts_once\<close> of \<^verbatim>\<open>src/src/main.rs\<close> terminates,
  brings a site up to date, and after one pass at each of two sites they agree. It also shows the two
  limits of the scheme: equal timestamps, and facts that cannot be applied.
\<close>

section \<open>A pass over the peers\<close>

text \<open>
  A peer serves its log when a request after a position of the log is answered with the next page. A
  run of the loop for such a peer is a sequence of steps of the cluster.
\<close>

definition serves :: "Crates \<Rightarrow> Store \<Rightarrow> (nat \<Rightarrow> int \<Rightarrow> FactRecord list result) \<Rightarrow> bool" where
  "serves C t fetch \<longleftrightarrow>
     (\<forall>n after. 0 \<le> after \<longrightarrow> after \<le> int (length (fact_log t)) \<longrightarrow> fetch n after = facts_since C t after FACT_SYNC_BATCH)"

lemma reachable_cursor:
  assumes "reachable C \<sigma>" "hex_ok C" "json_ok C" "i \<noteq> j"
  shows "store_ok (\<sigma> j)" "log_readable C (\<sigma> j)" "0 \<le> get_cursor (\<sigma> i) j"
    "get_cursor (\<sigma> i) j \<le> int (length (fact_log (\<sigma> j)))"
proof -
  have "site_ok C \<sigma> i" "site_ok C \<sigma> j"
    using reachable_inv [OF assms(1-3)] unfolding cluster_inv_def by blast+
  then show "store_ok (\<sigma> j)" "log_readable C (\<sigma> j)" "0 \<le> get_cursor (\<sigma> i) j"
    "get_cursor (\<sigma> i) j \<le> int (length (fact_log (\<sigma> j)))"
    using assms(4) unfolding site_ok_def by blast+
qed

lemma sync_peer_steps:
  assumes "sync_peer C sys fetch j n s = Some r"
  shows "\<forall>i \<sigma>. hex_ok C \<longrightarrow> json_ok C \<longrightarrow> i \<noteq> j \<longrightarrow> serves C (\<sigma> j) fetch \<longrightarrow>
    reachable C (\<sigma>(i := s)) \<longrightarrow> reachable C (\<sigma>(i := snd r))"
proof (rule sync_peer.raw_induct [OF _ assms, where P = "\<lambda>C sys fetch j n s r. \<forall>i \<sigma>. hex_ok C \<longrightarrow> json_ok C \<longrightarrow>
      i \<noteq> j \<longrightarrow> serves C (\<sigma> j) fetch \<longrightarrow> reachable C (\<sigma>(i := s)) \<longrightarrow> reachable C (\<sigma>(i := snd r))"])
  fix sync and C :: Crates and sys fetch peer n s r
  assume IH: "\<And>C sys fetch peer n s r. sync C sys fetch peer n s = Some r \<Longrightarrow> \<forall>i \<sigma>. hex_ok C \<longrightarrow> json_ok C \<longrightarrow>
      i \<noteq> peer \<longrightarrow> serves C (\<sigma> peer) fetch \<longrightarrow> reachable C (\<sigma>(i := s)) \<longrightarrow> reachable C (\<sigma>(i := snd r))"
    and body: "(case sync_round C sys fetch peer n s of Inl r \<Rightarrow> Some r | Inr r \<Rightarrow> sync C sys fetch peer (fst r) (snd r)) = Some r"
  show "\<forall>i \<sigma>. hex_ok C \<longrightarrow> json_ok C \<longrightarrow> i \<noteq> peer \<longrightarrow> serves C (\<sigma> peer) fetch \<longrightarrow>
      reachable C (\<sigma>(i := s)) \<longrightarrow> reachable C (\<sigma>(i := snd r))"
  proof (intro allI impI)
    fix i \<sigma>
    assume ok: "hex_ok C" "json_ok C" and i: "i \<noteq> peer" and fetch: "serves C (\<sigma> peer) fetch"
      and reach: "reachable C (\<sigma>(i := s))"
    have "0 \<le> get_cursor s peer" "get_cursor s peer \<le> int (length (fact_log (\<sigma> peer)))"
      using reachable_cursor(3,4) [OF reach ok i] i by simp_all
    then have f: "sync_round C sys fetch peer n s =
        sync_round C sys (\<lambda>n after. facts_since C ((\<sigma>(i := s)) peer) after FACT_SYNC_BATCH) peer n s"
      using fetch i by (intro sync_round_cong) (simp add: serves_def)
    have step: "reachable C (\<sigma>(i := s1))" if "sync_round C sys fetch peer n s \<in> {Inl (n1, s1), Inr (n1, s1)}" for n1 s1
      using reachable.step [OF reach cluster_step.pull [OF i, of C sys "\<sigma>(i := s)" n n1 s1]] that f by simp
    show "reachable C (\<sigma>(i := snd r))"
    proof (cases "sync_round C sys fetch peer n s")
      case (Inl q)
      with body step [of "fst q" "snd q"] show ?thesis by simp
    next
      case (Inr q)
      with body IH [of C sys fetch peer "fst q" "snd q" r] step [of "fst q" "snd q"] i fetch ok show ?thesis by simp
    qed
  qed
qed

lemma advances_log: "advances C s qs peer c s' \<Longrightarrow> fact_log s' = fact_log s"
  by (auto simp: advances_def)

text \<open>A pass over peers with readable logs returns and ends at the end of each of their logs.\<close>

lemma sync_pass:
  assumes "hex_ok C" "json_ok C" "i \<notin> set ps"
    and "\<And>j. j \<in> set ps \<Longrightarrow> serves C (\<sigma> j) (fetch (url j))"
    and "reachable C (\<sigma>(i := s))"
  shows "\<exists>n' s'. sync_facts_once C sys fetch (map (\<lambda>j. (j, url j)) ps) n s = Some (n', s') \<and>
    reachable C (\<sigma>(i := s')) \<and> fact_log s' = fact_log s \<and>
    get_cursor s' = (\<lambda>j. if j \<in> set ps then int (length (fact_log (\<sigma> j))) else get_cursor s j)"
  using assms(3-5)
proof (induction ps arbitrary: n s)
  case (Cons j ps)
  have ij: "i \<noteq> j" using Cons.prems(1) by auto
  have served: "serves C (\<sigma> j) (fetch (url j))" using Cons.prems(2) by simp
  have "store_ok (\<sigma> j)" "log_readable C (\<sigma> j)" "0 \<le> get_cursor s j" "get_cursor s j \<le> int (length (fact_log (\<sigma> j)))"
    using reachable_cursor [OF Cons.prems(3) assms(1,2) ij] ij by simp_all
  then obtain n1 s1 qs where s1: "sync_peer C sys (fetch (url j)) j n s = Some (n1, s1)"
    "advances C s qs j (int (length (fact_log (\<sigma> j)))) s1"
    using sync_catches_up [of "\<sigma> j" C "fetch (url j)" s j sys n] served unfolding serves_def by blast
  have r1: "reachable C (\<sigma>(i := s1))"
    using sync_peer_steps [OF s1(1), rule_format, OF assms(1,2) ij served Cons.prems(3)] by (simp only: snd_conv)
  have "i \<notin> set ps" "\<And>l. l \<in> set ps \<Longrightarrow> serves C (\<sigma> l) (fetch (url l))"
    using Cons.prems(1,2) by simp_all
  from Cons.IH [OF this r1, of n1] obtain n' s' where
    s': "sync_facts_once C sys fetch (map (\<lambda>j. (j, url j)) ps) n1 s1 = Some (n', s')" "reachable C (\<sigma>(i := s'))"
    "fact_log s' = fact_log s1"
    "get_cursor s' = (\<lambda>j. if j \<in> set ps then int (length (fact_log (\<sigma> j))) else get_cursor s1 j)"
    by blast
  have "get_cursor s1 = (get_cursor s)(j := int (length (fact_log (\<sigma> j))))"
    using s1(2) by (simp only: advances_def)
  then have "get_cursor s' = (\<lambda>l. if l \<in> set (j # ps) then int (length (fact_log (\<sigma> l))) else get_cursor s l)"
    by (auto simp: s'(4))
  moreover have "sync_facts_once C sys fetch (map (\<lambda>j. (j, url j)) (j # ps)) n s = Some (n', s')"
    using s1(1) s'(1) by simp
  ultimately show ?case using s'(2,3) advances_log [OF s1(2)] by metis
qed simp


section \<open>Properties\<close>

lemma all_facts_update: "fact_log s = fact_log (\<sigma> i) \<Longrightarrow> all_facts C (\<sigma>(i := s)) = all_facts C \<sigma>"
  unfolding all_facts_def using log_facts_cong [of s "\<sigma> i" C] by (intro SUP_cong) auto

lemma passed_caught_up:
  assumes "reachable C \<tau>" "hex_ok C" "json_ok C" "\<forall>l. l \<noteq> a \<longrightarrow> l \<notin> set ps \<longrightarrow> fact_log (\<tau> l) = []"
    and "\<And>l. l \<in> set ps \<Longrightarrow> get_cursor (\<tau> a) l = int (length (fact_log (\<tau> l)))"
  shows "caught_up \<tau> a"
proof -
  have "get_cursor (\<tau> a) l = int (length (fact_log (\<tau> l)))" if "l \<noteq> a" for l
  proof (cases "l \<in> set ps")
    case False
    with assms(4) that have "fact_log (\<tau> l) = []" by blast
    with reachable_cursor(3,4) [OF assms(1-3), of a l] that show ?thesis by simp
  qed (rule assms(5))
  then show ?thesis unfolding caught_up_def by blast
qed

lemma passes_converge:
  assumes "reachable C \<sigma>" "hex_ok C" "json_ok C" "i \<noteq> j"
    and "i \<notin> set ps" "j \<notin> set qs" "\<forall>l. l \<noteq> i \<longrightarrow> l \<notin> set ps \<longrightarrow> fact_log (\<sigma> l) = []"
    and "\<forall>l. l \<noteq> j \<longrightarrow> l \<notin> set qs \<longrightarrow> fact_log (\<sigma> l) = []"
    and "\<And>l. l \<in> set ps \<union> set qs \<Longrightarrow> serves C (\<sigma> l) (fetch (url l))"
    and "\<And>k. tie_free obj_updated_at (candidates (fact_object C) k (all_facts C \<sigma>))"
    and "\<And>k. tie_free usr_updated_at (candidates fact_user k (all_facts C \<sigma>))"
  shows "\<exists>n s m t. sync_facts_once C sys fetch (map (\<lambda>l. (l, url l)) ps) 0 (\<sigma> i) = Some (n, s) \<and>
    sync_facts_once C sys fetch (map (\<lambda>l. (l, url l)) qs) 0 (\<sigma> j) = Some (m, t) \<and>
    caught_up (\<sigma>(i := s, j := t)) i \<and> caught_up (\<sigma>(i := s, j := t)) j \<and>
    get_object s = get_object t \<and> get_user C s = get_user C t"
proof -
  have "reachable C (\<sigma>(i := \<sigma> i))" using assms(1) by simp
  from sync_pass [OF assms(2,3,5) _ this, of fetch url sys 0] assms(9)
  obtain n s where s: "sync_facts_once C sys fetch (map (\<lambda>l. (l, url l)) ps) 0 (\<sigma> i) = Some (n, s)"
    "reachable C (\<sigma>(i := s))" "fact_log s = fact_log (\<sigma> i)"
    "get_cursor s = (\<lambda>l. if l \<in> set ps then int (length (fact_log (\<sigma> l))) else get_cursor (\<sigma> i) l)"
    by blast
  have "(\<sigma>(i := s))(j := \<sigma> j) = \<sigma>(i := s)" using assms(4) by (simp add: fun_eq_iff)
  then have "reachable C ((\<sigma>(i := s))(j := \<sigma> j))" using s(2) by simp
  moreover have "serves C ((\<sigma>(i := s)) l) (fetch (url l))" if "l \<in> set qs" for l
    using assms(9) [of l] that s(3) by (cases "l = i") (simp_all add: serves_def facts_since_def)
  ultimately obtain m t where t: "sync_facts_once C sys fetch (map (\<lambda>l. (l, url l)) qs) 0 (\<sigma> j) = Some (m, t)"
    "reachable C (\<sigma>(i := s, j := t))" "fact_log t = fact_log (\<sigma> j)"
    "get_cursor t = (\<lambda>l. if l \<in> set qs then int (length (fact_log ((\<sigma>(i := s)) l))) else get_cursor (\<sigma> j) l)"
    using sync_pass [OF assms(2,3,6), of "\<sigma>(i := s)" fetch url "\<sigma> j" sys 0] by blast
  let ?\<tau> = "\<sigma>(i := s, j := t)"
  have logs: "fact_log (?\<tau> l) = fact_log (\<sigma> l)" for l using s(3) t(3) by simp
  have "get_cursor (?\<tau> i) l = int (length (fact_log (?\<tau> l)))" if "l \<in> set ps" for l
    unfolding logs using that assms(4) s(4) by simp
  moreover have "get_cursor (?\<tau> j) l = int (length (fact_log (?\<tau> l)))" if "l \<in> set qs" for l
    unfolding logs using that t(4) s(3) by simp
  ultimately have up: "caught_up ?\<tau> i" "caught_up ?\<tau> j"
    using passed_caught_up [OF t(2) assms(2,3)] assms(7,8) unfolding logs by blast+
  have "all_facts C ?\<tau> = all_facts C \<sigma>"
    using all_facts_update [of t "\<sigma>(i := s)" j C] all_facts_update [of s \<sigma> i C] s(3) t(3) assms(4) by simp
  then have "tie_free obj_updated_at (candidates (fact_object C) k (all_facts C ?\<tau>))"
    "tie_free usr_updated_at (candidates fact_user u (all_facts C ?\<tau>))" for k u using assms(10,11) by simp_all
  note c = caught_up_agree [OF t(2) assms(2,3) up this]
  then have "get_object s = get_object t" "get_user C s = get_user C t" using assms(4) by simp_all
  with s(1) t(1) up show ?thesis by blast
qed

text \<open>
  Eventual convergence: once no more is written, in every state the cluster can reach, one pass of
  \<^verbatim>\<open>sync_facts_once\<close> at a site over its peers and then one pass at another site, in any order of the
  peers, both return, each leaves its site caught up with every log, and afterwards the two sites
  serve the same objects and the same credentials, provided that different rows written to one key
  carry different timestamps.
\<close>

theorem eventual_convergence:
  assumes "reachable C \<sigma>" "hex_ok C" "json_ok C" "i \<noteq> j"
    and "i \<notin> set ps" "j \<notin> set qs" "\<forall>l. l \<noteq> i \<longrightarrow> l \<notin> set ps \<longrightarrow> fact_log (\<sigma> l) = []"
    and "\<forall>l. l \<noteq> j \<longrightarrow> l \<notin> set qs \<longrightarrow> fact_log (\<sigma> l) = []"
    and "\<And>l. l \<in> set ps \<union> set qs \<Longrightarrow> serves C (\<sigma> l) (fetch (url l))"
    and "\<And>k. tie_free obj_updated_at (candidates (fact_object C) k (all_facts C \<sigma>))"
    and "\<And>k. tie_free usr_updated_at (candidates fact_user k (all_facts C \<sigma>))"
  shows "\<exists>n s m t. sync_facts_once C sys fetch (map (\<lambda>l. (l, url l)) ps) 0 (\<sigma> i) = Some (n, s) \<and>
    sync_facts_once C sys fetch (map (\<lambda>l. (l, url l)) qs) 0 (\<sigma> j) = Some (m, t) \<and>
    caught_up (\<sigma>(i := s, j := t)) i \<and> caught_up (\<sigma>(i := s, j := t)) j \<and>
    get_object s = get_object t \<and> get_user C s = get_user C t"
  using assms by (rule passes_converge)


theorem eventual_convergence_witness:
  "let \<sigma> = (cluster_new (\<lambda>_. clock_new 0))(''a'' := demo_site);
       fetch = (\<lambda>url n after. facts_since demo_crates (\<sigma> url) after FACT_SYNC_BATCH)
   in \<exists>n s m t. sync_facts_once demo_crates (\<lambda>_. 0) fetch [(''b'', ''b'')] 0 (\<sigma> ''a'') = Some (n, s) \<and>
        sync_facts_once demo_crates (\<lambda>_. 0) fetch [(''a'', ''a'')] 0 (\<sigma> ''b'') = Some (m, t) \<and> get_object s = get_object t"
proof -
  let ?\<sigma> = "(cluster_new (\<lambda>_. clock_new 0))(''a'' := demo_site)"
  have logs: "fact_log (?\<sigma> l) = (if l = ''a'' then fact_log demo_site else [])" for l
    by (simp add: cluster_new_def store_new_def)
  have "log_facts demo_crates (?\<sigma> l) = (if l = ''a'' then log_facts demo_crates demo_site else [])" for l
    by (simp add: log_facts_def cluster_new_def store_new_def)
  then have "all_facts demo_crates ?\<sigma> = set (log_facts demo_crates demo_site)" by (auto simp: all_facts_def)
  then have tf: "tie_free obj_updated_at (candidates (fact_object demo_crates) k (all_facts demo_crates ?\<sigma>))"
    "tie_free usr_updated_at (candidates fact_user u (all_facts demo_crates ?\<sigma>))" for k u
    by (simp_all add: demo_site_facts(6) fact_rows tie_free_def)
  from eventual_convergence [OF demo_reachable demo_hex_ok demo_json_ok, of "''a''" "''b''" "[''b'']" "[''a'']"
      "\<lambda>url n after. facts_since demo_crates (?\<sigma> url) after FACT_SYNC_BATCH" id "\<lambda>_. 0", OF _ _ _ _ _ _ tf]
  show ?thesis by (auto simp: logs Let_def serves_def simp del: sync_facts_once.simps fun_upd_apply)
qed

section \<open>Equal timestamps\<close>

lemma pull_objects:
  assumes "store_ok t" "log_readable C t" "0 \<le> get_cursor s j" "get_cursor s j \<le> int (length (fact_log t))"
    and "sync_round C sys (\<lambda>n after. facts_since C t after FACT_SYNC_BATCH) j n s \<in> {Inl (n', s'), Inr (n', s')}"
  shows "\<exists>qs. objects s' = objects (fold (apply_or_skip C) qs s)"
proof -
  let ?r = "apply_page C sys (Suc n) (take 500 (drop (nat (get_cursor s j)) (log_facts C t))) (get_cursor s j) s"
  let ?s' = "set_cursor j (fst (snd ?r)) (snd (snd ?r))"
  from assms(5) page_of_log(1) [OF assms(1-4)] have "s' = s \<or> s' = ?s'"
    by (auto simp: sync_round_def Let_def split: if_splits)
  moreover obtain qs where "advances C s qs j (get_cursor s j + int (length qs)) ?s'"
    using advances_page [OF assms(1-4) refl, of sys "Suc n"] by blast
  ultimately show ?thesis by (auto simp: advances_def intro: exI [of _ "[]"] exI [of _ qs])
qed

lemma log_and_apply_objects:
  "\<exists>qs. objects (log_and_apply C ts f s) = objects (fold (apply_or_skip C) qs s)"
  by (rule exI [of _ "[(0, own_record ts f s)]"]) (simp add: log_and_apply_def)

lemma known_all_facts: "known C \<sigma> i \<subseteq> all_facts C \<sigma>"
  by (auto simp: known_def all_facts_def dest: in_set_takeD)

lemma written_row:
  assumes "store_now_micros s sys = ts" "\<forall>row. map_of (objects s) (b, k) = Some row \<longrightarrow> obj_updated_at row < ts"
  shows "map_of (objects (insert_object C sys b sh k bs sz et s)) (b, k) =
    Some \<lparr>obj_blocks = encode_blocks bs, obj_size = sz, obj_etag = et, obj_shard_id = sh, obj_updated_at = ts,
      obj_deleted = False\<rparr>"
  using assms by (cases "map_of (objects s) (b, k)")
    (auto simp: insert_object_def Let_def put_object_row_def map_of_upsert_newer)

text \<open>
  A step of the cluster leaves the row of a key at a site alone or replaces it by a strictly newer one,
  so a row that carries the newest timestamp written for its key stays.
\<close>

lemma step_keeps_row:
  assumes "cluster_step C \<sigma> \<sigma>'" "reachable C \<sigma>" "hex_ok C" "json_ok C"
  shows "map_of (objects (\<sigma>' l)) bk = map_of (objects (\<sigma> l)) bk \<or>
    (\<exists>w. map_of (objects (\<sigma>' l)) bk = Some w \<and>
      (\<forall>v. map_of (objects (\<sigma> l)) bk = Some v \<longrightarrow> obj_updated_at v < obj_updated_at w))"
proof -
  have "\<exists>qs. objects (\<sigma>' l) = objects (fold (apply_or_skip C) qs (\<sigma> l))"
    using assms(1)
  proof cases
    case (pull i j sys n n' s')
    note cur = reachable_cursor [OF assms(2-4) pull(2)]
    from pull_objects [OF cur pull(3)] show ?thesis
      unfolding pull(1) by (cases "l = i") (auto intro: exI [of _ "[]"])
  next
    case (task i s')
    then show ?thesis using background_keeps(1) [OF task(2)] by (auto intro: exI [of _ "[]"])
  qed (auto simp: local_writes_as_facts assms(3) log_and_apply_objects intro: exI [of _ "[]"] exI [of _ "[q]" for q])
  then obtain qs where "objects (\<sigma>' l) = objects (fold (apply_or_skip C) qs (\<sigma> l))" by blast
  then show ?thesis using robjs.replay_keeps [of C qs "\<sigma> l" bk] by (simp only:)
qed

lemma newest_row_stays:
  assumes "(cluster_step C)\<^sup>*\<^sup>* \<sigma> \<tau>" "reachable C \<sigma>" "hex_ok C" "json_ok C"
    and "map_of (objects (\<sigma> l)) bk = Some v"
    and "\<forall>f \<in> all_facts C \<tau>. \<forall>row. fact_object C f = Some (bk, row) \<longrightarrow> obj_updated_at row \<le> obj_updated_at v"
  shows "map_of (objects (\<tau> l)) bk = Some v"
proof -
  have "reachable C \<tau> \<and> (map_of (objects (\<tau> l)) bk = Some v \<or>
      (\<exists>w. map_of (objects (\<tau> l)) bk = Some w \<and> obj_updated_at v < obj_updated_at w))"
    using assms(1)
  proof induction
    case base
    then show ?case using assms(2,5) by simp
  next
    case (step \<tau> \<tau>')
    have r: "reachable C \<tau>" using step.IH by blast
    have "reachable C \<tau>'" using r step.hyps(2) by (rule reachable.step)
    then show ?case using step.IH step_keeps_row [OF step.hyps(2) r assms(3,4), of l bk] by fastforce
  qed
  then have r: "reachable C \<tau>"
    and w: "map_of (objects (\<tau> l)) bk = Some v \<or>
      (\<exists>w. map_of (objects (\<tau> l)) bk = Some w \<and> obj_updated_at v < obj_updated_at w)" by blast+
  have "rows_newest C (known C \<tau> l) (\<tau> l)"
    using reachable_inv [OF r assms(3,4)] by (simp add: cluster_inv_def)
  then have n: "newest obj_updated_at (candidates (fact_object C) bk (known C \<tau> l)) (map_of (objects (\<tau> l)) bk)"
    by (simp only: rows_newest_def)
  have "obj_updated_at w \<le> obj_updated_at v" if "map_of (objects (\<tau> l)) bk = Some w" for w
    using newest_written [OF n that] assms(6) known_all_facts [of C \<tau> l] by blast
  with w show ?thesis by force
qed

text \<open>
  C35. Timestamps must differ for replication to converge. Two sites of any reachable cluster write
  different objects under one key at the same cluster time, which is later than what either has for the
  key. Whatever the cluster does afterwards (pulls in any order, background tasks, writes of other keys,
  further writes of this key that are not later), each of the two sites goes on serving the object it
  wrote itself, also when both have pulled every log to its end.
\<close>

theorem equal_timestamps_diverge:
  assumes "reachable C \<sigma>" "hex_ok C" "json_ok C" "i \<noteq> j" "hashes_ok bs" "hashes_ok bs'"
    and "store_now_micros (\<sigma> i) sys = ts" "store_now_micros (\<sigma> j) sys' = ts"
    and "\<forall>row. map_of (objects (\<sigma> i)) (b, k) = Some row \<longrightarrow> obj_updated_at row < ts"
    and "\<forall>row. map_of (objects (\<sigma> j)) (b, k) = Some row \<longrightarrow> obj_updated_at row < ts"
    and "(cluster_step C)\<^sup>*\<^sup>*
      (\<sigma>(i := insert_object C sys b (compute_shard_id (blake3 C) k) k bs sz et (\<sigma> i),
          j := insert_object C sys' b (compute_shard_id (blake3 C) k) k bs' sz' et' (\<sigma> j))) \<tau>"
    and "\<forall>f \<in> all_facts C \<tau>. \<forall>row. fact_object C f = Some ((b, k), row) \<longrightarrow> obj_updated_at row \<le> ts"
  shows "get_object (\<tau> i) b k = Some (bs, sz, et) \<and> get_object (\<tau> j) b k = Some (bs', sz', et')"
proof -
  let ?\<sigma>1 = "\<sigma>(i := insert_object C sys b (compute_shard_id (blake3 C) k) k bs sz et (\<sigma> i))"
  let ?\<sigma>2 = "?\<sigma>1(j := insert_object C sys' b (compute_shard_id (blake3 C) k) k bs' sz' et' (\<sigma> j))"
  let ?row = "\<lambda>bs sz et. \<lparr>obj_blocks = encode_blocks bs, obj_size = sz, obj_etag = et,
    obj_shard_id = compute_shard_id (blake3 C) k, obj_updated_at = ts, obj_deleted = False\<rparr>"
  have "reachable C ?\<sigma>1" by (rule reachable.step [OF assms(1) cluster_step.put])
  moreover have "cluster_step C ?\<sigma>1 ?\<sigma>2"
    using cluster_step.put [of C ?\<sigma>1 j sys' b k bs' sz' et'] assms(4) by simp
  ultimately have r: "reachable C ?\<sigma>2" by (rule reachable.step)
  have "map_of (objects (?\<sigma>2 i)) (b, k) = Some (?row bs sz et)"
    "map_of (objects (?\<sigma>2 j)) (b, k) = Some (?row bs' sz' et')"
    using written_row [OF assms(7,9)] written_row [OF assms(8,10)] assms(4) by simp_all
  then have "map_of (objects (\<tau> i)) (b, k) = Some (?row bs sz et)"
    "map_of (objects (\<tau> j)) (b, k) = Some (?row bs' sz' et')"
    using newest_row_stays [OF assms(11) r assms(2,3)] assms(12) by simp_all
  then show ?thesis using assms(5,6) by (simp add: get_object_def)
qed

text \<open>Two sites that write the same key at the same cluster time, before they hear of each other.\<close>

definition tie_site :: "location \<Rightarrow> string \<Rightarrow> Store" where
  "tie_site i etag = insert_object demo_crates 7 ''b'' (compute_shard_id (blake3 demo_crates) ''k'') ''k'' [] 0 etag (store_new i (clock_new 0))"

lemma tie_site_facts:
  "length (fact_log (tie_site i e)) = 1" "get_cursor (tie_site i e) = (\<lambda>_. 0)"
  "log_facts demo_crates (tie_site i e) = [\<lparr>rec_seq = 1, rec_ts = 7, rec_fact = ObjectPut ''b'' ''k'' [] 0 e\<rparr>]"
  by (simp_all add: tie_site_def insert_object_def append_fact_tx_def put_object_row_def store_new_def
      Let_def get_cursor_def log_facts_def read_log_row_def demo_json_ok next_seq_def store_now_micros_def
      clock_now_micros_def clock_new_def in_i64_def fun_eq_iff)

lemma tie_cluster:
  assumes "\<sigma> = (cluster_new (\<lambda>_. clock_new 0))(''a'' := tie_site ''a'' ''x'', ''b'' := tie_site ''b'' ''y'')"
  obtains \<tau> where "reachable demo_crates \<sigma>" "(cluster_step demo_crates)\<^sup>*\<^sup>* \<sigma> \<tau>" "caught_up \<tau> ''a''" "caught_up \<tau> ''b''"
    "all_facts demo_crates \<tau> = all_facts demo_crates \<sigma>"
proof -
  let ?new = "cluster_new (\<lambda>_. clock_new 0)"
  have put: "cluster_step demo_crates \<sigma> (\<sigma>(i := tie_site i e))" if "\<sigma> i = store_new i (clock_new 0)" for \<sigma> i e
    using cluster_step.put [of demo_crates \<sigma> i 7 "''b''" "''k''" "[]" 0 e] that by (simp add: tie_site_def)
  have "reachable demo_crates (?new(''a'' := tie_site ''a'' ''x''))"
    by (rule reachable.step [OF reachable.init put]) (simp add: cluster_new_def)
  then have r: "reachable demo_crates \<sigma>"
    unfolding assms by (rule reachable.step [OF _ put]) (simp add: cluster_new_def)
  obtain s where s: "cluster_step demo_crates \<sigma> (\<sigma>(''a'' := s))" "fact_log s = fact_log (\<sigma> ''a'')"
    "get_cursor s = (get_cursor (\<sigma> ''a''))(''b'' := int (length (fact_log (\<sigma> ''b''))))"
    by (rule pull_last_page [OF r demo_hex_ok demo_json_ok, of "''a''" "''b''"]) (simp_all add: assms tie_site_facts)
  have r2: "reachable demo_crates (\<sigma>(''a'' := s))" using r s(1) by (rule reachable.step)
  obtain t where t: "cluster_step demo_crates (\<sigma>(''a'' := s)) (\<sigma>(''a'' := s, ''b'' := t))" "fact_log t = fact_log (\<sigma> ''b'')"
    "get_cursor t = (get_cursor (\<sigma> ''b''))(''a'' := int (length (fact_log s)))"
    by (rule pull_last_page [OF r2 demo_hex_ok demo_json_ok, of "''b''" "''a''"]) (simp_all add: assms tie_site_facts s(2))
  have "caught_up (\<sigma>(''a'' := s, ''b'' := t)) ''a''" "caught_up (\<sigma>(''a'' := s, ''b'' := t)) ''b''"
    using s(2,3) t(2,3) by (simp_all add: assms caught_up_def tie_site_facts) (simp_all add: cluster_new_def store_new_def)
  moreover have "all_facts demo_crates (\<sigma>(''a'' := s, ''b'' := t)) = all_facts demo_crates \<sigma>"
    using all_facts_update [of t "\<sigma>(''a'' := s)" "''b''"] all_facts_update [of s \<sigma> "''a''"] s(2) t(2) by simp
  ultimately show thesis using r s(1) t(1) by (intro that [of "\<sigma>(''a'' := s, ''b'' := t)"]) simp_all
qed

theorem equal_timestamps_diverge_witness:
  "\<exists>\<sigma>. reachable demo_crates \<sigma> \<and> caught_up \<sigma> ''a'' \<and> caught_up \<sigma> ''b'' \<and>
     get_object (\<sigma> ''a'') ''b'' ''k'' = Some ([], 0, ''x'') \<and> get_object (\<sigma> ''b'') ''b'' ''k'' = Some ([], 0, ''y'')"
proof -
  let ?new = "cluster_new (\<lambda>_. clock_new 0)"
  let ?\<sigma> = "?new(''a'' := tie_site ''a'' ''x'', ''b'' := tie_site ''b'' ''y'')"
  obtain \<tau> where \<tau>: "reachable demo_crates ?\<sigma>" "(cluster_step demo_crates)\<^sup>*\<^sup>* ?\<sigma> \<tau>" "caught_up \<tau> ''a''" "caught_up \<tau> ''b''"
    "all_facts demo_crates \<tau> = all_facts demo_crates ?\<sigma>" by (rule tie_cluster [OF refl])
  have "log_facts demo_crates (?\<sigma> l) = (if l = ''a'' then log_facts demo_crates (tie_site ''a'' ''x'')
      else if l = ''b'' then log_facts demo_crates (tie_site ''b'' ''y'') else [])" for l
    by (simp add: log_facts_def cluster_new_def store_new_def)
  then have all: "\<forall>f \<in> all_facts demo_crates \<tau>. \<forall>row. fact_object demo_crates f = Some ((''b'', ''k''), row) \<longrightarrow> obj_updated_at row \<le> 7"
    unfolding \<tau>(5) by (auto simp: all_facts_def tie_site_facts fact_object_def split: if_splits)
  have reach: "reachable demo_crates \<tau>"
    using \<tau>(2,1) by (induction rule: rtranclp_induct) (blast intro: reachable.step)+
  have "store_now_micros (?new l) 7 = 7" "objects (?new l) = []" for l
    by (simp_all add: cluster_new_def store_new_def store_now_micros_def clock_now_micros_def clock_new_def in_i64_def)
  moreover have "?new l = store_new l (clock_new 0)" for l by (simp add: cluster_new_def)
  ultimately have "get_object (\<tau> ''a'') ''b'' ''k'' = Some ([], 0, ''x'') \<and> get_object (\<tau> ''b'') ''b'' ''k'' = Some ([], 0, ''y'')"
    using equal_timestamps_diverge [OF reachable.init demo_hex_ok demo_json_ok, of "''a''" "''b''" "[]" "[]" "\<lambda>_. clock_new 0"
        7 7 7 "''b''" "''k''" 0 "''x''" 0 "''y''" \<tau>] \<tau>(2) all by (simp add: tie_site_def hashes_ok_def)
  with reach \<tau>(3,4) show ?thesis by blast
qed


section \<open>Facts that cannot be applied\<close>

lemma apply_page_failing:
  assumes "\<forall>f \<in> set fs. \<forall>n s. apply_fact C n f s = Err"
  shows "apply_page C sys n fs m s = (n + length fs, m, s)"
  using assms by (induction fs arbitrary: n) auto

lemma sync_peer_no_result:
  assumes "sync_peer C sys fetch peer n s = Some r"
  shows "\<forall>c fs. get_cursor s peer = c \<longrightarrow> (\<forall>n. fetch n c = Ok fs) \<longrightarrow> length fs = 500 \<longrightarrow>
    \<not> (\<forall>f \<in> set fs. \<forall>n s. apply_fact C n f s = Err)"
proof (rule sync_peer.raw_induct [OF _ assms, where P = "\<lambda>C sys fetch peer n s r. \<forall>c fs. get_cursor s peer = c \<longrightarrow>
      (\<forall>n. fetch n c = Ok fs) \<longrightarrow> length fs = 500 \<longrightarrow> \<not> (\<forall>f \<in> set fs. \<forall>n s. apply_fact C n f s = Err)"])
  fix sync and C :: Crates and sys fetch peer n s r
  assume IH: "\<And>C sys fetch peer n s r. sync C sys fetch peer n s = Some r \<Longrightarrow> \<forall>c fs. get_cursor s peer = c \<longrightarrow>
      (\<forall>n. fetch n c = Ok fs) \<longrightarrow> length fs = 500 \<longrightarrow> \<not> (\<forall>f \<in> set fs. \<forall>n s. apply_fact C n f s = Err)"
    and body: "(case sync_round C sys fetch peer n s of Inl r \<Rightarrow> Some r | Inr r \<Rightarrow> sync C sys fetch peer (fst r) (snd r)) = Some r"
  show "\<forall>c fs. get_cursor s peer = c \<longrightarrow> (\<forall>n. fetch n c = Ok fs) \<longrightarrow> length fs = 500 \<longrightarrow>
      \<not> (\<forall>f \<in> set fs. \<forall>n s. apply_fact C n f s = Err)"
  proof (intro allI impI notI)
    fix c fs
    assume a: "get_cursor s peer = c" "\<forall>n. fetch n c = Ok fs" "length fs = 500" "\<forall>f \<in> set fs. \<forall>n s. apply_fact C n f s = Err"
    then have "sync_round C sys fetch peer n s = Inr (Suc n + 500, set_cursor peer c s)"
      by (auto simp: sync_round_def Let_def apply_page_failing FACT_SYNC_BATCH_def)
    with body have "sync C sys fetch peer (Suc n + 500) (set_cursor peer c s) = Some r" by simp
    moreover have "get_cursor (set_cursor peer c s) peer = c" using a(1) get_set_cursor_forward [of s peer c] by simp
    ultimately show False using IH a(2-4) by blast
  qed
qed

text \<open>
  C36. A full page of facts that cannot be applied stops replication from that peer, and from every peer
  after it, for good: the cursor stays, the same page is requested again and the loop never returns.
\<close>

theorem failing_page_never_returns:
  assumes "\<forall>n. fetch url n (get_cursor s peer) = Ok fs" "length fs = 500"
    and "\<forall>f \<in> set fs. \<forall>n s. apply_fact C n f s = Err"
  shows "sync_facts_once C sys fetch ((peer, url) # peers) n s = None"
proof -
  have "sync_peer C sys (fetch url) peer n s = None"
  proof (cases "sync_peer C sys (fetch url) peer n s")
    case (Some r)
    from sync_peer_no_result [OF this] assms show ?thesis by blast
  qed
  then show ?thesis by simp
qed

theorem failing_page_never_returns_witness:
  "sync_facts_once demo_crates (\<lambda>_. 0)
     (\<lambda>url n after. Ok (replicate 500 \<lparr>rec_seq = 1, rec_ts = 1, rec_fact = ObjectPut ''b'' ''k'' [''z''] 0 ''e''\<rparr>))
     [(''p'', ''u'')] 0 (store_new ''a'' (clock_new 0)) = None"
proof -
  have "hex_decode demo_crates ''z'' = Err" by (simp add: demo_crates_def)
  then show ?thesis
    by (intro failing_page_never_returns) (auto simp: apply_fact_def)
qed

end
