(* ===== verification/Internal.thy ===== *)
theory Internal
  imports Config Url_Text Convergence
begin

text \<open>
  The interface between sites in \<^verbatim>\<open>src/src/main.rs\<close> and \<^verbatim>\<open>noise_fetch_block\<close> of \<^verbatim>\<open>src/src/storage.rs\<close>: the
  handler of internal requests, the requests a site sends, joining a cluster, membership gossip and the
  link state of peers. The connection (TCP, the Noise handshake, HTTP and the timeouts) is one
  function from a host and a request to an answer or a failure; the crates for URIs, header values and
  JSON bodies are a record with the laws the code relies on.
\<close>

section \<open>Requests and answers\<close>

record Request =
  req_path :: string
  req_query :: "string option"
  req_secret :: "string option"

record Response =
  resp_status :: nat
  resp_body :: bytes

record ClusterConfigResponse =
  cluster_time_micros :: int
  ccr_location_id :: string
  ccr_advertise_addr :: string

record Http =
  uri_parse :: "string \<Rightarrow> (string \<times> string option) result"
  header_text :: "string \<Rightarrow> string option result"
  config_to_vec :: "ClusterConfigResponse \<Rightarrow> bytes result"
  config_from_slice :: "bytes \<Rightarrow> ClusterConfigResponse result"
  nodes_to_vec :: "(location \<times> string) list \<Rightarrow> bytes result"
  nodes_from_slice :: "bytes \<Rightarrow> (location \<times> string) list result"
  facts_to_vec :: "FactRecord list \<Rightarrow> bytes result"
  facts_from_slice :: "bytes \<Rightarrow> FactRecord list result"

text \<open>\<open>header_text\<close> is what the receiver reads of a header value: nothing when it is not visible ASCII.\<close>

abbreviation reply_with :: "nat \<Rightarrow> bytes \<Rightarrow> Response run" where
  "reply_with code body \<equiv> Value \<lparr>resp_status = code, resp_body = body\<rparr>"

definition default_vec :: "bytes result \<Rightarrow> bytes" where
  "default_vec r = (case r of Ok b \<Rightarrow> b | Err \<Rightarrow> [])"

section \<open>The handler\<close>

text \<open>The last \<^verbatim>\<open>id\<close> and the last \<^verbatim>\<open>addr\<close> of the query count.\<close>

fun join_params :: "(string \<times> string) list \<Rightarrow> string \<times> string \<Rightarrow> string \<times> string" where
  "join_params [] (i, a) = (i, a)"
| "join_params ((k, v) # ps) (i, a) =
     join_params ps (if k = ''id'' then (v, a) else if k = ''addr'' then (i, v) else (i, a))"

definition handle_join :: "'b Env \<Rightarrow> string option \<Rightarrow> 'b Site \<Rightarrow> Response run \<times> 'b Site" where
  "handle_join E query \<sigma> =
     (case (case query of None \<Rightarrow> Value [] | Some q \<Rightarrow> url_query_pairs q) of
        Panic \<Rightarrow> (Panic, \<sigma>)
      | Value pairs \<Rightarrow>
          (let (i, a) = join_params pairs ([], [])
           in (reply_with 200 (as_bytes ''ok''),
               if i = [] \<or> a = [] then \<sigma> else ticked (\<sigma>\<lparr>st := record_peer (sys_now E \<sigma>) i a (st \<sigma>)\<rparr>))))"

definition serve_facts :: "Crates \<Rightarrow> Http \<Rightarrow> string \<Rightarrow> Store \<Rightarrow> Response run" where
  "serve_facts C W after_str s =
     (let after = (case parse_i64 after_str of None \<Rightarrow> 0 | Some n \<Rightarrow> n);
          facts = (case facts_since C s after FACT_SYNC_BATCH of Err \<Rightarrow> [] | Ok fs \<Rightarrow> fs)
      in case facts_to_vec W facts of
           Err \<Rightarrow> reply_with 500 (as_bytes ''Internal error'')
         | Ok body \<Rightarrow> reply_with 200 body)"

definition serve_block :: "'b Env \<Rightarrow> string \<Rightarrow> 'b Site \<Rightarrow> Response run \<times> 'b Site" where
  "serve_block E hash_hex \<sigma> =
     (case hex_decode (crates E) hash_hex of
        Err \<Rightarrow> (reply_with 400 (as_bytes ''Invalid hash''), \<sigma>)
      | Ok h \<Rightarrow>
          if length h \<noteq> 32 then (reply_with 400 (as_bytes ''Hash must be 32 bytes''), \<sigma>)
          else
            (let r = get_block E h \<sigma>
             in case fst r of
                  Ok data \<Rightarrow> (reply_with 200 data, snd r)
                | Err \<Rightarrow> (reply_with 404 (as_bytes ''Not found''), snd r)))"

definition handle_internal_request ::
    "'b Env \<Rightarrow> Http \<Rightarrow> Config \<Rightarrow> string \<Rightarrow> Request \<Rightarrow> 'b Site \<Rightarrow> Response run \<times> 'b Site" where
  "handle_internal_request E W cfg secret req \<sigma> =
     (if req_secret req \<noteq> Some secret then (reply_with 401 (as_bytes ''Unauthorized''), \<sigma>)
      else if req_path req = ''/internal/cluster/config'' then
        (case config_to_vec W
                \<lparr>cluster_time_micros = clock_now_micros (clock (st \<sigma>)) (sys_now E \<sigma>),
                 ccr_location_id = cfg_location_id (storage cfg), ccr_advertise_addr = advertise_addr (server cfg)\<rparr> of
           Err \<Rightarrow> (reply_with 500 (as_bytes ''Internal error''), ticked \<sigma>)
         | Ok body \<Rightarrow> (reply_with 200 body, ticked \<sigma>))
      else if req_path req = ''/internal/nodes'' then
        (reply_with 200 (default_vec (nodes_to_vec W (all_nodes (st \<sigma>)))), \<sigma>)
      else if req_path req = ''/internal/join'' then handle_join E (req_query req) \<sigma>
      else case strip_prefix ''/internal/facts/'' (req_path req) of
        Some after_str \<Rightarrow> (serve_facts (crates E) W after_str (st \<sigma>), \<sigma>)
      | None \<Rightarrow>
          if req_path req = ''/internal/gc/force'' then
            (let r = force_sweep_orphaned_blocks E (gc_grace_period_seconds (storage cfg)) \<sigma>
             in case fst r of
                  Ok u \<Rightarrow> (reply_with 200 (as_bytes ''ok''), snd r)
                | Err \<Rightarrow> (reply_with 500 (as_bytes ''sweep failed''), snd r))
          else case strip_prefix ''/internal/blocks/'' (req_path req) of
            Some hash_hex \<Rightarrow> serve_block E hash_hex \<sigma>
          | None \<Rightarrow> (reply_with 404 (as_bytes ''Not found''), \<sigma>))"

section \<open>The requests of a site\<close>

text \<open>
  \<open>send n host req\<close> is the answer to the \<open>n\<close>-th request, or a failure to connect, to shake hands, to send,
  or to answer in time. Building a request fails on a URI or a secret the crates refuse.
\<close>

type_synonym network = "nat \<Rightarrow> string \<Rightarrow> Request \<Rightarrow> Response result"

definition build_request :: "Http \<Rightarrow> string \<Rightarrow> string \<Rightarrow> Request result" where
  "build_request W uri secret =
     bind_result (uri_parse W uri) (\<lambda>(path, query).
     bind_result (header_text W secret) (\<lambda>seen.
       Ok \<lparr>req_path = path, req_query = query, req_secret = seen\<rparr>))"

definition is_success :: "nat \<Rightarrow> bool" where
  "is_success code \<longleftrightarrow> 200 \<le> code \<and> code < 300"

definition noise_get_bytes :: "Http \<Rightarrow> network \<Rightarrow> nat \<Rightarrow> string \<Rightarrow> string \<Rightarrow> string \<Rightarrow> bytes result" where
  "noise_get_bytes W send n peer_url path secret =
     bind_result (build_request W path secret) (\<lambda>req.
     bind_result (send n (host_port peer_url) req) (\<lambda>res.
       if is_success (resp_status res) then Ok (resp_body res) else Err))"

definition noise_get_json ::
    "Http \<Rightarrow> network \<Rightarrow> (nat \<Rightarrow> int) \<Rightarrow> nat \<Rightarrow> string \<Rightarrow> string \<Rightarrow> string \<Rightarrow> (ClusterConfigResponse \<times> int) result" where
  "noise_get_json W send rtt n peer_url path secret =
     bind_result (build_request W path secret) (\<lambda>req.
     bind_result (send n (host_port peer_url) req) (\<lambda>res.
       if is_success (resp_status res)
       then bind_result (config_from_slice W (resp_body res)) (\<lambda>parsed. Ok (parsed, rtt n)) else Err))"

definition noise_get_facts :: "Http \<Rightarrow> network \<Rightarrow> string \<Rightarrow> string \<Rightarrow> nat \<Rightarrow> int \<Rightarrow> FactRecord list result" where
  "noise_get_facts W send secret peer_url n after =
     bind_result (build_request W (''/internal/facts/'' @ show_int after) secret) (\<lambda>req.
     bind_result (send n (host_port peer_url) req) (\<lambda>res.
       if is_success (resp_status res) then facts_from_slice W (resp_body res) else Err))"

definition noise_fetch_block :: "Crates \<Rightarrow> Http \<Rightarrow> network \<Rightarrow> string \<Rightarrow> nat \<Rightarrow> string \<Rightarrow> hash \<Rightarrow> bytes result" where
  "noise_fetch_block C W send secret n peer_url h =
     bind_result (build_request W (''/internal/blocks/'' @ hex_encode C h) secret) (\<lambda>req.
     bind_result (send n (host_port peer_url) req) (\<lambda>res.
       if is_success (resp_status res) then Ok (resp_body res) else Err))"

section \<open>Joining and gossip\<close>

text \<open>
  \<^verbatim>\<open>perform_join_handshake\<close>: three effects on success, the clock offset, the registration at the peer
  (whose failure is only logged) and the saved configuration. The clock is set before the configuration
  is saved.
\<close>

definition register_path :: "location \<Rightarrow> string \<Rightarrow> string" where
  "register_path location_id addr = ''/internal/join?id='' @ location_id @ ''&addr='' @ addr"

definition perform_join_handshake ::
    "Http \<Rightarrow> Tools \<Rightarrow> network \<Rightarrow> (nat \<Rightarrow> int) \<Rightarrow> int \<Rightarrow> string \<Rightarrow> string \<Rightarrow> Config \<Rightarrow> ClusterClock \<Rightarrow> Machine \<Rightarrow>
     (location \<times> string) result \<times> Config \<times> ClusterClock \<times> Machine" where
  "perform_join_handshake W T send rtt sys peer_url config_path cfg clk M =
     (case noise_get_json W send rtt 0 peer_url ''/internal/cluster/config'' (cluster_secret (server cfg)) of
        Err \<Rightarrow> (Err, cfg, clk, M)
      | Ok (info, delay) \<Rightarrow>
          if sys < 0 then (Err, cfg, clk, M)
          else
            (let off = offset_from_peer (cluster_time_micros info) delay (wrap_i64 sys);
                 clk1 = set_offset clk off;
                 registered = noise_get_bytes W send 1 peer_url
                   (register_path (cfg_location_id (storage cfg)) (advertise_addr (server cfg))) (cluster_secret (server cfg));
                 cfg1 = cfg\<lparr>server := (server cfg)\<lparr>clock_offset_ms := off\<rparr>\<rparr>
             in case config_save T cfg1 config_path M of
                  Err \<Rightarrow> (Err, cfg, clk1, M)
                | Ok M1 \<Rightarrow>
                    (Ok (if ccr_location_id info = [] then peer_url else ccr_location_id info, peer_url), cfg1, clk1, M1)))"

fun record_peers :: "(nat \<Rightarrow> int) \<Rightarrow> nat \<Rightarrow> (location \<times> string) list \<Rightarrow> Store \<Rightarrow> Store" where
  "record_peers sys n [] s = s"
| "record_peers sys n ((i, url) # ns) s = record_peers sys (Suc n) ns (record_peer (sys n) i url s)"

text \<open>The link state of the peers, and whether a line is logged above debug level.\<close>

type_synonym links = "(location, bool) table"

definition peer_link_failed :: "location \<Rightarrow> links \<Rightarrow> bool \<times> links" where
  "peer_link_failed peer up = (map_of up peer \<noteq> Some False, AList.update peer False up)"

definition peer_link_ok :: "location \<Rightarrow> links \<Rightarrow> bool \<times> links" where
  "peer_link_ok peer up = (map_of up peer = Some False, AList.update peer True up)"

text \<open>What one peer's answer does: it is noted as reachable or not, and its nodes are recorded.\<close>

definition note_link :: "location \<Rightarrow> bytes result \<Rightarrow> links \<Rightarrow> links" where
  "note_link peer answer up =
     (case answer of Err \<Rightarrow> snd (peer_link_failed peer up) | Ok body \<Rightarrow> snd (peer_link_ok peer up))"

definition take_nodes :: "Http \<Rightarrow> (nat \<Rightarrow> int) \<Rightarrow> nat \<Rightarrow> bytes result \<Rightarrow> Store \<Rightarrow> Store" where
  "take_nodes W sys n answer s =
     (case answer of
        Err \<Rightarrow> s
      | Ok body \<Rightarrow> (case nodes_from_slice W body of Err \<Rightarrow> s | Ok ns \<Rightarrow> record_peers sys n ns s))"

fun gossip_membership ::
    "Http \<Rightarrow> network \<Rightarrow> string \<Rightarrow> (nat \<Rightarrow> int) \<Rightarrow> nat \<Rightarrow> (location \<times> string) list \<Rightarrow> links \<times> Store \<Rightarrow> links \<times> Store" where
  "gossip_membership W send secret sys n [] (up, s) = (up, s)"
| "gossip_membership W send secret sys n ((peer, url) # ps) (up, s) =
     (let answer = noise_get_bytes W send n url ''/internal/nodes'' secret
      in gossip_membership W send secret sys (Suc n) ps (note_link peer answer up, take_nodes W sys n answer s))"

section \<open>What is assumed of the crates\<close>

text \<open>
  URIs of letters, digits and the usual separators are taken apart at the question mark, visible ASCII
  passes as a header value, and a body that was serialized reads back, for the messages of a set.
\<close>

definition uri_chars :: "string \<Rightarrow> bool" where
  "uri_chars s \<longleftrightarrow> (\<forall>c \<in> set s. (48 \<le> byte_of c \<and> byte_of c \<le> 57) \<or> (65 \<le> byte_of c \<and> byte_of c \<le> 90) \<or>
     (97 \<le> byte_of c \<and> byte_of c \<le> 122) \<or> c \<in> set ''-._~:/=&'')"

definition http_ok :: "Http \<Rightarrow> bool" where
  "http_ok W \<longleftrightarrow>
     (\<forall>p q. prefix ''/'' p \<longrightarrow> uri_chars p \<longrightarrow> uri_chars q \<longrightarrow>
        uri_parse W p = Ok (p, None) \<and> uri_parse W (p @ ''?'' @ q) = Ok (p, Some q)) \<and>
     (\<forall>s. (\<forall>c \<in> set s. 32 \<le> byte_of c \<and> byte_of c \<le> 126) \<longrightarrow> header_text W s = Ok (Some s))"

definition body_ok :: "('a \<Rightarrow> bytes result) \<Rightarrow> (bytes \<Rightarrow> 'a result) \<Rightarrow> 'a set \<Rightarrow> bool" where
  "body_ok enc dec X \<longleftrightarrow> (\<forall>x \<in> X. \<exists>b. enc x = Ok b \<and> dec b = Ok x)"

definition visible :: "string \<Rightarrow> bool" where
  "visible s \<longleftrightarrow> (\<forall>c \<in> set s. 32 \<le> byte_of c \<and> byte_of c \<le> 126)"

text \<open>The peer at a URL is a site whose handler answers the requests; a panicking handler gives no answer.\<close>

definition answers :: "'b Env \<Rightarrow> Http \<Rightarrow> Config \<Rightarrow> string \<Rightarrow> 'b Site \<Rightarrow> Request \<Rightarrow> Response result" where
  "answers E W cfg secret \<sigma> req =
     (case fst (handle_internal_request E W cfg secret req \<sigma>) of Value res \<Rightarrow> Ok res | Panic \<Rightarrow> Err)"

lemma uri_chars_append [simp]: "uri_chars (a @ b) \<longleftrightarrow> uri_chars a \<and> uri_chars b"
  by (auto simp: uri_chars_def)

lemma uri_chars_Cons: "uri_chars (c # s) \<longleftrightarrow> uri_chars [c] \<and> uri_chars s"
  by (auto simp: uri_chars_def)

lemma uri_chars_literals [simp]:
  "uri_chars ''/internal/facts/''" "uri_chars ''/internal/blocks/''" "uri_chars ''/internal/nodes''"
  "uri_chars ''/internal/join''" "uri_chars ''id=''" "uri_chars ''&addr=''" "uri_chars []"
  by (simp_all add: uri_chars_def)

lemma uri_chars_show_nat [simp]: "uri_chars (show_nat n)"
proof (induction n rule: show_nat.induct)
  case (1 n)
  have "uri_chars [char_of (48 + d)]" if "d < 10" for d :: nat using that by (simp add: uri_chars_def)
  with 1 show ?case by (subst show_nat.simps) auto
qed

lemma uri_chars_hex [simp]: "hex_ok C \<Longrightarrow> uri_chars (hex_encode C h)"
proof -
  assume "hex_ok C"
  then have "set (hex_encode C h) \<subseteq> set ''0123456789abcdef''" by (rule hex_chars)
  moreover have "uri_chars ''0123456789abcdef''" by (simp add: uri_chars_def)
  ultimately show ?thesis unfolding uri_chars_def by blast
qed

lemma build_request_plain:
  assumes "http_ok W" "visible secret" "prefix ''/'' p" "uri_chars p"
  shows "build_request W p secret = Ok \<lparr>req_path = p, req_query = None, req_secret = Some secret\<rparr>"
    and "uri_chars q \<Longrightarrow>
      build_request W (p @ ''?'' @ q) secret = Ok \<lparr>req_path = p, req_query = Some q, req_secret = Some secret\<rparr>"
proof -
  have u: "uri_parse W p = Ok (p, None)" "uri_chars q \<Longrightarrow> uri_parse W (p @ ''?'' @ q) = Ok (p, Some q)"
    using assms(1,3,4) uri_chars_literals(7) unfolding http_ok_def by blast+
  moreover have h: "header_text W secret = Ok (Some secret)"
    using assms(1,2) unfolding http_ok_def visible_def by blast
  ultimately show "build_request W p secret = Ok \<lparr>req_path = p, req_query = None, req_secret = Some secret\<rparr>"
    by (simp add: build_request_def)
  show "build_request W (p @ ''?'' @ q) secret = Ok \<lparr>req_path = p, req_query = Some q, req_secret = Some secret\<rparr>"
    if "uri_chars q"
    using u(2) [OF that] h by (simp add: build_request_def)
qed

text \<open>Where a request with the right secret goes.\<close>

lemma handle_facts:
  "handle_internal_request E W cfg secret
     \<lparr>req_path = ''/internal/facts/'' @ a, req_query = q, req_secret = Some secret\<rparr> \<sigma> =
     (serve_facts (crates E) W a (st \<sigma>), \<sigma>)"
  by (simp add: handle_internal_request_def strip_prefix_def)

lemma handle_blocks:
  "handle_internal_request E W cfg secret
     \<lparr>req_path = ''/internal/blocks/'' @ a, req_query = q, req_secret = Some secret\<rparr> \<sigma> = serve_block E a \<sigma>"
  by (simp add: handle_internal_request_def strip_prefix_def)

lemma handle_join_path:
  "handle_internal_request E W cfg secret
     \<lparr>req_path = ''/internal/join'', req_query = q, req_secret = Some secret\<rparr> \<sigma> = handle_join E q \<sigma>"
  by (simp add: handle_internal_request_def)

section \<open>Pulling facts from a peer\<close>

text \<open>What \<^verbatim>\<open>noise_get_facts\<close> gets from the handler of a peer is the page of its log.\<close>

lemma get_facts_served:
  assumes "http_ok W" "visible secret" "\<And>n req. send n (host_port url) req = answers E W cfg secret \<sigma> req"
    and "body_ok (facts_to_vec W) (facts_from_slice W) {fs. set fs \<subseteq> set (log_facts (crates E) (st \<sigma>))}"
    and "store_ok (st \<sigma>)" "log_readable (crates E) (st \<sigma>)" "0 \<le> after" "in_i64 after"
  shows "noise_get_facts W send secret url n after = facts_since (crates E) (st \<sigma>) after FACT_SYNC_BATCH"
proof -
  let ?C = "crates E"
  have page: "facts_since ?C (st \<sigma>) after FACT_SYNC_BATCH = Ok (take 500 (drop (nat after) (log_facts ?C (st \<sigma>))))"
    using facts_since_drop [OF assms(5-7)] by (simp add: sql_limit_def FACT_SYNC_BATCH_def)
  define fs where "fs = take 500 (drop (nat after) (log_facts ?C (st \<sigma>)))"
  have "set fs \<subseteq> set (log_facts ?C (st \<sigma>))" by (auto simp: fs_def dest: in_set_takeD in_set_dropD)
  then obtain b where b: "facts_to_vec W fs = Ok b" "facts_from_slice W b = Ok fs"
    using assms(4) unfolding body_ok_def by blast
  have path: "prefix ''/'' (''/internal/facts/'' @ show_int after)" "uri_chars (''/internal/facts/'' @ show_int after)"
    using assms(7) uri_chars_append [of "''/internal/facts/''" "show_nat (nat after)"] by (simp_all add: show_int_def)
  have "answers E W cfg secret \<sigma> \<lparr>req_path = ''/internal/facts/'' @ show_int after, req_query = None,
      req_secret = Some secret\<rparr> = Ok \<lparr>resp_status = 200, resp_body = b\<rparr>"
    unfolding answers_def handle_facts
    using b(1) page parse_show_i64 [OF assms(8)] by (simp add: serve_facts_def fs_def [symmetric])
  then show ?thesis
    using build_request_plain(1) [OF assms(1,2) path] b(2)
    by (simp add: noise_get_facts_def assms(3) is_success_def page fs_def)
qed

lemma peer_serves:
  assumes "http_ok W" "visible secret" "\<And>n req. send n (host_port url) req = answers E W cfg secret \<sigma> req"
    and "body_ok (facts_to_vec W) (facts_from_slice W) {fs. set fs \<subseteq> set (log_facts (crates E) (st \<sigma>))}"
    and "store_ok (st \<sigma>)" "log_readable (crates E) (st \<sigma>)" "int (length (fact_log (st \<sigma>))) < 2 ^ 63"
  shows "serves (crates E) (st \<sigma>) (noise_get_facts W send secret url)"
  unfolding serves_def
  using assms(7) get_facts_served [of W secret send url E cfg \<sigma>, OF assms(1-6)] by (auto simp: in_i64_def)

section \<open>What a request may change\<close>

text \<open>Objects, credentials, uploads, the site's own name and its own entry of the registry.\<close>

definition client_data ::
    "Store \<Rightarrow> (string \<times> string, object_row) table \<times> (string, user_row) table \<times> (string \<times> string \<times> int, part_row) table \<times>
       (string \<times> string, string) table \<times> location \<times> node_row option" where
  "client_data s = (objects s, users s, parts s, multipart_uploads s, local_location_id s, map_of (nodes s) (local_location_id s))"

lemma client_data_ops [simp]:
  "client_data (store_local_block C sys h f sz s) = client_data s"
  "client_data (enqueue_replication sys h ts s) = client_data s"
  "client_data (add_pending_deletion h t s) = client_data s"
  "client_data (remove_pending_deletion h s) = client_data s"
  "client_data (snd (delete_local_block h s)) = client_data s"
  "client_data (record_peer sys i a s) = client_data s"
  by (simp_all add: client_data_def store_local_block_def Let_def append_fact_tx_def upsert_block_location_def
      enqueue_replication_def add_pending_deletion_def remove_pending_deletion_def delete_local_block_def
      record_peer_def upsert_node_def AList.update_conv')

lemma client_data_promote [simp]: "client_data (st (snd (promote_block_locally E h d \<sigma>))) = client_data (st \<sigma>)"
  by (simp add: promote_block_locally_def Let_def split: result.split)

lemma client_data_fetch: "client_data (st (snd (fetch_loop E h locs ps \<sigma>))) = client_data (st \<sigma>)"
  by (induction ps arbitrary: \<sigma>) (simp_all add: Let_def split: result.split)

lemma client_data_get_block: "client_data (st (snd (get_block E h \<sigma>))) = client_data (st \<sigma>)"
  by (simp add: get_block_def client_data_fetch split: option.split)

lemma client_data_sweep_one: "client_data (st (sweep_one E force grace live pending now h \<sigma>)) = client_data (st \<sigma>)"
proof -
  have m: "client_data (st (mark_pending E grace pending h \<sigma>)) = client_data (st \<sigma>)"
    by (simp add: mark_pending_def split: option.split result.split)
  have "client_data (st (delete_orphan E h \<sigma>)) = client_data (st \<sigma>)" for \<sigma>
    by (simp add: delete_orphan_def Let_def delete_block_def split: option.split)
  with m show ?thesis by (simp add: sweep_one_def Let_def)
qed

lemma client_data_fold:
  "(\<And>x \<sigma>. client_data (st (f x \<sigma>)) = client_data (st \<sigma>)) \<Longrightarrow> client_data (st (fold f xs \<sigma>)) = client_data (st \<sigma>)"
  by (induction xs arbitrary: \<sigma>) simp_all

lemma client_data_sweep: "client_data (st (snd (sweep_orphaned_blocks E grace force \<sigma>))) = client_data (st \<sigma>)"
proof -
  have "client_data (st (drop_stale local p \<sigma>)) = client_data (st \<sigma>)" for local p and \<sigma> :: "'a Site"
    by (simp add: drop_stale_def)
  then show ?thesis
    by (simp add: sweep_orphaned_blocks_def Let_def client_data_fold client_data_sweep_one split: result.split)
qed

lemma client_data_join: "client_data (st (snd (handle_join E q \<sigma>))) = client_data (st \<sigma>)"
  by (simp add: handle_join_def Let_def split: run.split prod.split)

lemma client_data_block: "client_data (st (snd (serve_block E x \<sigma>))) = client_data (st \<sigma>)"
  by (simp add: serve_block_def Let_def client_data_get_block split: result.split)

text \<open>
  C14. The internal interface cannot be used to change what clients see: a request without the cluster
  secret is refused with 401 and has no effect at all, and whatever a peer that knows the secret asks
  for, the objects, credentials and uploads of the site, its name and its own address stay as they
  are.
\<close>

theorem internal_requests_confined:
  assumes "handle_internal_request E W cfg secret req \<sigma> = (r, \<sigma>')"
  shows "(req_secret req \<noteq> Some secret \<longrightarrow> \<sigma>' = \<sigma> \<and> (\<exists>body. r = reply_with 401 body)) \<and>
    client_data (st \<sigma>') = client_data (st \<sigma>)"
proof -
  have "client_data (st (snd (handle_internal_request E W cfg secret req \<sigma>))) = client_data (st \<sigma>)"
    by (simp add: handle_internal_request_def Let_def force_sweep_orphaned_blocks_def client_data_sweep
        client_data_join client_data_block split: result.split option.split)
  with assms show ?thesis by (auto simp: handle_internal_request_def)
qed

text \<open>
  C6. The anti-entropy protocol converges over the real interface: let each of two sites pull the facts of its peers with
  \<^verbatim>\<open>noise_get_facts\<close>, let the requests reach the handlers of the peers, let the peers of each include every other site that
  has written anything, and let no two different writes to one key carry the same timestamp. Then one pass at
  each of the two sites returns and leaves them with the same objects and credentials.
\<close>

theorem cluster_converges_over_network:
  assumes "reachable C (\<lambda>l. st (\<sigma> l))" "hex_ok C" "json_ok C" "i \<noteq> j"
    and "i \<notin> set ps" "j \<notin> set qs" "\<forall>l. l \<noteq> i \<longrightarrow> l \<notin> set ps \<longrightarrow> fact_log (st (\<sigma> l)) = []"
    and "\<forall>l. l \<noteq> j \<longrightarrow> l \<notin> set qs \<longrightarrow> fact_log (st (\<sigma> l)) = []"
    and "\<And>k. tie_free obj_updated_at (candidates (fact_object C) k (all_facts C (\<lambda>l. st (\<sigma> l))))"
    and "\<And>k. tie_free usr_updated_at (candidates fact_user k (all_facts C (\<lambda>l. st (\<sigma> l))))"
    and "http_ok W" "visible secret" "\<And>l. crates (E l) = C"
    and "\<And>n l req. l \<in> set ps \<union> set qs \<Longrightarrow> send n (host_port (url l)) req = answers (E l) W (cfg l) secret (\<sigma> l) req"
    and "\<And>l. body_ok (facts_to_vec W) (facts_from_slice W) {fs. set fs \<subseteq> set (log_facts C (st (\<sigma> l)))}"
    and "\<And>l. int (length (fact_log (st (\<sigma> l)))) < 2 ^ 63"
  defines "fetch \<equiv> noise_get_facts W send secret"
  shows "\<exists>n s m t. sync_facts_once C sys fetch (map (\<lambda>l. (l, url l)) ps) 0 (st (\<sigma> i)) = Some (n, s) \<and>
    sync_facts_once C sys fetch (map (\<lambda>l. (l, url l)) qs) 0 (st (\<sigma> j)) = Some (m, t) \<and>
    get_object s = get_object t \<and> get_user C s = get_user C t"
proof -
  have serves: "serves C (st (\<sigma> l)) (fetch (url l))" if "l \<in> set ps \<union> set qs" for l
  proof -
    have "site_ok C (\<lambda>l. st (\<sigma> l)) l"
      using reachable_inv [OF assms(1-3)] unfolding cluster_inv_def by blast
    then have "store_ok (st (\<sigma> l))" "log_readable C (st (\<sigma> l))" unfolding site_ok_def by blast+
    then show ?thesis
      using peer_serves [of W secret send "url l" "E l" "cfg l" "\<sigma> l"] assms(11-16) that by (simp add: fetch_def)
  qed
  from passes_converge [OF assms(1-8), of fetch url sys, OF serves assms(9,10)] show ?thesis by blast
qed

section \<open>Reading a block of another site\<close>

lemma fetch_block_served:
  assumes "http_ok W" "visible secret" "hex_ok (crates E)"
    and "\<And>n req. send n (host_port url) req = answers E W cfg secret \<sigma> req"
    and "length h = 32" "get_block E h \<sigma> = (r, \<sigma>')"
  shows "noise_fetch_block (crates E) W send secret n url h = r"
proof -
  have path: "prefix ''/'' (''/internal/blocks/'' @ hex_encode (crates E) h)"
    "uri_chars (''/internal/blocks/'' @ hex_encode (crates E) h)"
    using uri_chars_append [of "''/internal/blocks/''" "hex_encode (crates E) h"] assms(3) by simp_all
  have "answers E W cfg secret \<sigma> \<lparr>req_path = ''/internal/blocks/'' @ hex_encode (crates E) h, req_query = None,
      req_secret = Some secret\<rparr> =
      Ok (case r of Ok d \<Rightarrow> \<lparr>resp_status = 200, resp_body = d\<rparr> | Err \<Rightarrow> \<lparr>resp_status = 404, resp_body = as_bytes ''Not found''\<rparr>)"
    unfolding answers_def handle_blocks using assms(3,5,6) by (simp add: serve_block_def split: result.split)
  then show ?thesis
    using build_request_plain(1) [OF assms(1,2) path]
    by (simp add: noise_fetch_block_def assms(4) is_success_def split: result.split)
qed

lemma held_block_read:
  assumes "block_site E stored good" "good h" "holds stored \<sigma> h d"
    and "\<And>n f. blob_get E n h f (blobs \<sigma>) \<noteq> Err"
  shows "get_block E h \<sigma> = (Ok d, ticked \<sigma>)"
proof -
  obtain f where f: "get_local_block_fid (st \<sigma>) h = Some f" using assms(3) by (auto simp: holds_def)
  obtain d' where d': "blob_get E (tick \<sigma>) h f (blobs \<sigma>) = Ok d'"
    using assms(4) by (cases "blob_get E (tick \<sigma>) h f (blobs \<sigma>)") auto
  then have "get_block E h \<sigma> = (Ok d', ticked \<sigma>)" using f by (simp add: get_block_def)
  with block_site.get_block_local [OF assms(1-3) this] show ?thesis by simp
qed

text \<open>The loop over the peers reaches one that serves the block, when every other holder serves the same bytes or fails.\<close>

definition after_fetch :: "'b Env \<Rightarrow> hash \<Rightarrow> bytes \<Rightarrow> 'b Site \<Rightarrow> 'b Site" where
  "after_fetch E h d \<sigma> =
     (case promote_block_locally E h d \<sigma> of
        (Ok u, \<sigma>1) \<Rightarrow> \<sigma>1
      | (Err, \<sigma>1) \<Rightarrow> ticked (\<sigma>1\<lparr>st := enqueue_replication (sys_now E \<sigma>1) h [local_location_id (st \<sigma>1)] (st \<sigma>1)\<rparr>))"

lemma fetch_loop_served:
  assumes "(p, u) \<in> set peers" "p \<in> set locs" "\<And>n. fetch_block E n u h = Ok d"
    and "\<forall>(q, v) \<in> set peers. q \<in> set locs \<longrightarrow> (\<forall>n. fetch_block E n v h \<in> {Err, Ok d})"
  shows "\<exists>n. fetch_loop E h locs peers \<sigma> = (Ok d, after_fetch E h d (\<sigma>\<lparr>tick := n\<rparr>))"
  using assms(1,4)
proof (induction peers arbitrary: \<sigma>)
  case (Cons c cs)
  obtain q v where c: "c = (q, v)" by fastforce
  show ?case
  proof (cases "q \<in> set locs \<and> fetch_block E (tick \<sigma>) v h = Ok d")
    case True
    then show ?thesis
      by (intro exI [of _ "Suc (tick \<sigma>)"])
        (auto simp: c after_fetch_def ticked_def Let_def prod_eq_iff split: result.splits prod.splits)
  next
    case False
    then have err: "q \<in> set locs \<Longrightarrow> fetch_block E (tick \<sigma>) v h = Err" using Cons.prems(2) c by force
    have "(p, u) \<in> set cs" using Cons.prems(1) False assms(2,3) c by auto
    then have ih: "\<exists>n. fetch_loop E h locs cs \<tau> = (Ok d, after_fetch E h d (\<tau>\<lparr>tick := n\<rparr>))" for \<tau>
      using Cons.IH Cons.prems(2) by simp
    show ?thesis using ih [of \<sigma>] ih [of "ticked \<sigma>"] err by (auto simp: c ticked_def)
  qed
qed simp

lemma after_fetch_effect:
  assumes "block_site E stored good" "good h" "get_local_block_fid (st \<sigma>) h = None"
  shows "fst (blob_put E (tick \<sigma>) h d (blobs \<sigma>)) \<noteq> Err \<Longrightarrow> holds stored (after_fetch E h d \<sigma>) h d"
    and "fst (blob_put E (tick \<sigma>) h d (blobs \<sigma>)) = Err \<Longrightarrow> queued (st (after_fetch E h d \<sigma>)) h"
proof -
  assume "fst (blob_put E (tick \<sigma>) h d (blobs \<sigma>)) \<noteq> Err"
  then have "fst (promote_block_locally E h d \<sigma>) = Ok ()"
    using assms(3) by (auto simp: promote_block_locally_def Let_def split: result.splits)
  then obtain \<sigma>1 where p: "promote_block_locally E h d \<sigma> = (Ok (), \<sigma>1)" by (metis prod.collapse)
  from block_site.promote_holds [OF assms(1) p assms(2,3)] show "holds stored (after_fetch E h d \<sigma>) h d"
    by (simp add: after_fetch_def p)
next
  assume "fst (blob_put E (tick \<sigma>) h d (blobs \<sigma>)) = Err"
  then obtain \<sigma>1 where p: "promote_block_locally E h d \<sigma> = (Err, \<sigma>1)"
    using assms(3) by (auto simp: promote_block_locally_def Let_def)
  show "queued (st (after_fetch E h d \<sigma>)) h"
    by (simp add: after_fetch_def p queued_def enqueue_replication_def Let_def map_of_insert_ignore)
qed

text \<open>
  C15. A read crosses sites: let a site not hold a block while its metadata lists a known peer that does, whose
  handler is reached and can read its copy, and let every other listed holder that is asked answer with the same
  bytes or fail. Then a read returns the bytes the peer holds; if the local byte store takes them, the site holds the
  block afterwards, and if it refuses them, the block is queued for a later pull.
\<close>

theorem cross_site_read:
  assumes "block_site E stored good" "block_site P stored' good'" "good h" "good' h" "length h = 32"
    and "http_ok W" "visible secret" "hex_ok (crates P)" "crates P = crates E"
    and "fetch_block E = noise_fetch_block (crates E) W send secret"
    and "\<And>n req. send n (host_port url) req = answers P W cfg secret \<rho> req"
    and "holds stored' \<rho> h d" "\<And>n f. blob_get P n h f (blobs \<rho>) \<noteq> Err"
    and "map_of (block_locations (st \<sigma>)) (h, local_location_id (st \<sigma>)) = None"
    and "map_of (block_locations (st \<sigma>)) (h, peer) \<noteq> None" "(peer, url) \<in> set (get_peers_with_urls (st \<sigma>))"
    and "\<forall>(q, v) \<in> set (get_peers_with_urls (st \<sigma>)). map_of (block_locations (st \<sigma>)) (h, q) \<noteq> None \<longrightarrow>
      (\<forall>n. fetch_block E n v h \<in> {Err, Ok d})"
    and "\<And>n xs. set (hash_order E n xs) = set xs"
    and "get_block E h \<sigma> = (r, \<sigma>')"
  shows "r = Ok d \<and> ((\<forall>n. fst (blob_put E n h d (blobs \<sigma>)) \<noteq> Err) \<longrightarrow> holds stored \<sigma>' h d) \<and>
    ((\<forall>n. fst (blob_put E n h d (blobs \<sigma>)) = Err) \<longrightarrow> queued (st \<sigma>') h)"
proof -
  have data: "fetch_block E n url h = Ok d" for n
    unfolding assms(10)
    using fetch_block_served [of W secret P send url cfg \<rho> h _ _ n,
        OF assms(6,7,8,11,5) held_block_read [OF assms(2,4,12,13)]]
    by (simp add: assms(9))
  have none: "get_local_block_fid (st \<sigma>) h = None" using assms(14) by (simp add: get_local_block_fid_def)
  obtain locs where l: "get_block_fids (st \<sigma>) h = Some locs" using assms(15) get_block_fids_None by (metis option.exhaust)
  have dom: "q \<in> set (map fst locs) \<longleftrightarrow> map_of (block_locations (st \<sigma>)) (h, q) \<noteq> None" for q
    using block_fids_dom [OF l] by simp
  let ?ps = "hash_order E (tick \<sigma>) (get_peers_with_urls (st \<sigma>))"
  have "(peer, url) \<in> set ?ps" "peer \<in> set (map fst locs)"
    "\<forall>(q, v) \<in> set ?ps. q \<in> set (map fst locs) \<longrightarrow> (\<forall>n. fetch_block E n v h \<in> {Err, Ok d})"
    using assms(15-17) unfolding dom assms(18) by simp_all
  from fetch_loop_served [OF this(1,2) data this(3), of "ticked \<sigma>"] obtain n
    where "r = Ok d" "\<sigma>' = after_fetch E h d (\<sigma>\<lparr>tick := n\<rparr>)"
    using assms(19) by (auto simp: get_block_def none l ticked_def)
  with after_fetch_effect [OF assms(1,3), of "\<sigma>\<lparr>tick := n\<rparr>" d] none show ?thesis by simp
qed

section \<open>Membership\<close>

lemma own_entry_record [simp]:
  "local_location_id (record_peer sys i url s) = local_location_id s"
  by (simp add: record_peer_def upsert_node_def)

lemma nodes_record:
  "map_of (nodes (record_peer sys i url s)) =
     (if i = local_location_id s then map_of (nodes s)
      else (map_of (nodes s))(i \<mapsto> \<lparr>api_url = url, last_heartbeat = store_now_millis s sys\<rparr>))"
  by (simp add: record_peer_def upsert_node_def AList.update_conv')

definition member_ids :: "Store \<Rightarrow> location set" where
  "member_ids s = fst ` set (nodes s)"

lemma member_ids_record: "member_ids (record_peer sys i url s) = member_ids s \<union> ({i} - {local_location_id s})"
  by (auto simp: member_ids_def record_peer_def upsert_node_def AList.dom_update)

lemma record_peers_nodes:
  "local_location_id (record_peers sys n ns s) = local_location_id s"
  "client_data (record_peers sys n ns s) = client_data s"
  "member_ids (record_peers sys n ns s) =
     member_ids s \<union> (fst ` set ns - {local_location_id s})"
  by (induction sys n ns s rule: record_peers.induct) (auto simp: member_ids_record)

lemma take_nodes_keeps:
  "local_location_id (take_nodes W sys n answer s) = local_location_id s"
  "client_data (take_nodes W sys n answer s) = client_data s"
  "member_ids s \<subseteq> member_ids (take_nodes W sys n answer s)"
  by (auto simp: take_nodes_def record_peers_nodes split: result.split)

lemma gossip_keeps:
  "local_location_id (snd (gossip_membership W send secret sys n ps us)) = local_location_id (snd us) \<and>
   client_data (snd (gossip_membership W send secret sys n ps us)) = client_data (snd us) \<and>
   member_ids (snd us) \<subseteq> member_ids (snd (gossip_membership W send secret sys n ps us))"
proof (induction W send secret sys n ps us rule: gossip_membership.induct)
  case (2 W send secret sys n peer url ps up s)
  have "member_ids s \<subseteq> member_ids (take_nodes W sys n (noise_get_bytes W send n url ''/internal/nodes'' secret) s)"
    by (rule take_nodes_keeps(3))
  with 2 show ?case by (auto simp: Let_def take_nodes_keeps(1,2))
qed simp

lemma gossip_learns:
  assumes "(peer, url) \<in> set ps" "\<And>n. noise_get_bytes W send n url ''/internal/nodes'' secret = Ok body"
    and "nodes_from_slice W body = Ok ns"
  shows "fst ` set ns \<subseteq> insert (local_location_id s)
    (member_ids (snd (gossip_membership W send secret sys n ps (up, s))))"
  using assms(1)
proof (induction ps arbitrary: n up s)
  case (Cons p ps)
  obtain q v where p: "p = (q, v)" by (cases p)
  let ?answer = "noise_get_bytes W send n v ''/internal/nodes'' secret"
  let ?s = "take_nodes W sys n ?answer s" and ?up = "note_link q ?answer up"
  have run: "gossip_membership W send secret sys n (p # ps) (up, s) = gossip_membership W send secret sys (Suc n) ps (?up, ?s)"
    by (simp add: p Let_def)
  show ?case
  proof (cases "p = (peer, url)")
    case True
    then have "?s = record_peers sys n ns s" using p assms(2,3) by (simp add: take_nodes_def)
    then have "fst ` set ns \<subseteq> insert (local_location_id s) (member_ids ?s)" by (auto simp: record_peers_nodes)
    then show ?thesis
      unfolding run using gossip_keeps [of W send secret sys "Suc n" ps "(?up, ?s)"] by auto
  next
    case False
    then have "(peer, url) \<in> set ps" using Cons.prems by simp
    from Cons.IH [OF this, of ?s "Suc n" ?up] show ?thesis unfolding run take_nodes_keeps(1) .
  qed
qed simp

text \<open>
  C27. Membership spreads: after a round of gossip in which the handler of a peer was reached, a site knows
  every site that the peer knows, has forgotten none, and neither its own address nor anything a client
  sees has changed.
\<close>

theorem gossip_spreads_membership:
  assumes "http_ok W" "visible secret" "(peer, url) \<in> set ps"
    and "\<And>n req. send n (host_port url) req = answers E W cfg secret \<rho> req"
    and "body_ok (nodes_to_vec W) (nodes_from_slice W) {all_nodes (st \<rho>)}"
    and "gossip_membership W send secret sys n ps (up, s) = (up', s')"
  shows "fst ` set (all_nodes (st \<rho>)) \<union> fst ` set (all_nodes s) \<subseteq> insert (local_location_id s) (fst ` set (all_nodes s')) \<and>
    client_data s' = client_data s"
proof -
  obtain b where b: "nodes_to_vec W (all_nodes (st \<rho>)) = Ok b" "nodes_from_slice W b = Ok (all_nodes (st \<rho>))"
    using assms(5) unfolding body_ok_def by blast
  have "build_request W ''/internal/nodes'' secret =
      Ok \<lparr>req_path = ''/internal/nodes'', req_query = None, req_secret = Some secret\<rparr>"
    using build_request_plain(1) [OF assms(1,2), of "''/internal/nodes''"] by simp
  then have "noise_get_bytes W send n url ''/internal/nodes'' secret = Ok b" for n
    by (simp add: noise_get_bytes_def assms(4) answers_def handle_internal_request_def b(1) default_vec_def is_success_def)
  note learns = gossip_learns [OF assms(3) this b(2), of s sys n up]
  have keys: "fst ` set (all_nodes t) = member_ids t" for t
    by (force simp: all_nodes_def member_ids_def)
  show ?thesis
    using learns gossip_keeps [of W send secret sys n ps "(up, s)"] assms(6) unfolding keys by auto
qed

text \<open>
  C28. Joining registers the newcomer: for a name and an address of plain URL characters, the request that
  \<^verbatim>\<open>perform_join_handshake\<close> sends is accepted by the peer, whose registry then lists the newcomer under exactly
  this name and address.
\<close>

theorem join_registers_site:
  assumes "http_ok W" "visible secret" "plain i" "plain a" "uri_chars i" "uri_chars a"
    and "i \<noteq> []" "a \<noteq> []" "i \<noteq> local_location_id (st \<rho>)"
  shows "\<exists>req \<rho>'. build_request W (register_path i a) secret = Ok req \<and>
    handle_internal_request E W cfg secret req \<rho> = (reply_with 200 (as_bytes ''ok''), \<rho>') \<and>
    (i, a) \<in> set (get_peers_with_urls (st \<rho>')) \<and> client_data (st \<rho>') = client_data (st \<rho>)"
proof -
  have uri: "uri_chars (''id='' @ i @ ''&addr='' @ a)"
    unfolding uri_chars_append using assms(5,6) uri_chars_literals(5,6) by (intro conjI)
  have "build_request W (''/internal/join'' @ ''?'' @ ''id='' @ i @ ''&addr='' @ a) secret =
      Ok \<lparr>req_path = ''/internal/join'', req_query = Some (''id='' @ i @ ''&addr='' @ a), req_secret = Some secret\<rparr>"
    by (rule build_request_plain(2) [OF assms(1,2) _ _ uri]) simp_all
  moreover have "handle_join E (Some (''id='' @ i @ ''&addr='' @ a)) \<rho> =
      (reply_with 200 (as_bytes ''ok''), ticked (\<rho>\<lparr>st := record_peer (sys_now E \<rho>) i a (st \<rho>)\<rparr>))"
    unfolding handle_join_def option.case query_two_pairs [OF assms(3,4)] using assms(7,8) by simp
  moreover have "(i, a) \<in> set (get_peers_with_urls (record_peer sys i a (st \<rho>)))" for sys
    using assms(9) map_of_SomeD [of "nodes (record_peer sys i a (st \<rho>))" i]
    by (force simp: get_peers_with_urls_def get_peers_def all_nodes_def nodes_record)
  ultimately show ?thesis by (simp add: handle_join_path register_path_def)
qed

section \<open>Concrete sites\<close>

text \<open>
  Crates for a cluster in which one fact was written: URIs are split at the question mark, every text
  is a header value, a page is as many bytes as it has facts, and the only list of nodes is that of
  \<open>demo_hub\<close>.
\<close>

definition demo_fact :: FactRecord where
  "demo_fact = \<lparr>rec_seq = 1, rec_ts = 7, rec_fact = ObjectDelete ''b'' ''k''\<rparr>"

definition demo_hub :: "files Site" where
  "demo_hub = demo_live_site\<lparr>st := record_peer 1 ''d'' ''http://d:1'' (record_peer 1 ''c'' ''http://c:1'' (st demo_live_site))\<rparr>"

definition demo_http :: Http where
  "demo_http = \<lparr>
     uri_parse = (\<lambda>s. case split_once CHR ''?'' s of None \<Rightarrow> Ok (s, None) | Some (p, q) \<Rightarrow> Ok (p, Some q)),
     header_text = (\<lambda>s. Ok (Some s)),
     config_to_vec = (\<lambda>_. Err), config_from_slice = (\<lambda>_. Err),
     nodes_to_vec = (\<lambda>_. Ok [1]), nodes_from_slice = (\<lambda>_. Ok (all_nodes (st demo_hub))),
     facts_to_vec = (\<lambda>fs. Ok (replicate (length fs) 0)), facts_from_slice = (\<lambda>b. Ok (replicate (length b) demo_fact))\<rparr>"

lemma demo_http_ok: "http_ok demo_http"
proof -
  have none: "split_once d s = None" if "d \<notin> set s" for d s using that by (induction s) auto
  have "CHR ''?'' \<notin> set p" if "uri_chars p" for p using that by (force simp: uri_chars_def)
  then show ?thesis
    using split_once_app [of "CHR ''?''"] none by (auto simp: http_ok_def demo_http_def)
qed

lemma demo_visible: "visible ''s''"
  by (simp add: visible_def)

theorem internal_requests_confined_witness:
  "snd (handle_internal_request demo_env demo_http demo_config ''s''
      \<lparr>req_path = ''/internal/gc/force'', req_query = None, req_secret = Some ''x''\<rparr> demo_live_site) = demo_live_site \<and>
   client_data (st (snd (handle_internal_request demo_env demo_http demo_config ''s''
      \<lparr>req_path = ''/internal/gc/force'', req_query = None, req_secret = Some ''s''\<rparr> demo_live_site))) =
     client_data (st demo_live_site)"
  using internal_requests_confined [of demo_env demo_http demo_config "''s''"
      "\<lparr>req_path = ''/internal/gc/force'', req_query = None, req_secret = Some ''x''\<rparr>" demo_live_site,
      OF prod.collapse [symmetric]]
    internal_requests_confined [of demo_env demo_http demo_config "''s''"
      "\<lparr>req_path = ''/internal/gc/force'', req_query = None, req_secret = Some ''s''\<rparr>" demo_live_site,
      OF prod.collapse [symmetric]]
  by simp

definition demo_sites :: "location \<Rightarrow> files Site" where
  "demo_sites l = \<lparr>st = ((cluster_new (\<lambda>_. clock_new 0))(''a'' := demo_site)) l, blobs = [],
     disk_guard = guard_disabled, tick = 0\<rparr>"

lemma demo_sites_st: "(\<lambda>l. st (demo_sites l)) = (cluster_new (\<lambda>_. clock_new 0))(''a'' := demo_site)"
  by (simp add: fun_eq_iff demo_sites_def)

lemma demo_sites_facts:
  "fact_log (st (demo_sites l)) = (if l = ''a'' then fact_log demo_site else [])"
  "log_facts demo_crates (st (demo_sites l)) = (if l = ''a'' then [demo_fact] else [])"
  "all_facts demo_crates (\<lambda>l. st (demo_sites l)) = {demo_fact}"
proof -
  show "fact_log (st (demo_sites l)) = (if l = ''a'' then fact_log demo_site else [])"
    by (simp add: demo_sites_def cluster_new_def store_new_def)
  show log: "log_facts demo_crates (st (demo_sites l)) = (if l = ''a'' then [demo_fact] else [])" for l
    using demo_site_facts(6) by (simp add: demo_sites_def demo_fact_def log_facts_def cluster_new_def store_new_def)
  show "all_facts demo_crates (\<lambda>l. st (demo_sites l)) = {demo_fact}" by (auto simp: all_facts_def log split: if_splits)
qed

lemma demo_bodies: "body_ok (facts_to_vec demo_http) (facts_from_slice demo_http) {fs. set fs \<subseteq> {demo_fact}}"
proof -
  have "replicate (length fs) demo_fact = fs" if "set fs \<subseteq> {demo_fact}" for fs
    using that by (induction fs) auto
  then show ?thesis by (auto simp: body_ok_def demo_http_def)
qed

lemma body_ok_mono: "body_ok enc dec Y \<Longrightarrow> X \<subseteq> Y \<Longrightarrow> body_ok enc dec X"
  by (auto simp: body_ok_def)

lemma host_port_short: "host_port ''a'' = ''a''" "host_port ''b'' = ''b''" "host_port ''http://p:1'' = ''p:1''"
  by code_simp+

theorem cluster_converges_over_network_witness:
  "let fetch = noise_get_facts demo_http (\<lambda>n host. answers demo_env demo_http demo_config ''s'' (demo_sites host)) ''s''
   in \<exists>n s m t. sync_facts_once demo_crates (\<lambda>_. 0) fetch [(''b'', ''b'')] 0 (st (demo_sites ''a'')) = Some (n, s) \<and>
        sync_facts_once demo_crates (\<lambda>_. 0) fetch [(''a'', ''a'')] 0 (st (demo_sites ''b'')) = Some (m, t) \<and>
        get_object s = get_object t \<and> get_user demo_crates s = get_user demo_crates t"
proof -
  have tf: "tie_free obj_updated_at (candidates (fact_object demo_crates) k (all_facts demo_crates (\<lambda>l. st (demo_sites l))))"
    "tie_free usr_updated_at (candidates fact_user u (all_facts demo_crates (\<lambda>l. st (demo_sites l))))" for k u
    by (simp_all add: demo_sites_facts(3) demo_fact_def fact_rows tie_free_def)
  have r: "reachable demo_crates (\<lambda>l. st (demo_sites l))" unfolding demo_sites_st by (rule demo_reachable)
  have logs: "\<forall>l. l \<noteq> ''a'' \<longrightarrow> l \<notin> set [''b''] \<longrightarrow> fact_log (st (demo_sites l)) = []"
    "\<forall>l. l \<noteq> ''b'' \<longrightarrow> l \<notin> set [''a''] \<longrightarrow> fact_log (st (demo_sites l)) = []"
    by (simp_all add: demo_sites_facts(1))
  have bodies: "body_ok (facts_to_vec demo_http) (facts_from_slice demo_http)
      {fs. set fs \<subseteq> set (log_facts demo_crates (st (demo_sites l)))}" for l
    by (rule body_ok_mono [OF demo_bodies]) (auto simp: demo_sites_facts(2))
  have short: "int (length (fact_log (st (demo_sites l)))) < 2 ^ 63" for l
    by (simp add: demo_sites_facts(1) demo_site_facts(3))
  have env: "crates ((\<lambda>_. demo_env) l) = demo_crates" for l :: location by (simp add: demo_stored_site(5))
  have net: "answers demo_env demo_http demo_config ''s'' (demo_sites (host_port (id l))) req =
      answers demo_env demo_http demo_config ''s'' (demo_sites l) req" if "l \<in> set [''b''] \<union> set [''a'']" for l req
    using that by (auto simp: host_port_short)
  have ne: "''a'' \<noteq> ''b''" "''a'' \<notin> set [''b'']" "''b'' \<notin> set [''a'']" by simp_all
  from cluster_converges_over_network [where E = "\<lambda>_. demo_env" and cfg = "\<lambda>_. demo_config" and url = id and sys = "\<lambda>_. 0"
      and send = "\<lambda>n host. answers demo_env demo_http demo_config ''s'' (demo_sites host)",
      OF r demo_hex_ok demo_json_ok ne logs tf demo_http_ok demo_visible env net bodies short]
  show ?thesis unfolding Let_def by (simp only: list.map id_apply)
qed

text \<open>A site that knows of the block of \<open>demo_live_site\<close>, which is reached at \<^verbatim>\<open>p:1\<close>.\<close>

definition demo_reader_env :: "files Env" where
  "demo_reader_env = local_env demo_crates ''/d'' demo_io (\<lambda>n. 1000000)
     (noise_fetch_block demo_crates demo_http (\<lambda>n host. answers demo_env demo_http demo_config ''s'' demo_live_site) ''s'')
     (\<lambda>n. Err) (\<lambda>n ps. ps)"

definition demo_reader_site :: "files Site" where
  "demo_reader_site = \<lparr>st = upsert_block_location demo_hash ''a'' (as_bytes ''local'') 2 5
     (record_peer 1 ''a'' ''http://p:1'' (store_new ''c'' (clock_new 0))), blobs = [], disk_guard = guard_disabled, tick = 0\<rparr>"

theorem cross_site_read_witness:
  "fst (get_block demo_reader_env demo_hash demo_reader_site) = Ok [1, 2] \<and>
   holds (local_stored demo_crates ''/d'') (snd (get_block demo_reader_env demo_hash demo_reader_site)) demo_hash [1, 2]"
proof -
  have site: "block_site demo_reader_env (local_stored demo_crates ''/d'') (hash_good demo_crates)"
    unfolding demo_reader_env_def by (rule lsite.block_site_axioms)
  have env: "crates demo_reader_env = demo_crates" "hash_order demo_reader_env n xs = xs"
    "fetch_block demo_reader_env = noise_fetch_block demo_crates demo_http
       (\<lambda>n host. answers demo_env demo_http demo_config ''s'' demo_live_site) ''s''" for n xs
    by (simp_all add: demo_reader_env_def local_env_def)
  have get: "blob_get demo_env n demo_hash f (blobs demo_live_site) \<noteq> Err" for n f
    by (simp add: demo_live_site_def Let_def demo_stored_site(3))
      (simp add: demo_env_def local_env_def local_get_def demo_io_def Let_def)
  have put: "fst (blob_put demo_reader_env n demo_hash d b) \<noteq> Err" for n d b
    by (simp add: demo_reader_env_def local_env_def local_put_def demo_io_def Let_def)
  have served: "noise_fetch_block demo_crates demo_http (\<lambda>n host. answers demo_env demo_http demo_config ''s'' demo_live_site) ''s''
      n ''http://p:1'' demo_hash = Ok [1, 2]" for n
    using fetch_block_served [of demo_http "''s''" demo_env "\<lambda>n host. answers demo_env demo_http demo_config ''s'' demo_live_site"
        "''http://p:1''" demo_config demo_live_site demo_hash _ _ n,
        OF demo_http_ok demo_visible _ _ demo_hash_good(2) held_block_read [OF demo_block_site demo_hash_good(1) demo_live_site_facts(3) get]]
    by (simp add: demo_stored_site(5) demo_hex_ok)
  have "map_of (block_locations (st demo_reader_site)) (demo_hash, local_location_id (st demo_reader_site)) = None"
    "map_of (block_locations (st demo_reader_site)) (demo_hash, ''a'') \<noteq> None"
    "get_peers_with_urls (st demo_reader_site) = [(''a'', ''http://p:1'')]"
    by (simp_all add: demo_reader_site_def upsert_block_location_def
        record_peer_def upsert_node_def store_new_def upsert_newer_def get_peers_with_urls_def get_peers_def all_nodes_def)
  then show ?thesis
    using cross_site_read [where cfg = demo_config and peer = "''a''", OF site demo_block_site demo_hash_good(1,1,2)
        demo_http_ok demo_visible _ _ _ _ demo_live_site_facts(3) get _ _ _ _ _ prod.collapse [symmetric]]
    by (simp add: env demo_stored_site(5) demo_hex_ok served put)
qed

theorem gossip_spreads_membership_witness:
  "''d'' \<notin> fst ` set (all_nodes (st demo_reader_site)) \<and>
   ''d'' \<in> fst ` set (all_nodes (snd (gossip_membership demo_http
       (\<lambda>n host. answers demo_env demo_http demo_config ''s'' demo_hub) ''s'' (\<lambda>_. 1) 0 [(''a'', ''http://p:1'')]
       ([], st demo_reader_site))))"
proof -
  have "body_ok (nodes_to_vec demo_http) (nodes_from_slice demo_http) {all_nodes (st demo_hub)}"
    by (simp add: body_ok_def demo_http_def)
  moreover have "local_location_id (st demo_reader_site) = ''c''"
    by (simp add: demo_reader_site_def upsert_block_location_def store_new_def)
  moreover have new: "''d'' \<notin> fst ` set (all_nodes (st demo_reader_site))" "''d'' \<in> fst ` set (all_nodes (st demo_hub))"
    by code_simp+
  ultimately show ?thesis
    using gossip_spreads_membership [where E = demo_env and cfg = demo_config and \<rho> = demo_hub and sys = "\<lambda>_. 1"
        and send = "\<lambda>n host. answers demo_env demo_http demo_config ''s'' demo_hub" and s = "st demo_reader_site"
        and n = 0 and up = "[]" and peer = "''a''" and url = "''http://p:1''" and ps = "[(''a'', ''http://p:1'')]",
        OF demo_http_ok demo_visible _ _ _ prod.collapse [symmetric]]
    new by (auto simp del: gossip_membership.simps)
qed

theorem join_registers_site_witness:
  "\<exists>req \<rho>'. build_request demo_http ''/internal/join?id=c&addr=http://c:1'' ''s'' = Ok req \<and>
     handle_internal_request demo_env demo_http demo_config ''s'' req demo_live_site = (reply_with 200 (as_bytes ''ok''), \<rho>') \<and>
     (''c'', ''http://c:1'') \<in> set (get_peers_with_urls (st \<rho>'))"
proof -
  have "local_location_id (st demo_live_site) = ''a''"
    by (simp add: demo_live_site_def Let_def demo_stored_site(2) insert_object_def append_fact_tx_def put_object_row_def)
      (simp add: store_new_def)
  then show ?thesis
    using join_registers_site [OF demo_http_ok demo_visible, of "''c''" "''http://c:1''" demo_live_site demo_env demo_config]
    by (auto simp: plain_def uri_chars_def register_path_def)
qed

end
