(* ===== verification/Seaweed.thy ===== *)
theory Seaweed
  imports Internal
begin

text \<open>
  The SeaweedFS backend, \<^verbatim>\<open>SeaweedBlob\<close> of \<^verbatim>\<open>src/src/storage.rs\<close> (lines 182-223): the master assigns a file identifier,
  the volume server holds the bytes. The service behind the HTTP client is a parameter with a state of its own; what
  is assumed of it is the predicate \<open>weed_ok\<close>.
\<close>

section \<open>The service\<close>

datatype weed_request = WeedGet string | WeedPut string bytes | WeedDelete string

text \<open>
  \<open>weed_send n req w\<close> is the answer to the \<open>n\<close>-th request: none when the request cannot be sent, else a status
  and the body, which may fail to arrive. \<open>weed_fid\<close> is the string member \<^verbatim>\<open>fid\<close> of a JSON document, if the
  bytes are one.
\<close>

record 'w Weed =
  weed_send :: "nat \<Rightarrow> weed_request \<Rightarrow> 'w \<Rightarrow> (nat \<times> bytes result) result \<times> 'w"
  weed_fid :: "bytes \<Rightarrow> string option result"
  master_url :: string
  volume_url :: string

section \<open>The backend\<close>

definition assign_url :: "'w Weed \<Rightarrow> string" where
  "assign_url V = master_url V @ ''/dir/assign''"

definition fid_url :: "'w Weed \<Rightarrow> string \<Rightarrow> string" where
  "fid_url V f = volume_url V @ ''/'' @ f"

definition from_utf8 :: "bytes \<Rightarrow> string result" where
  "from_utf8 b = (let s = map (\<lambda>w. char_of (unat w)) b in if valid_utf8 s then Ok s else Err)"

definition assign_fid :: "'w Weed \<Rightarrow> nat \<Rightarrow> 'w \<Rightarrow> string result \<times> 'w" where
  "assign_fid V n w =
     (case weed_send V n (WeedGet (assign_url V)) w of
        (r, w1) \<Rightarrow>
          (bind_result r (\<lambda>(status, body).
           bind_result body (\<lambda>b.
           bind_result (weed_fid V b) (\<lambda>fid. case fid of None \<Rightarrow> Err | Some f \<Rightarrow> Ok f))), w1))"

definition seaweed_put :: "'w Weed \<Rightarrow> nat \<Rightarrow> hash \<Rightarrow> bytes \<Rightarrow> 'w \<Rightarrow> fid result \<times> 'w" where
  "seaweed_put V n h data w =
     (case assign_fid V n w of
        (Err, w1) \<Rightarrow> (Err, w1)
      | (Ok f, w1) \<Rightarrow>
          (case weed_send V (Suc n) (WeedPut (fid_url V f) data) w1 of
             (Err, w2) \<Rightarrow> (Err, w2)
           | (Ok (status, body), w2) \<Rightarrow> (if is_success status then Ok (as_bytes f) else Err, w2)))"

definition seaweed_get :: "'w Weed \<Rightarrow> nat \<Rightarrow> hash \<Rightarrow> fid \<Rightarrow> 'w \<Rightarrow> bytes result \<times> 'w" where
  "seaweed_get V n h fid w =
     (case from_utf8 fid of
        Err \<Rightarrow> (Err, w)
      | Ok f \<Rightarrow>
          (case weed_send V n (WeedGet (fid_url V f)) w of
             (Err, w1) \<Rightarrow> (Err, w1)
           | (Ok (status, body), w1) \<Rightarrow> (if is_success status then body else Err, w1)))"

definition seaweed_delete :: "'w Weed \<Rightarrow> nat \<Rightarrow> hash \<Rightarrow> fid \<Rightarrow> 'w \<Rightarrow> unit result \<times> 'w" where
  "seaweed_delete V n h fid w =
     (case from_utf8 fid of
        Err \<Rightarrow> (Err, w)
      | Ok f \<Rightarrow> (Ok (), snd (weed_send V n (WeedDelete (fid_url V f)) w)))"

section \<open>What is assumed of the service\<close>

text \<open>
  \<open>held w f\<close> are the bytes of the identifier \<open>f\<close>. The master changes no bytes and assigns identifiers that hold
  none; an upload that is answered with success has stored the bytes, and any upload, as any deletion,
  affects its own identifier only; a download changes nothing and a successful one returns the bytes held.
\<close>

definition weed_ok :: "'w Weed \<Rightarrow> ('w \<Rightarrow> string \<Rightarrow> bytes option) \<Rightarrow> bool" where
  "weed_ok V held \<longleftrightarrow>
     (\<forall>n w. held (snd (weed_send V n (WeedGet (assign_url V)) w)) = held w) \<and>
     (\<forall>n w status b f w1. weed_send V n (WeedGet (assign_url V)) w = (Ok (status, Ok b), w1) \<longrightarrow>
        weed_fid V b = Ok (Some f) \<longrightarrow> held w1 f = None \<and> valid_utf8 f) \<and>
     (\<forall>n w f d g. g \<noteq> f \<longrightarrow> held (snd (weed_send V n (WeedPut (fid_url V f) d) w)) g = held w g) \<and>
     (\<forall>n w f d status body w1. weed_send V n (WeedPut (fid_url V f) d) w = (Ok (status, body), w1) \<longrightarrow>
        is_success status \<longrightarrow> held w1 f = Some d) \<and>
     (\<forall>n w f. held (snd (weed_send V n (WeedGet (fid_url V f)) w)) = held w) \<and>
     (\<forall>n w f status d w1. weed_send V n (WeedGet (fid_url V f)) w = (Ok (status, Ok d), w1) \<longrightarrow>
        is_success status \<longrightarrow> held w f = Some d) \<and>
     (\<forall>n w f g. g \<noteq> f \<longrightarrow> held (snd (weed_send V n (WeedDelete (fid_url V f)) w)) g = held w g)"

lemma weed_okD:
  assumes "weed_ok V held"
  shows weed_assign: "held (snd (weed_send V n (WeedGet (assign_url V)) w)) = held w"
    and weed_fresh: "weed_send V n (WeedGet (assign_url V)) w = (Ok (status, Ok b), w1) \<Longrightarrow>
      weed_fid V b = Ok (Some f) \<Longrightarrow> held w1 f = None \<and> valid_utf8 f"
    and weed_put_other: "g \<noteq> f \<Longrightarrow> held (snd (weed_send V n (WeedPut (fid_url V f) d) w)) g = held w g"
    and weed_put_held: "weed_send V n (WeedPut (fid_url V f) d) w = (Ok (status, body), w1) \<Longrightarrow>
      is_success status \<Longrightarrow> held w1 f = Some d"
    and weed_get_same: "held (snd (weed_send V n (WeedGet (fid_url V f)) w)) = held w"
    and weed_get_held: "weed_send V n (WeedGet (fid_url V f)) w = (Ok (status, Ok d), w1) \<Longrightarrow>
      is_success status \<Longrightarrow> held w f = Some d"
    and weed_delete_other: "g \<noteq> f \<Longrightarrow> held (snd (weed_send V n (WeedDelete (fid_url V f)) w)) g = held w g"
  using assms unfolding weed_ok_def by - (elim conjE, metis)+

text \<open>At call \<open>n\<close> the service answers downloads of what it holds.\<close>

definition weed_up :: "'w Weed \<Rightarrow> ('w \<Rightarrow> string \<Rightarrow> bytes option) \<Rightarrow> nat \<Rightarrow> bool" where
  "weed_up V held n \<longleftrightarrow>
     (\<forall>w f. held w f \<noteq> None \<longrightarrow>
        (\<exists>status d. fst (weed_send V n (WeedGet (fid_url V f)) w) = Ok (status, Ok d) \<and> is_success status))"

section \<open>One operation\<close>

lemma unat_of_char: "unat (of_char c :: 8 word) = byte_of c"
proof -
  have "unat (of_nat (byte_of c) :: 8 word) = byte_of c" by (simp add: unat_of_nat)
  then show ?thesis by (simp add: of_nat_of_char)
qed

lemma of_char_unat: "of_char (char_of (unat w)) = (w :: 8 word)"
proof -
  have "unat w < 256" using unsigned_less [of w] by simp
  then have "byte_of (char_of (unat w)) = unat w" by simp
  then show ?thesis by (metis of_nat_of_char of_nat_unat ucast_id)
qed

lemma from_utf8_Ok: "from_utf8 b = Ok f \<longleftrightarrow> b = as_bytes f \<and> valid_utf8 f"
  by (auto simp: from_utf8_def as_bytes_def Let_def comp_def of_char_unat unat_of_char)

lemmas from_utf8_bytes = from_utf8_Ok [THEN iffD1, THEN conjunct1]
lemmas from_utf8_as_bytes = from_utf8_Ok [THEN iffD2, OF conjI, OF refl]

lemma as_bytes_inject: "as_bytes f = as_bytes g \<longleftrightarrow> f = g"
proof
  assume "as_bytes f = as_bytes g"
  then have "map (\<lambda>w. char_of (unat w)) (as_bytes f) = map (\<lambda>w. char_of (unat w)) (as_bytes g)" by simp
  then show "f = g" by (simp add: as_bytes_def comp_def unat_of_char)
qed simp

lemma assign_fid_fresh:
  assumes "weed_ok V held" "assign_fid V n w = (r, w1)"
  shows "held w1 = held w \<and> (\<forall>f. r = Ok f \<longrightarrow> held w f = None \<and> valid_utf8 f)"
proof -
  obtain a where send: "weed_send V n (WeedGet (assign_url V)) w = (a, w1)"
    using assms(2) by (auto simp: assign_fid_def split: prod.splits)
  have same: "held w1 = held w" using weed_assign [OF assms(1), of n w] by (simp add: send)
  moreover have "held w f = None \<and> valid_utf8 f" if "r = Ok f" for f
    using assms(2) that weed_fresh [OF assms(1), of n w _ _ w1 f]
    by (auto simp: assign_fid_def send same bind_result_def split: result.splits option.splits prod.splits)
  ultimately show ?thesis by blast
qed

lemma seaweed_put_effect:
  assumes "weed_ok V held" "seaweed_put V n h d w = (r, w1)"
  shows "(\<forall>fid. r = Ok fid \<longrightarrow> (\<exists>f. fid = as_bytes f \<and> valid_utf8 f \<and> held w f = None \<and> held w1 f = Some d)) \<and>
    (\<forall>g. held w g \<noteq> None \<longrightarrow> held w1 g = held w g)"
proof -
  obtain a w2 where a: "assign_fid V n w = (a, w2)" by fastforce
  note fresh = assign_fid_fresh [OF assms(1) a]
  show ?thesis
  proof (cases a)
    case Err
    then show ?thesis using assms(2) fresh by (simp add: seaweed_put_def a)
  next
    case (Ok f)
    obtain x where send: "weed_send V (Suc n) (WeedPut (fid_url V f) d) w2 = (x, w1)"
      using assms(2) by (auto simp: seaweed_put_def a Ok split: prod.splits result.splits)
    have "held w1 g = held w g" if "held w g \<noteq> None" for g
      using weed_put_other [OF assms(1), of g f "Suc n" d w2] fresh that Ok by (cases "g = f") (auto simp: send)
    moreover have "fid = as_bytes f \<and> held w1 f = Some d" if "r = Ok fid" for fid
      using assms(2) that weed_put_held [OF assms(1), of "Suc n" f d w2 _ _ w1]
      by (auto simp: seaweed_put_def a Ok send split: result.splits if_splits)
    ultimately show ?thesis using fresh Ok by blast
  qed
qed

lemma seaweed_get_effect:
  assumes "weed_ok V held" "valid_utf8 f" "held w f = Some d" "seaweed_get V n h (as_bytes f) w = (r, w1)"
  shows "held w1 = held w \<and> (r = Err \<or> r = Ok d) \<and> (weed_up V held n \<longrightarrow> r = Ok d)"
proof -
  obtain x where send: "weed_send V n (WeedGet (fid_url V f)) w = (x, w1)"
    using assms(4) by (auto simp: seaweed_get_def from_utf8_as_bytes assms(2) split: prod.splits result.splits)
  have "held w1 = held w" using weed_get_same [OF assms(1), of n f w] by (simp add: send)
  moreover have "r = Err \<or> r = Ok d"
    using assms(3,4) weed_get_held [OF assms(1), of n f w _ _ w1]
    by (auto simp: seaweed_get_def from_utf8_as_bytes assms(2) send split: result.splits if_splits) (metis option.inject result.exhaust)+
  moreover have "r \<noteq> Err" if "weed_up V held n"
    using that assms(3,4)
    by (auto simp: weed_up_def seaweed_get_def from_utf8_as_bytes assms(2) send split: result.splits if_splits)
       (metis fst_conv option.distinct(1) result.distinct(1) result.inject send prod.inject)+
  ultimately show ?thesis by blast
qed

lemma seaweed_get_same:
  assumes "weed_ok V held" "seaweed_get V n h fid w = (r, w1)"
  shows "held w1 = held w"
proof (cases "from_utf8 fid")
  case (Ok f)
  have "w1 = snd (weed_send V n (WeedGet (fid_url V f)) w)"
    using assms(2) by (auto simp: seaweed_get_def Ok split: prod.splits result.splits)
  then show ?thesis using weed_get_same [OF assms(1)] by simp
qed (use assms(2) in \<open>simp add: seaweed_get_def\<close>)

lemma seaweed_delete_other:
  assumes "weed_ok V held" "fid \<noteq> as_bytes g"
  shows "held (snd (seaweed_delete V n h fid w)) g = held w g"
proof (cases "from_utf8 fid")
  case (Ok f)
  then have "g \<noteq> f" using assms(2) from_utf8_bytes by blast
  then show ?thesis using weed_delete_other [OF assms(1), of g f n w] by (simp add: seaweed_delete_def Ok)
qed (simp add: seaweed_delete_def)

section \<open>Histories\<close>

datatype weed_op = BlobPut hash bytes | BlobGet hash fid | BlobDelete hash fid

fun weed_run :: "'w Weed \<Rightarrow> nat \<Rightarrow> weed_op list \<Rightarrow> 'w \<Rightarrow> 'w" where
  "weed_run V n [] w = w"
| "weed_run V n (BlobPut h d # ops) w = weed_run V (n + 2) ops (snd (seaweed_put V n h d w))"
| "weed_run V n (BlobGet h f # ops) w = weed_run V (n + 1) ops (snd (seaweed_get V n h f w))"
| "weed_run V n (BlobDelete h f # ops) w = weed_run V (n + 1) ops (snd (seaweed_delete V n h f w))"

lemma weed_run_keeps:
  assumes "weed_ok V held" "held w f = Some d" "\<forall>h. BlobDelete h (as_bytes f) \<notin> set ops"
  shows "held (weed_run V n ops w) f = Some d"
  using assms(2,3)
proof (induction ops arbitrary: n w)
  case (Cons op ops)
  have "held (weed_run V m ops w1) f = Some d" if "held w1 f = Some d" for m w1
    using Cons.IH [OF that] Cons.prems(2) by simp
  note step = this
  show ?case
  proof (cases op)
    case (BlobPut h x)
    have "held (snd (seaweed_put V n h x w)) f = Some d"
      using seaweed_put_effect [OF assms(1) prod.collapse [symmetric], of n h x w] Cons.prems(1) by simp
    then show ?thesis by (simp add: BlobPut step)
  next
    case (BlobGet h g)
    have "held (snd (seaweed_get V n h g w)) f = Some d"
      using seaweed_get_same [OF assms(1) prod.collapse [symmetric], of n h g w] Cons.prems(1) by simp
    then show ?thesis by (simp add: BlobGet step)
  next
    case (BlobDelete h g)
    then have "g \<noteq> as_bytes f" using Cons.prems(2) by auto
    then have "held (snd (seaweed_delete V n h g w)) f = Some d"
      using seaweed_delete_other [OF assms(1), of g f n h w] Cons.prems(1) by simp
    then show ?thesis by (simp add: BlobDelete step)
  qed
qed simp

text \<open>
  C40. A block stored at SeaweedFS is there to be read: after any further puts, reads and deletions of other tokens, a
  read with the token of the put fails or returns exactly the data, and returns it when the service
  answers.
\<close>

theorem seaweed_put_get:
  assumes "weed_ok V held" "seaweed_put V n h d w = (Ok fid, w1)" "\<forall>h'. BlobDelete h' fid \<notin> set ops"
  shows "fst (seaweed_get V k h fid (weed_run V m ops w1)) \<in> {Err, Ok d} \<and>
    (weed_up V held k \<longrightarrow> fst (seaweed_get V k h fid (weed_run V m ops w1)) = Ok d)"
proof -
  obtain f where f: "fid = as_bytes f" "valid_utf8 f" "held w1 f = Some d" using seaweed_put_effect [OF assms(1,2)] by blast
  have "held (weed_run V m ops w1) f = Some d" using weed_run_keeps [OF assms(1) f(3)] assms(3) f(1) by simp
  from seaweed_get_effect [OF assms(1) f(2) this prod.collapse [symmetric], of k h] f(1) show ?thesis by simp
qed

section \<open>A concrete service\<close>

definition demo_weed_send :: "nat \<Rightarrow> weed_request \<Rightarrow> (string, bytes) table \<Rightarrow> (nat \<times> bytes result) result \<times> (string, bytes) table" where
  "demo_weed_send n req t =
     (case req of
        WeedGet url \<Rightarrow>
          (case strip_prefix ''v/'' url of
             None \<Rightarrow> (Ok (200, Ok (as_bytes (replicate (Suc (sum_list (map (length \<circ> fst) t))) CHR ''x''))), t)
           | Some f \<Rightarrow> (case map_of t f of None \<Rightarrow> (Ok (404, Ok []), t) | Some d \<Rightarrow> (Ok (200, Ok d), t)))
      | WeedPut url d \<Rightarrow>
          (case strip_prefix ''v/'' url of None \<Rightarrow> (Err, t) | Some f \<Rightarrow> (Ok (201, Ok []), AList.update f d t))
      | WeedDelete url \<Rightarrow>
          (case strip_prefix ''v/'' url of None \<Rightarrow> (Err, t) | Some f \<Rightarrow> (Ok (202, Ok []), AList.delete f t)))"

definition demo_weed :: "(string, bytes) table Weed" where
  "demo_weed = \<lparr>weed_send = demo_weed_send,
     weed_fid = (\<lambda>b. bind_result (from_utf8 b) (\<lambda>s. Ok (Some s))), master_url = ''m'', volume_url = ''v''\<rparr>"

lemma demo_fid_fresh: "map_of t (replicate (Suc (sum_list (map (length \<circ> fst) t))) c) = None"
proof -
  have "length f \<le> sum_list (map (length \<circ> fst) t)" if "f \<in> fst ` set t" for f
    using that member_le_sum_list [of "length f" "map (length \<circ> fst) t"] by force
  then have "replicate (Suc (sum_list (map (length \<circ> fst) t))) c \<notin> fst ` set t" by (metis Suc_n_not_le_n length_replicate)
  then show ?thesis by (simp add: map_of_eq_None_iff)
qed

lemma demo_weed_ok: "weed_ok demo_weed map_of"
proof -
  have "strip_prefix ''v/'' (''v/'' @ f) = Some f" "strip_prefix ''v/'' ''m/dir/assign'' = None" for f
    by (simp only: strip_prefix_append) (simp add: strip_prefix_def)
  then show ?thesis using demo_fid_fresh
    by (auto simp: weed_ok_def demo_weed_def demo_weed_send_def assign_url_def fid_url_def update_conv' AList.delete_conv'
        is_success_def bind_result_def from_utf8_Ok as_bytes_inject simp del: replicate_Suc split: option.splits result.splits)
qed

theorem seaweed_put_get_witness:
  "\<exists>fid w1. seaweed_put demo_weed 0 [1] [7, 8] [] = (Ok fid, w1) \<and>
     fst (seaweed_get demo_weed 9 [1] fid (weed_run demo_weed 2 [BlobPut [2] [9], BlobDelete [3] (as_bytes ''y'')] w1)) = Ok [7, 8]"
proof -
  have "seaweed_put demo_weed 0 [1] [7, 8] [] = (Ok (as_bytes ''x''), [(''x'', [7, 8])])" by code_simp
  moreover have "weed_up demo_weed map_of 9"
    by (auto simp: weed_up_def demo_weed_def demo_weed_send_def fid_url_def is_success_def strip_prefix_def)
  ultimately show ?thesis
    using seaweed_put_get [OF demo_weed_ok, of 0 "[1]" "[7, 8]" "[]" "as_bytes ''x''" _
        "[BlobPut [2] [9], BlobDelete [3] (as_bytes ''y'')]" 9 2]
    by (simp add: as_bytes_inject)
qed

end
