(* ===== verification/Server.thy ===== *)
theory Server
  imports Seaweed
begin

text \<open>
  Starting a site and its background tasks (\<^verbatim>\<open>main\<close>, \<^verbatim>\<open>run_server\<close> and \<^verbatim>\<open>run_status\<close> of \<^verbatim>\<open>src/src/main.rs\<close>). Starting is
  one function up to the point where the tasks and listeners are spawned; a task is a loop around a sleep, and its
  body is a function on the site. The peers of a site are read into a hash map, whose order is an argument.
\<close>

section \<open>Starting a site\<close>

text \<open>The surroundings of the process: base64, the environment, the clock, round trips, and the free space.\<close>

record Host =
  b64_decode :: "string \<Rightarrow> bytes result"
  admin_password :: "string option"
  host_micros :: "nat \<Rightarrow> int"
  round_trip :: "nat \<Rightarrow> int"
  free_space :: "int result"

definition load_config :: "Tools \<Rightarrow> Machine \<Rightarrow> string \<Rightarrow> string option \<Rightarrow> Config" where
  "load_config T M path secret_override =
     (let config = (case config_load T M path of Ok c \<Rightarrow> c | Err \<Rightarrow> config_default)
      in case secret_override of
           None \<Rightarrow> config
         | Some secret \<Rightarrow> config\<lparr>server := (server config)\<lparr>cluster_secret := secret\<rparr>\<rparr>)"

definition ensure_private_key :: "Tools \<Rightarrow> string \<Rightarrow> Config \<Rightarrow> Machine \<Rightarrow> (Config \<times> Machine) result" where
  "ensure_private_key T path config M =
     (if noise_private_key (server config) \<noteq> [] then Ok (config, M)
      else
        bind_result (generate_private_key T) (\<lambda>key.
          (let config1 = config\<lparr>server := (server config)\<lparr>noise_private_key := key\<rparr>\<rparr>
           in bind_result (config_save T config1 path M) (\<lambda>M1. Ok (config1, M1)))))"

definition join_peer ::
    "Http \<Rightarrow> Tools \<Rightarrow> Host \<Rightarrow> network \<Rightarrow> string \<Rightarrow> string option \<Rightarrow> Config \<Rightarrow> Machine \<Rightarrow>
     (location \<times> string) option result \<times> Config \<times> ClusterClock \<times> Machine" where
  "join_peer W T H send path join config M =
     (let clk = clock_new (clock_offset_ms (server config))
      in case join of
           None \<Rightarrow> (Ok None, config, clk, M)
         | Some url \<Rightarrow>
             (case perform_join_handshake W T send (round_trip H) (host_micros H 0) url path config clk M of
                (r, config1, clk1, M1) \<Rightarrow> (bind_result r (\<lambda>peer. Ok (Some peer)), config1, clk1, M1)))"

definition seed_usage :: "Store \<Rightarrow> DiskGuard \<Rightarrow> DiskGuard" where
  "seed_usage s g = (if guard_enabled g \<and> quota_enabled g then set_local_usage (wrap_u64 (local_block_bytes s)) g else g)"

text \<open>The store with the site's own entry, the peer it joined, and the administrator of the environment.\<close>

definition register_site :: "Host \<Rightarrow> Config \<Rightarrow> (location \<times> string) option \<Rightarrow> Store \<Rightarrow> Store" where
  "register_site H config peer s =
     (let s1 = register_node (host_micros H 1) (advertise_addr (server config)) s
      in case peer of None \<Rightarrow> s1 | Some (peer_id, peer_url) \<Rightarrow> record_peer (host_micros H 2) peer_id peer_url s1)"

definition env_bootstrap :: "Crates \<Rightarrow> Host \<Rightarrow> Store \<Rightarrow> Store result" where
  "env_bootstrap C H s =
     (case admin_password H of None \<Rightarrow> Ok s | Some p \<Rightarrow> bootstrap_admin_user C (host_micros H 3) (Some p) s)"

definition run_server ::
    "Crates \<Rightarrow> Http \<Rightarrow> Tools \<Rightarrow> Host \<Rightarrow> network \<Rightarrow> 'b \<Rightarrow> string \<Rightarrow> string option \<Rightarrow> string option \<Rightarrow> Machine \<Rightarrow>
     (Config \<times> 'b Site) result \<times> Machine" where
  "run_server C W T H send data path join secret_override M =
     (case ensure_private_key T path (load_config T M path secret_override) M of
        Err \<Rightarrow> (Err, M)
      | Ok (config, M1) \<Rightarrow>
          (case decode_private_key (b64_decode H) (noise_private_key (server config)) of
             Err \<Rightarrow> (Err, M1)
           | Ok key \<Rightarrow>
               (case join_peer W T H send path join config M1 of
                  (Err, config1, clk, M2) \<Rightarrow> (Err, M2)
                | (Ok peer, config1, clk, M2) \<Rightarrow>
                    (let db_file = db_path (database config1);
                         db = register_site H config1 peer
                                (open_store M2 db_file (cfg_location_id (storage config1)) clk)
                     in case env_bootstrap C H db of
                          Err \<Rightarrow> (Err, close_store db_file db M2)
                        | Ok db1 \<Rightarrow>
                            (Ok (config1,
                               \<lparr>st = db1, blobs = data,
                                disk_guard = seed_usage db1
                                  (guard_from_config (free_space H) (cfg_min_free (storage config1)) (cfg_max (storage config1))),
                                tick = 4\<rparr>),
                             close_store db_file db1 M2)))))"

text \<open>\<^verbatim>\<open>join\<close> first writes the configuration of the new site, if there is none.\<close>

definition run_join ::
    "Crates \<Rightarrow> Http \<Rightarrow> Tools \<Rightarrow> Host \<Rightarrow> network \<Rightarrow> 'b \<Rightarrow> string \<Rightarrow> string \<Rightarrow> string \<Rightarrow> SiteArgs \<Rightarrow> Machine \<Rightarrow>
     (Config \<times> 'b Site) result \<times> Machine" where
  "run_join C W T H send data peer secret path site M =
     (case (if map_of (files_of M) path \<noteq> None then Ok M
            else bind_result (build_site_config T site secret) (\<lambda>config. config_save T config path M)) of
        Err \<Rightarrow> (Err, M)
      | Ok M1 \<Rightarrow> run_server C W T H send data path (Some peer) (Some secret) M1)"

section \<open>The background tasks\<close>

text \<open>
  The bodies of the loops. The link states of \<open>gossip_membership\<close> only decide what is logged and are left out.
  \<open>order\<close> is the order of a hash map, \<open>pick\<close> the random choice of a peer; calls are numbered from \<open>n\<close>.
\<close>

definition fact_sync_cycle ::
    "Crates \<Rightarrow> Http \<Rightarrow> network \<Rightarrow> string \<Rightarrow> (nat \<Rightarrow> int) \<Rightarrow> ((location \<times> string) list \<Rightarrow> (location \<times> string) list) \<Rightarrow> nat \<Rightarrow>
     Store \<Rightarrow> (nat \<times> Store) option" where
  "fact_sync_cycle C W send secret sys order n s =
     (let peers = get_peers_with_urls s
      in if peers = [] then Some (n, s)
         else
           (let s1 = snd (gossip_membership W send secret sys n (order peers) ([], s));
                m = n + length peers
            in map_option (\<lambda>(k, s2). (m + k, s2))
                 (sync_facts_once C (\<lambda>k. sys (m + k)) (\<lambda>url k. noise_get_facts W send secret url (m + k))
                    (order (get_peers_with_urls s1)) 0 s1)))"

definition clock_sync_cycle ::
    "Http \<Rightarrow> network \<Rightarrow> (nat \<Rightarrow> int) \<Rightarrow> string \<Rightarrow> int \<Rightarrow> nat \<Rightarrow> nat \<Rightarrow> Store \<Rightarrow> Store" where
  "clock_sync_cycle W send rtt secret sys pick n s =
     (let peers = get_peers s
      in if peers = [] then s
         else
           (let answer =
              (case noise_get_json W send rtt n (snd (peers ! (pick mod length peers))) ''/internal/cluster/config'' secret of
                 Err \<Rightarrow> None
               | Ok (info, delay) \<Rightarrow> Some (cluster_time_micros info, delay))
            in s\<lparr>clock := snd (refresh_clock_offset answer sys (clock s))\<rparr>))"

definition gc_cycle :: "'b Env \<Rightarrow> Config \<Rightarrow> 'b Site \<Rightarrow> 'b Site" where
  "gc_cycle E config \<sigma> = snd (reap_orphaned_blocks E (gc_grace_period_seconds (storage config)) \<sigma>)"

definition usage_cycle :: "'b Site \<Rightarrow> 'b Site" where
  "usage_cycle \<sigma> =
     (if quota_enabled (disk_guard \<sigma>)
      then \<sigma>\<lparr>disk_guard := set_local_usage (wrap_u64 (local_block_bytes (st \<sigma>))) (disk_guard \<sigma>)\<rparr> else \<sigma>)"

definition free_space_cycle :: "'b Env \<Rightarrow> 'b Site \<Rightarrow> 'b Site" where
  "free_space_cycle E \<sigma> =
     (if guard_enabled (disk_guard \<sigma>)
      then ticked (\<sigma>\<lparr>disk_guard := guard_refresh (statvfs_free E (tick \<sigma>)) (disk_guard \<sigma>)\<rparr>) else \<sigma>)"

definition heartbeat :: "'b Env \<Rightarrow> Config \<Rightarrow> 'b Site \<Rightarrow> 'b Site" where
  "heartbeat E config \<sigma> = ticked (\<sigma>\<lparr>st := register_node (sys_now E \<sigma>) (advertise_addr (server config)) (st \<sigma>)\<rparr>)"

section \<open>Status\<close>

definition char_count :: "string \<Rightarrow> nat" where
  "char_count s = length (filter (\<lambda>c. \<not> utf8_cont (byte_of c)) s)"

text \<open>\<^verbatim>\<open>{id:<14}\<close> fills up with spaces to 14 characters.\<close>

definition pad_to :: "nat \<Rightarrow> string \<Rightarrow> string" where
  "pad_to w s = s @ replicate (w - char_count s) CHR '' ''"

fun join_text :: "string \<Rightarrow> string list \<Rightarrow> string" where
  "join_text sep [] = []"
| "join_text sep [x] = x"
| "join_text sep (x # y # xs) = x @ sep @ join_text sep (y # xs)"

definition dash :: string where
  "dash = [CHR 0xE2, CHR 0x80, CHR 0x94]"

definition guard_state :: "DiskGuard \<Rightarrow> string" where
  "guard_state g =
     (case guard_check g of
        None \<Rightarrow>
          if \<not> guard_enabled g then ''off''
          else ''OK, '' @ join_text '', ''
                 ((if free_space_enabled g then [''reserve '' @ format_bytes (min_free_bytes g)] else []) @
                  (if quota_enabled g then [''cap '' @ format_bytes (max_bytes g)] else []))
      | Some LowFreeSpace \<Rightarrow> ''TRIPPED '' @ dash @ '' writes refused (reserve '' @ format_bytes (min_free_bytes g) @ '')''
      | Some OverQuota \<Rightarrow> ''TRIPPED '' @ dash @ '' writes refused (cap '' @ format_bytes (max_bytes g) @ '')'')"

definition peer_line :: "Store \<Rightarrow> location \<times> string \<Rightarrow> string" where
  "peer_line s p =
     ''    - '' @ pad_to 14 (fst p) @ '' '' @ snd p @ ''  (synced through fact #'' @ show_int (get_cursor s (fst p)) @ '')''"

definition status_lines :: "Config \<Rightarrow> int result \<Rightarrow> Store \<Rightarrow> string list" where
  "status_lines config free_reading s =
     (let stats = stats s;
          guard = set_local_usage (wrap_u64 (st_local_block_bytes stats))
                    (guard_from_config free_reading (cfg_min_free (storage config)) (cfg_max (storage config)))
      in [''Shardscape site '' @ [CHR 0x27] @ cfg_location_id (storage config) @ [CHR 0x27],
          ''  S3 endpoint:        http://'' @ s3_bind_addr (server config),
          ''  live objects:       '' @ show_nat (st_live_objects stats),
          ''  local blocks:       '' @ show_nat (st_local_blocks stats) @ '' ('' @
             format_bytes (wrap_u64 (st_local_block_bytes stats)) @ '')'',
          ''  blocks to pull:     '' @ show_nat (st_pending_pulls stats),
          ''  pending GC:         '' @ show_nat (st_pending_deletions stats),
          ''  fact-log length:    '' @ show_nat (st_fact_count stats),
          if free_space_enabled guard
          then ''  disk free:          '' @ format_bytes (free_bytes guard) @ '' (guard: '' @ guard_state guard @ '')''
          else ''  disk guard:         '' @ guard_state guard,
          ''  peers:              '' @ show_nat (length (get_peers s))] @
         map (peer_line s) (get_peers s))"

definition run_status :: "Tools \<Rightarrow> int result \<Rightarrow> string \<Rightarrow> Machine \<Rightarrow> string list result \<times> Machine" where
  "run_status T free_reading path M =
     (case config_load T M path of
        Err \<Rightarrow> (Err, M)
      | Ok config \<Rightarrow>
          (let db = open_store M (db_path (database config)) (cfg_location_id (storage config))
                      (clock_new (clock_offset_ms (server config)))
           in (Ok (status_lines config free_reading db), close_store (db_path (database config)) db M)))"

section \<open>What starting and reporting do\<close>

text \<open>
  A start with a configuration file that cannot be read replaces the file: the site runs with the defaults, makes a
  key for them and saves them under the same name, so the settings of the file, the cluster secret included, are gone.
\<close>

theorem unreadable_config_replaced:
  assumes "config_load T M path = Err" "generate_private_key T = Ok key"
    and "config_save T (config_default\<lparr>server := (server config_default)\<lparr>noise_private_key := key\<rparr>\<rparr>) path M = Ok M1"
  shows "files_of (snd (run_server C W T H send d path None None M)) = files_of M1"
  using assms
  by (auto simp: run_server_def load_config_def ensure_private_key_def config_default_def join_peer_def close_store_def
      Let_def split: result.splits prod.splits)

text \<open>The status line says that writes are refused exactly when the guard refuses them.\<close>

theorem guard_state_tripped: "prefix ''TRIPPED'' (guard_state g) \<longleftrightarrow> \<not> writes_allowed g"
  by (auto simp: guard_state_def writes_allowed_def split: option.split GuardTrip.split)

section \<open>What background steps do to the cluster\<close>

lemma background_reachable:
  assumes "background\<^sup>*\<^sup>* s s'" "reachable C (\<sigma>(i := s))"
  shows "reachable C (\<sigma>(i := s'))"
  using assms
proof (induction rule: rtranclp_induct)
  case (step t t')
  from reachable.step [OF step.IH [OF step.prems] cluster_step.task [of "\<sigma>(i := t)" i t']] step.hyps(2) show ?case
    by (simp only: fun_upd_same fun_upd_upd)
qed simp

lemma background_log: "background\<^sup>*\<^sup>* s s' \<Longrightarrow> fact_log s' = fact_log s"
  by (induction rule: rtranclp_induct) (simp_all add: background_keeps(3))

lemma background_store_ok: "background\<^sup>*\<^sup>* s s' \<Longrightarrow> store_ok s \<Longrightarrow> store_ok s'"
  by (induction rule: rtranclp_induct) (simp_all add: background_ok)

lemma background_location: "background\<^sup>*\<^sup>* s s' \<Longrightarrow> local_location_id s' = local_location_id s"
  by (induction rule: rtranclp_induct) (simp_all add: background_keeps(5))

lemma record_peers_background: "background\<^sup>*\<^sup>* s (record_peers sys n ns s)"
  by (induction sys n ns s rule: record_peers.induct) (auto intro: converse_rtranclp_into_rtranclp bg_record_peer)

lemma register_site_background: "background\<^sup>*\<^sup>* s (register_site H config peer s)"
proof -
  have r: "background\<^sup>*\<^sup>* s (register_node t url s)" for t url by (rule r_into_rtranclp) (rule bg_register)
  then have "background\<^sup>*\<^sup>* s (record_peer t' l u (register_node t url s))" for t url t' l u
    by (rule rtranclp.rtrancl_into_rtrancl) (rule bg_record_peer)
  with r show ?thesis by (simp add: register_site_def Let_def split: option.split)
qed

section \<open>Joining\<close>

text \<open>A host name under which requests reach the handler of a site.\<close>

definition reaches :: "network \<Rightarrow> string \<Rightarrow> 'b Env \<Rightarrow> Http \<Rightarrow> Config \<Rightarrow> string \<Rightarrow> 'b Site \<Rightarrow> bool" where
  "reaches send url P W config secret \<rho> \<longleftrightarrow> (\<forall>n req. send n (host_port url) req = answers P W config secret \<rho> req)"

definition cluster_info :: "'b Env \<Rightarrow> Config \<Rightarrow> 'b Site \<Rightarrow> ClusterConfigResponse" where
  "cluster_info P config \<rho> =
     \<lparr>cluster_time_micros = clock_now_micros (clock (st \<rho>)) (sys_now P \<rho>),
      ccr_location_id = cfg_location_id (storage config), ccr_advertise_addr = advertise_addr (server config)\<rparr>"

lemma handshake_info:
  assumes "http_ok W" "visible secret" "reaches send url P W pconfig secret \<rho>"
    and "body_ok (config_to_vec W) (config_from_slice W) {cluster_info P pconfig \<rho>}"
  shows "noise_get_json W send rtt 0 url ''/internal/cluster/config'' secret = Ok (cluster_info P pconfig \<rho>, rtt 0)"
proof -
  obtain b where b: "config_to_vec W (cluster_info P pconfig \<rho>) = Ok b" "config_from_slice W b = Ok (cluster_info P pconfig \<rho>)"
    using assms(4) by (auto simp: body_ok_def)
  have "build_request W ''/internal/cluster/config'' secret =
      Ok \<lparr>req_path = ''/internal/cluster/config'', req_query = None, req_secret = Some secret\<rparr>"
    by (rule build_request_plain(1) [OF assms(1,2)]) (simp_all add: uri_chars_def)
  then show ?thesis
    using assms(3) b
    by (simp add: noise_get_json_def reaches_def answers_def handle_internal_request_def cluster_info_def [symmetric] is_success_def)
qed

lemma handshake_peer:
  assumes "http_ok W" "visible (cluster_secret (server config))" "reaches send url P W pconfig (cluster_secret (server config)) \<rho>"
    and "body_ok (config_to_vec W) (config_from_slice W) {cluster_info P pconfig \<rho>}"
    and "cfg_location_id (storage pconfig) \<noteq> []"
    and "perform_join_handshake W T send rtt sys url path config clk M = (Ok peer, config', clk', M')"
  shows "peer = (cfg_location_id (storage pconfig), url)" "storage config' = storage config" "database config' = database config"
    "stores_of M' = stores_of M"
proof -
  note handshake_info [OF assms(1-4), of rtt]
  with assms(5,6) show "peer = (cfg_location_id (storage pconfig), url)" "storage config' = storage config"
    "database config' = database config" "stores_of M' = stores_of M"
    by (auto simp: perform_join_handshake_def Let_def cluster_info_def config_save_def bind_result_def split: if_splits result.splits)
qed

lemma load_config_secret: "cluster_secret (server (load_config T M path (Some secret))) = secret"
  by (simp add: load_config_def Let_def)

lemma ensure_private_key_keeps:
  assumes "ensure_private_key T path config M = Ok (config', M')"
  shows "cluster_secret (server config') = cluster_secret (server config)" "stores_of M' = stores_of M"
  using assms by (auto simp: ensure_private_key_def bind_result_def Let_def config_save_def split: if_splits result.splits)

lemma open_store_fresh: "map_of (stores_of M) path = None \<Longrightarrow> open_store M path loc clk = store_new loc clk"
  by (simp add: open_store_def)

lemma run_server_joined:
  assumes "http_ok W" "visible secret" "reaches send url P W pconfig secret \<rho>"
    and "body_ok (config_to_vec W) (config_from_slice W) {cluster_info P pconfig \<rho>}" "cfg_location_id (storage pconfig) \<noteq> []"
    and "run_server C W T H send d path (Some url) (Some secret) M = (Ok (config, \<sigma>), M')" "admin_password H = None"
    and "map_of (stores_of M) (db_path (database config)) = None"
  shows "\<exists>clk. st \<sigma> = register_site H config (Some (cfg_location_id (storage pconfig), url))
    (store_new (cfg_location_id (storage config)) clk)"
proof -
  obtain config1 M1 where c1: "ensure_private_key T path (load_config T M path (Some secret)) M = Ok (config1, M1)"
    using assms(6) by (auto simp: run_server_def split: result.splits)
  note k1 = ensure_private_key_keeps [OF c1, unfolded load_config_secret]
  let ?clk = "clock_new (clock_offset_ms (server config1))"
  let ?join = "perform_join_handshake W T send (round_trip H) (host_micros H 0) url path config1 ?clk M1"
  obtain peer clk M2 where j: "?join = (Ok peer, config, clk, M2)"
    and s: "st \<sigma> = register_site H config (Some peer) (open_store M2 (db_path (database config)) (cfg_location_id (storage config)) clk)"
    using assms(6,7)
    by (auto simp: run_server_def c1 join_peer_def env_bootstrap_def Let_def bind_result_def split: result.splits prod.splits option.splits)
  note h = handshake_peer [OF assms(1) _ _ assms(4,5) j, unfolded k1(1), OF assms(2,3)]
  have "map_of (stores_of M2) (db_path (database config)) = None" using assms(8) by (simp add: h(4) k1(2))
  then show ?thesis using s by (auto simp: h(1) open_store_fresh)
qed

lemma first_peers:
  assumes "p \<noteq> i"
  shows "get_peers_with_urls (register_site H config (Some (p, url)) (store_new i clk)) = [(p, url)]"
  using assms by (simp add: register_site_def store_new_def register_node_def record_peer_def upsert_node_def
      get_peers_with_urls_def get_peers_def all_nodes_def)

lemma gossip_one:
  assumes "http_ok W" "visible secret" "reaches send url P W pconfig secret \<rho>"
    and "body_ok (nodes_to_vec W) (nodes_from_slice W) {all_nodes (st \<rho>)}"
  shows "snd (gossip_membership W send secret sys n [(p, url)] (up, s)) = record_peers sys n (all_nodes (st \<rho>)) s"
proof -
  obtain b where b: "nodes_to_vec W (all_nodes (st \<rho>)) = Ok b" "nodes_from_slice W b = Ok (all_nodes (st \<rho>))"
    using assms(4) by (auto simp: body_ok_def)
  have "build_request W ''/internal/nodes'' secret =
      Ok \<lparr>req_path = ''/internal/nodes'', req_query = None, req_secret = Some secret\<rparr>"
    using build_request_plain(1) [OF assms(1,2), of "''/internal/nodes''"] by simp
  then have "noise_get_bytes W send n url ''/internal/nodes'' secret = Ok b"
    using assms(3) by (simp add: noise_get_bytes_def reaches_def answers_def handle_internal_request_def b(1) default_vec_def is_success_def)
  then show ?thesis by (simp add: take_nodes_def b(2) Let_def)
qed

text \<open>The peers listed in a registry, and their addresses.\<close>

definition peers_within :: "(location \<times> string) set \<Rightarrow> Store \<Rightarrow> bool" where
  "peers_within A s \<longleftrightarrow> set (get_peers_with_urls s) \<subseteq> A"

lemma get_peers_nodes:
  "table_ok (nodes s) \<Longrightarrow>
    (l, u) \<in> set (get_peers_with_urls s) \<longleftrightarrow> l \<noteq> local_location_id s \<and> (\<exists>r. map_of (nodes s) l = Some r \<and> u = api_url r)"
proof -
  assume t: "table_ok (nodes s)"
  have "(l, u) \<in> set (get_peers_with_urls s) \<longleftrightarrow> l \<noteq> local_location_id s \<and> (\<exists>r. (l, r) \<in> set (nodes s) \<and> u = api_url r)"
    unfolding get_peers_with_urls_def get_peers_def all_nodes_def by auto
  then show ?thesis using set_table_iff [OF t] by simp
qed

lemma record_peers_lists:
  assumes "peers_within A s" "table_ok (nodes s)" "\<forall>q \<in> set ns. fst q = local_location_id s \<or> q \<in> A"
  shows "peers_within A (record_peers sys n ns s) \<and> table_ok (nodes (record_peers sys n ns s))"
  using assms
proof (induction sys n ns s rule: record_peers.induct)
  case (2 sys n i url ns s)
  have t: "table_ok (nodes (record_peer (sys n) i url s))" using 2(3) by (simp add: record_peer_def upsert_node_def)
  have "peers_within A (record_peer (sys n) i url s)"
    using 2(2-4) by (auto simp: peers_within_def subset_iff get_peers_nodes t nodes_record split: if_splits)
  then show ?case using 2(1) t 2(4) by simp
qed simp

lemma single_peer:
  assumes "peers_within ({p} \<times> U) s" "table_ok (nodes s)" "p \<in> member_ids s" "p \<noteq> local_location_id s"
  shows "\<exists>u \<in> U. get_peers_with_urls s = [(p, u)]"
proof -
  have d: "distinct (map fst (get_peers_with_urls s))"
    using assms(2) by (auto simp: get_peers_with_urls_def get_peers_def all_nodes_def comp_def split_def distinct_map_filter filter_map)
  have "p \<in> fst ` set (get_peers_with_urls s)"
    using assms(3,4) by (force simp: member_ids_def get_peers_with_urls_def get_peers_def all_nodes_def)
  then obtain q qs where g: "get_peers_with_urls s = q # qs" by (cases "get_peers_with_urls s") auto
  then have "fst q = p" "snd q \<in> U" "\<forall>r \<in> set qs. fst r = p" using assms(1) by (force simp: peers_within_def)+
  moreover from this(1,3) d have "qs = []" unfolding g by (cases qs) auto
  ultimately show ?thesis using g by (intro bexI [of _ "snd q"]) auto
qed

lemma first_cycle_peers:
  assumes "http_ok W" "visible secret" "reaches send url P W pconfig secret \<rho>" "p \<noteq> i"
    and "body_ok (nodes_to_vec W) (nodes_from_slice W) {all_nodes (st \<rho>)}"
    and "\<forall>(l, u) \<in> set (all_nodes (st \<rho>)). l = i \<or> l = p \<and> reaches send u P W pconfig secret \<rho>"
    and "s = register_site H config (Some (p, url)) (store_new i clk)"
    and "s1 = snd (gossip_membership W send secret sys n [(p, url)] ([], s))"
  shows "\<exists>u. get_peers_with_urls s1 = [(p, u)] \<and> reaches send u P W pconfig secret \<rho>" "background\<^sup>*\<^sup>* (store_new i clk) s1"
proof -
  have loc: "local_location_id s = i"
    using background_location [OF register_site_background] by (simp add: assms(7)) (simp add: store_new_def)
  have s1: "s1 = record_peers sys n (all_nodes (st \<rho>)) s" unfolding assms(8) by (rule gossip_one [OF assms(1-3,5)])
  let ?U = "{u. reaches send u P W pconfig secret \<rho>}"
  have start: "peers_within ({p} \<times> ?U) s" using first_peers [OF assms(4), of H config url clk] assms(3) by (simp add: peers_within_def assms(7))
  have "store_ok s" using background_store_ok [OF register_site_background] by (simp add: assms(7))
  then have t: "table_ok (nodes s)" by (simp add: store_ok_def)
  have "\<forall>q \<in> set (all_nodes (st \<rho>)). fst q = local_location_id s \<or> q \<in> {p} \<times> ?U" using assms(6) by (auto simp: loc)
  from record_peers_lists [OF start t this, of sys n]
  have l: "peers_within ({p} \<times> ?U) s1" "table_ok (nodes s1)" by (simp_all add: s1)
  have "(p, url) \<in> set (get_peers_with_urls s)" using first_peers [OF assms(4), of H config url clk] by (simp add: assms(7))
  then have "\<exists>r. map_of (nodes s) p = Some r" using get_peers_nodes [OF t] by blast
  then have "p \<in> member_ids s" unfolding member_ids_def by (metis map_of_eq_None_iff option.distinct(1))
  then have "p \<in> member_ids s1" by (simp add: s1 record_peers_nodes)
  with single_peer [OF l] assms(4) loc
  show "\<exists>u. get_peers_with_urls s1 = [(p, u)] \<and> reaches send u P W pconfig secret \<rho>" by (auto simp: s1 record_peers_nodes)
  show "background\<^sup>*\<^sup>* (store_new i clk) s1"
    using register_site_background [of "store_new i clk" H config "Some (p, url)"] record_peers_background [of s sys n "all_nodes (st \<rho>)"]
    by (simp add: s1 assms(7))
qed

text \<open>
  A new site catches up: a site that starts with an empty database and joins through a peer lists this peer, and
  its first pass of gossip and fact pulling returns and leaves it with exactly the objects and credentials of the
  peer, when the peer's handler is reached and no other site has written.
\<close>

theorem joined_site_catches_up:
  assumes boot: "run_server C W T H send0 d path (Some url) (Some secret) M = (Ok (config, \<sigma>), M')"
    and fresh: "map_of (stores_of M) (db_path (database config)) = None" "admin_password H = None"
    and W: "http_ok W" "visible secret" "hex_ok C" "json_ok C"
    and peer: "reaches send0 url P W pconfig secret \<rho>0" "reaches send url P W pconfig secret \<rho>"
      "cfg_location_id (storage pconfig) = p" "p \<noteq> []" "crates P = C"
    and bodies: "body_ok (config_to_vec W) (config_from_slice W) {cluster_info P pconfig \<rho>0}"
      "body_ok (nodes_to_vec W) (nodes_from_slice W) {all_nodes (st \<rho>)}"
      "body_ok (facts_to_vec W) (facts_from_slice W) {fs. set fs \<subseteq> set (log_facts C (st \<rho>))}"
    and cluster: "reachable C R" "R p = st \<rho>" "R i = store_new i c" "i = cfg_location_id (storage config)" "i \<noteq> p"
      "\<forall>l. l \<noteq> p \<longrightarrow> fact_log (R l) = []" "int (length (fact_log (st \<rho>))) < 2 ^ 63"
      "\<forall>(l, u) \<in> set (all_nodes (st \<rho>)). l = i \<or> l = p \<and> reaches send u P W pconfig secret \<rho>"
    and ties: "\<And>k. tie_free obj_updated_at (candidates (fact_object C) k (all_facts C R))"
      "\<And>k. tie_free usr_updated_at (candidates fact_user k (all_facts C R))"
    and order: "\<And>ps. mset (order ps) = mset ps"
  shows "get_peers_with_urls (st \<sigma>) = [(p, url)] \<and>
    (\<exists>m s. fact_sync_cycle C W send secret sys order n (st \<sigma>) = Some (m, s) \<and>
      get_object s = get_object (st \<rho>) \<and> get_user C s = get_user C (st \<rho>))"
proof -
  obtain clk where s: "st \<sigma> = register_site H config (Some (p, url)) (store_new i clk)"
    using run_server_joined [OF W(1,2) peer(1) bodies(1) _ boot fresh(2,1)] peer(3,4) cluster(4) by auto
  have one: "get_peers_with_urls (st \<sigma>) = [(p, url)]" unfolding s by (rule first_peers) (use cluster(5) in simp)
  have ord: "order [x] = [x]" for x using order [of "[x]"] by simp
  define s1 where "s1 = snd (gossip_membership W send secret sys n [(p, url)] ([], st \<sigma>))"
  from first_cycle_peers [OF W(1,2) peer(2) cluster(5) [symmetric] bodies(2) cluster(8) s s1_def]
  obtain u where u: "get_peers_with_urls s1 = [(p, u)]" "reaches send u P W pconfig secret \<rho>"
    and bg: "background\<^sup>*\<^sup>* (store_new i clk) s1" by blast
  have "background (R i) (store_new i clk)" using bg_clock [of "store_new i c" clk] by (simp add: cluster(3) store_new_def)
  with bg have bg: "background\<^sup>*\<^sup>* (R i) s1" by (rule converse_rtranclp_into_rtranclp [rotated])
  have reach: "reachable C (R(i := s1))" using background_reachable [OF bg, of C R i] cluster(1) by simp
  have log: "fact_log s1 = []" using background_log [OF bg] by (simp add: cluster(3) store_new_def)
  have facts: "all_facts C (R(i := s1)) = all_facts C R" by (rule all_facts_update) (use background_log [OF bg] in simp)
  let ?m = "n + 1"
  let ?fetch = "\<lambda>url k. noise_get_facts W (\<lambda>k. send (?m + k)) secret url k"
  have "store_ok (st \<rho>)" "log_readable C (st \<rho>)"
    using reachable_inv [OF cluster(1) W(3,4)] by (auto simp: cluster_inv_def site_ok_def simp flip: cluster(2))
  then have serves: "serves C ((R(i := s1)) l) (?fetch u)" if "l \<in> set [p] \<union> set []" for l
    using peer_serves [OF W(1,2), of "\<lambda>k. send (?m + k)" u P pconfig \<rho>] that u(2) peer(5) bodies(3) cluster(2,5,7)
    by (simp add: reaches_def)
  from passes_converge [OF reach W(3,4) cluster(5), of "[p]" "[]" ?fetch "\<lambda>_. u" "\<lambda>k. sys (?m + k)"]
  obtain k t where "sync_facts_once C (\<lambda>k. sys (?m + k)) ?fetch [(p, u)] 0 s1 = Some (k, t)"
    "get_object t = get_object (st \<rho>)" "get_user C t = get_user C (st \<rho>)"
    using serves ties cluster(2,5,6) log by (auto simp: facts)
  moreover have "?fetch = (\<lambda>url k. noise_get_facts W send secret url (?m + k))" by (simp add: noise_get_facts_def fun_eq_iff)
  moreover have "fact_sync_cycle C W send secret sys order n (st \<sigma>) = map_option (\<lambda>(k, s2). (?m + k, s2))
      (sync_facts_once C (\<lambda>k. sys (?m + k)) (\<lambda>url k. noise_get_facts W send secret url (?m + k)) [(p, u)] 0 s1)"
    by (simp add: fact_sync_cycle_def one ord Let_def s1_def [symmetric] u(1)
        del: gossip_membership.simps sync_facts_once.simps)
  ultimately show ?thesis using one by auto
qed

section \<open>A concrete site that joins\<close>

text \<open>The new site is the one of \<open>demo_config\<close>; its peer is site \<open>a\<close>, reached under every address.\<close>

definition demo_peer_config :: Config where
  "demo_peer_config = demo_config\<lparr>storage := (storage demo_config)\<lparr>cfg_location_id := ''a''\<rparr>\<rparr>"

definition demo_join_http :: Http where
  "demo_join_http = demo_http\<lparr>config_to_vec := (\<lambda>_. Ok []),
     config_from_slice := (\<lambda>_. Ok (cluster_info demo_env demo_peer_config (demo_sites ''a''))), nodes_from_slice := (\<lambda>_. Ok [])\<rparr>"

definition demo_host :: Host where
  "demo_host = \<lparr>b64_decode = (\<lambda>_. Ok (replicate 32 0)), admin_password = None, host_micros = (\<lambda>_. 1000000),
     round_trip = (\<lambda>_. 0), free_space = Err\<rparr>"

definition demo_net :: network where
  "demo_net n host req = answers demo_env demo_join_http demo_peer_config ''s'' (demo_sites ''a'') req"

definition demo_boot :: "(Config \<times> files Site) result \<times> Machine" where
  "demo_boot = run_server demo_crates demo_join_http demo_tools demo_host demo_net [] ''config.toml'' (Some ''http://a:1'') (Some ''s'')
     \<lparr>files_of = [(''config.toml'', ''site'')], stores_of = []\<rparr>"

lemma demo_a_nodes: "all_nodes (st (demo_sites ''a'')) = []"
  by (simp add: demo_sites_def demo_site_def delete_object_def append_fact_tx_def put_object_row_def Let_def store_new_def all_nodes_def)

lemma demo_reaches: "reaches demo_net url demo_env demo_join_http demo_peer_config ''s'' (demo_sites ''a'')"
  by (simp add: reaches_def demo_net_def)

lemma demo_join_bodies:
  "http_ok demo_join_http"
  "body_ok (config_to_vec demo_join_http) (config_from_slice demo_join_http) {cluster_info demo_env demo_peer_config (demo_sites ''a'')}"
  "body_ok (nodes_to_vec demo_join_http) (nodes_from_slice demo_join_http) {all_nodes (st (demo_sites ''a''))}"
  "body_ok (facts_to_vec demo_join_http) (facts_from_slice demo_join_http)
     {fs. set fs \<subseteq> set (log_facts demo_crates (st (demo_sites ''a'')))}"
proof -
  show "http_ok demo_join_http" using demo_http_ok by (simp add: http_ok_def demo_join_http_def)
  show "body_ok (nodes_to_vec demo_join_http) (nodes_from_slice demo_join_http) {all_nodes (st (demo_sites ''a''))}"
    by (simp add: body_ok_def demo_join_http_def demo_http_def demo_a_nodes)
  show "body_ok (facts_to_vec demo_join_http) (facts_from_slice demo_join_http)
     {fs. set fs \<subseteq> set (log_facts demo_crates (st (demo_sites ''a'')))}"
    using demo_bodies by (simp add: demo_sites_facts(2) demo_join_http_def)
qed (simp add: body_ok_def demo_join_http_def)

lemma demo_boots: "\<exists>\<sigma> M'. demo_boot = (Ok (demo_config, \<sigma>), M')"
proof -
  let ?M = "\<lparr>files_of = [(''config.toml'', ''site'')], stores_of = []\<rparr>" and ?secret = "cluster_secret (server demo_config)"
  have secret: "?secret = ''s''" by (simp add: demo_config_def)
  have load: "load_config demo_tools ?M ''config.toml'' (Some ''s'') = demo_config"
    by (simp add: load_config_def config_load_def demo_tools_def demo_config_def)
  have key: "ensure_private_key demo_tools ''config.toml'' demo_config ?M = Ok (demo_config, ?M)"
    by (simp add: ensure_private_key_def demo_config_def)
  have "decode_private_key (b64_decode demo_host) (noise_private_key (server demo_config)) = Ok (replicate 32 0)"
    by (simp add: decode_private_key_def demo_host_def)
  moreover have "\<exists>peer clk M2. perform_join_handshake demo_join_http demo_tools demo_net (round_trip demo_host) (host_micros demo_host 0)
      ''http://a:1'' ''config.toml'' demo_config (clock_new (clock_offset_ms (server demo_config))) ?M = (Ok peer, demo_config, clk, M2)"
  proof -
    have "clock (st (demo_sites ''a'')) = clock_new 0"
      by (simp add: demo_sites_def demo_site_def delete_object_def append_fact_tx_def put_object_row_def Let_def store_new_def)
    then have time: "cluster_time_micros (cluster_info demo_env demo_peer_config (demo_sites ''a'')) = 1000000"
      by (simp add: cluster_info_def clock_now_micros_def clock_new_def demo_env_def local_env_def wrap_i64_def)
    have off: "offset_from_peer 1000000 0 (wrap_i64 1000000) = 0" by code_simp
    have "demo_config\<lparr>server := (server demo_config)\<lparr>clock_offset_ms := 0\<rparr>\<rparr> = demo_config"
      by (simp add: demo_config_def config_default_def)
    moreover have "\<exists>M2. config_save demo_tools demo_config ''config.toml'' ?M = Ok M2"
      by (simp add: config_save_def demo_tools_def)
    ultimately show ?thesis
      using handshake_info [OF demo_join_bodies(1) demo_visible demo_reaches demo_join_bodies(2), of "round_trip demo_host" "''http://a:1''"]
      by (auto simp: perform_join_handshake_def secret Let_def time off demo_host_def)
  qed
  ultimately show ?thesis unfolding demo_boot_def run_server_def load key
    by (auto simp: join_peer_def env_bootstrap_def demo_host_def Let_def bind_result_def)
qed

theorem joined_site_catches_up_witness:
  "\<exists>config \<sigma> M' m s. demo_boot = (Ok (config, \<sigma>), M') \<and> get_peers_with_urls (st \<sigma>) = [(''a'', ''http://a:1'')] \<and>
     fact_sync_cycle demo_crates demo_join_http demo_net ''s'' (\<lambda>_. 0) id 0 (st \<sigma>) = Some (m, s) \<and>
     get_object s = get_object (st (demo_sites ''a''))"
proof -
  obtain \<sigma> M' where b: "demo_boot = (Ok (demo_config, \<sigma>), M')" using demo_boots by blast
  have r: "reachable demo_crates (\<lambda>l. st (demo_sites l))" unfolding demo_sites_st by (rule demo_reachable)
  have tf: "tie_free obj_updated_at (candidates (fact_object demo_crates) k (all_facts demo_crates (\<lambda>l. st (demo_sites l))))"
    "tie_free usr_updated_at (candidates fact_user u (all_facts demo_crates (\<lambda>l. st (demo_sites l))))" for k u
    by (simp_all add: demo_sites_facts(3) demo_fact_def fact_rows tie_free_def)
  have nodes: "\<forall>(l, u) \<in> set (all_nodes (st (demo_sites ''a''))). l = ''home'' \<or>
      l = ''a'' \<and> reaches demo_net u demo_env demo_join_http demo_peer_config ''s'' (demo_sites ''a'')"
    by (simp add: demo_a_nodes)
  have home: "st (demo_sites ''home'') = store_new ''home'' (clock_new 0)" "''home'' = cfg_location_id (storage demo_config)"
    by (simp_all add: demo_sites_def cluster_new_def demo_config_def)
  have facts: "\<forall>l. l \<noteq> ''a'' \<longrightarrow> fact_log (st (demo_sites l)) = []" "int (length (fact_log (st (demo_sites ''a'')))) < 2 ^ 63"
    by (simp_all add: demo_sites_facts(1) demo_site_facts(3))
  have fresh: "map_of (stores_of \<lparr>files_of = [(''config.toml'', ''site'')], stores_of = []\<rparr>) (db_path (database demo_config)) = None"
    "admin_password demo_host = None" by (simp_all add: demo_host_def)
  have peer: "cfg_location_id (storage demo_peer_config) = ''a''" "''a'' \<noteq> []" "crates demo_env = demo_crates" "''home'' \<noteq> ''a''"
    "mset (id ps) = mset ps" for ps :: "(location \<times> string) list"
    by (simp_all add: demo_peer_config_def demo_env_def local_env_def)
  note c = joined_site_catches_up [OF b [unfolded demo_boot_def] fresh demo_join_bodies(1) demo_visible demo_hex_ok demo_json_ok
      demo_reaches demo_reaches peer(1-3) demo_join_bodies(2-4) r refl home peer(4) facts nodes tf peer(5)]
  then show ?thesis using b by blast
qed

end
