(* ===== verification/S3_Put_Get.thy ===== *)
theory S3_Put_Get
  imports S3_Objects
begin

text \<open>
  Correctness of the object handlers: what is written is what is read back, whole and by ranges,
  failed uploads leave the namespace alone, and nothing happens without authorization.
\<close>

section \<open>Storing the chunks of a body\<close>

lemma store_blocks_size:
  assumes "store_blocks E ds u \<sigma> = (Reply u', \<sigma>')" "0 \<le> up_size u"
    and "up_size u + int (length (concat ds)) < 2 ^ 63"
  shows "up_size u' = up_size u + int (length (concat ds))"
  using assms
proof (induction ds arbitrary: u \<sigma>)
  case (Cons d ds)
  then have "in_i64 (up_size u + int (length d))" by (simp add: in_i64_def)
  with Cons show ?case by (auto simp: Let_def split: result.splits)
qed simp

lemma store_blocks_buffer:
  "store_blocks E ds u \<sigma> = (Reply u', \<sigma>') \<Longrightarrow> up_buffer u' = up_buffer u"
  by (induction E ds u \<sigma> rule: store_blocks.induct) (auto simp: Let_def split: result.splits)

text \<open>
  The step from one state of an upload and the site to another in which frames \<open>fs\<close> were received and
  chunks \<open>ds\<close> were stored: hashes and digest input grow, the chunks are held, nothing held is lost.
\<close>

definition received ::
    "Crates \<Rightarrow> ('b \<Rightarrow> hash \<Rightarrow> fid \<Rightarrow> bytes option) \<Rightarrow> (hash \<Rightarrow> bool) \<Rightarrow> bytes set \<Rightarrow> Upload \<Rightarrow> 'b Site \<Rightarrow>
     bytes list \<Rightarrow> bytes list \<Rightarrow> Upload \<Rightarrow> 'b Site \<Rightarrow> bool" where
  "received C stored good S u \<sigma> fs ds u' \<sigma>' \<longleftrightarrow>
     up_hashes u' = up_hashes u @ map (blake3 C) ds \<and> up_md5_input u' = up_md5_input u @ concat fs \<and>
     addressed C stored good S \<sigma>' \<and>
     (\<forall>d \<in> set ds. holds stored \<sigma>' (blake3 C d) d) \<and>
     (\<forall>h d. good h \<longrightarrow> holds stored \<sigma> h d \<longrightarrow> holds stored \<sigma>' h d) \<and>
     (0 \<le> up_size u \<longrightarrow> up_size u + int (length (concat ds)) < 2 ^ 63 \<longrightarrow>
        up_size u' = up_size u + int (length (concat ds)))"

context block_site
begin

lemma store_block_addressed:
  assumes "store_block E d sz \<sigma> = (r, \<sigma>')" "addressed (crates E) stored good S \<sigma>" "d \<in> S"
    and "good (blake3 (crates E) d)"
  shows "addressed (crates E) stored good S \<sigma>'"
proof (cases "get_local_block_fid (st \<sigma>) (blake3 (crates E) d) = None")
  case True
  let ?h = "blake3 (crates E) d"
  obtain q b where p: "blob_put E (tick \<sigma>) ?h d (blobs \<sigma>) = (q, b)" by (cases "blob_put E (tick \<sigma>) ?h d (blobs \<sigma>)")
  have other: "stored b h f = stored (blobs \<sigma>) h f" if "get_local_block_fid (st \<sigma>) h = Some g" for h f g
  proof -
    have "h \<noteq> ?h" "good h" using True that assms(2) by (auto simp: addressed_def)
    then show ?thesis using put_other [OF assms(4) _ p] by blast
  qed
  show ?thesis
  proof (cases q)
    case Err
    then have "\<sigma>' = ticked (\<sigma>\<lparr>blobs := b\<rparr>)" using assms(1) True p by (simp add: store_block_def Let_def)
    then show ?thesis using assms(2) other by (simp add: addressed_def)
  next
    case (Ok g)
    then have s': "get_local_block_fid (st \<sigma>') h = (if h = ?h then Some g else get_local_block_fid (st \<sigma>) h)"
      "blobs \<sigma>' = b" for h
      using assms(1) True p by (auto simp: store_block_def Let_def)
    have "stored b ?h g = Some d" using put_stored [OF assms(4)] p Ok by simp
    then show ?thesis using assms(2-4) other by (auto simp: addressed_def s')
  qed
next
  case False
  then show ?thesis using assms(1,2) by (auto simp: store_block_def Let_def)
qed

lemma store_block_exact:
  assumes "store_block E d sz \<sigma> = (Ok h, \<sigma>')" "addressed (crates E) stored good S \<sigma>" "d \<in> S"
    and "inj_on (blake3 (crates E)) S" "good h"
  shows "h = blake3 (crates E) d \<and> holds stored \<sigma>' h d"
proof (cases "get_local_block_fid (st \<sigma>) h")
  case None
  with store_block_holds [OF assms(1,5)] show ?thesis by auto
next
  case (Some f)
  with store_block_holds [OF assms(1,5)] have h: "h = blake3 (crates E) d" "\<sigma>' = \<sigma>" by simp_all
  from assms(2) Some obtain d' where "d' \<in> S" "stored (blobs \<sigma>) h f = Some d'" "blake3 (crates E) d' = h"
    by (auto simp: addressed_def)
  moreover from this have "d' = d" using assms(3,4) h(1) by (auto dest: inj_onD)
  ultimately show ?thesis using h Some by (auto simp: holds_def)
qed

lemma store_blocks_exact:
  assumes "store_blocks E ds u \<sigma> = (Reply u', \<sigma>')" "addressed (crates E) stored good S \<sigma>" "set ds \<subseteq> S"
    and "inj_on (blake3 (crates E)) S" "\<forall>d. good (blake3 (crates E) d)"
  shows "up_hashes u' = up_hashes u @ map (blake3 (crates E)) ds \<and>
    up_buffer u' = up_buffer u \<and> up_md5_input u' = up_md5_input u \<and>
    addressed (crates E) stored good S \<sigma>' \<and>
    (\<forall>d \<in> set ds. holds stored \<sigma>' (blake3 (crates E) d) d) \<and>
    (\<forall>h d. good h \<longrightarrow> holds stored \<sigma> h d \<longrightarrow> holds stored \<sigma>' h d)"
  using assms(1-3)
proof (induction ds arbitrary: u \<sigma>)
  case (Cons d ds)
  obtain r \<sigma>1 where s: "store_block E d (int (length d)) \<sigma> = (r, \<sigma>1)" by (cases "store_block E d (int (length d)) \<sigma>")
  with Cons.prems(1) obtain h where h: "r = Ok h" by (cases r) (auto simp: Let_def)
  let ?h = "blake3 (crates E) d"
  have hd: "h = ?h" using s h by (auto simp: store_block_def Let_def split: if_splits result.splits)
  have "holds stored \<sigma>1 ?h d"
    using store_block_exact [OF s [unfolded h] Cons.prems(2) _ assms(4)] Cons.prems(3) assms(5) hd by simp
  moreover have a1: "addressed (crates E) stored good S \<sigma>1"
    using store_block_addressed [OF s Cons.prems(2)] Cons.prems(3) assms(5) by simp
  moreover have "good h' \<Longrightarrow> holds stored \<sigma> h' d' \<Longrightarrow> holds stored \<sigma>1 h' d'" for h' d'
    using store_block_keeps [OF s] assms(5) by blast
  moreover
  let ?u = "u\<lparr>up_size := wrap_i64 (up_size u + int (length d)), up_hashes := up_hashes u @ [h]\<rparr>"
  have "store_blocks E ds ?u \<sigma>1 = (Reply u', \<sigma>')" using Cons.prems(1) s h by (simp add: Let_def)
  note ih = Cons.IH [OF this a1] Cons.prems(3)
  ultimately show ?case using assms(5) hd by auto
qed auto

lemma store_blocks_keeps:
  assumes "\<forall>d. good (blake3 (crates E) d)" "good h" "holds stored \<sigma> h d"
  shows "holds stored (snd (store_blocks E ds u \<sigma>)) h d"
  using assms(3)
proof (induction ds arbitrary: u \<sigma>)
  case (Cons x ds)
  obtain r \<sigma>1 where s: "store_block E x (int (length x)) \<sigma> = (r, \<sigma>1)" by (cases "store_block E x (int (length x)) \<sigma>")
  then have "holds stored \<sigma>1 h d" using store_block_keeps [OF s _ assms(2) Cons.prems] assms(1) by blast
  with Cons.IH s show ?case by (cases r) (simp_all add: Let_def)
qed simp

lemma receive_body_keeps:
  assumes "\<forall>d. good (blake3 (crates E) d)" "good h" "holds stored \<sigma> h d"
  shows "holds stored (snd (receive_body E cfg frames u \<sigma>)) h d"
  using assms(3)
proof (induction frames arbitrary: u \<sigma>)
  case Nil
  then show ?case using store_blocks_keeps [OF assms(1,2)]
    by (simp add: finish_body_def chunk_finalize_def del: store_blocks.simps)
next
  case (Cons f frames)
  show ?case
  proof (cases f)
    case (Ok frame)
    obtain r \<sigma>1 where t: "take_frame E cfg frame u \<sigma> = (r, \<sigma>1)" by (cases "take_frame E cfg frame u \<sigma>")
    have "holds stored (snd (take_frame E cfg frame u \<sigma>)) h d"
      using Cons.prems store_blocks_keeps [OF assms(1,2)]
      by (simp add: take_frame_def Let_def split: option.split run.split prod.split)
    with Cons.IH show ?thesis by (cases r) (simp_all add: Ok t Let_def)
  qed (simp add: Cons.prems)
qed

lemma take_frame_received:
  assumes "take_frame E cfg frame u \<sigma> = (Reply u1, \<sigma>1)" "addressed (crates E) stored good S \<sigma>"
    and "stream_chunks (chunk_process (fastcdc_first (crates E)) cfg) chunk_finalize (frame # fs) (up_buffer u) = Some (Value ds)"
    and "set ds \<subseteq> S" "inj_on (blake3 (crates E)) S" "\<forall>d. good (blake3 (crates E) d)"
  obtains cs es where "ds = cs @ es"
    "stream_chunks (chunk_process (fastcdc_first (crates E)) cfg) chunk_finalize fs (up_buffer u1) = Some (Value es)"
    "received (crates E) stored good S u \<sigma> [frame] cs u1 \<sigma>1"
proof -
  let ?proc = "chunk_process (fastcdc_first (crates E)) cfg"
  from assms(3) obtain cs rest es where p: "?proc (up_buffer u @ frame) = Some (Value (cs, rest))"
    and es: "stream_chunks ?proc chunk_finalize fs rest = Some (Value es)" "ds = cs @ es"
    by (auto simp: bind_run_def split: option.splits run.splits)
  let ?u = "u\<lparr>up_md5_input := up_md5_input u @ frame, up_buffer := rest\<rparr>"
  have sb: "store_blocks E cs ?u \<sigma> = (Reply u1, \<sigma>1)" using assms(1) p by (simp add: take_frame_def Let_def)
  have "set cs \<subseteq> S" using assms(4) es(2) by auto
  note ex = store_blocks_exact [OF sb assms(2) this assms(5,6)]
  then have "received (crates E) stored good S u \<sigma> [frame] cs u1 \<sigma>1"
    using store_blocks_size [OF sb] by (simp add: received_def)
  with ex es show ?thesis by (intro that) simp_all
qed

lemma finish_body_received:
  assumes "finish_body E u \<sigma> = (Reply u', \<sigma>')" "addressed (crates E) stored good S \<sigma>"
    and "stream_chunks proc chunk_finalize [] (up_buffer u) = Some (Value ds)"
    and "set ds \<subseteq> S" "inj_on (blake3 (crates E)) S" "\<forall>d. good (blake3 (crates E) d)"
  shows "received (crates E) stored good S u \<sigma> [] ds u' \<sigma>'"
proof (cases "up_buffer u = []")
  case True
  with assms(1-3) show ?thesis by (auto simp: finish_body_def chunk_finalize_def received_def)
next
  case False
  with assms(3) have ds: "ds = [up_buffer u]" by (simp add: chunk_finalize_def)
  have "store_blocks E ds (u\<lparr>up_buffer := []\<rparr>) \<sigma> = (Reply u', \<sigma>')"
    using assms(1) False by (simp add: finish_body_def chunk_finalize_def ds del: store_blocks.simps)
  from store_blocks_exact [OF this assms(2,4,5,6)] store_blocks_size [OF this] show ?thesis
    by (simp add: ds received_def)
qed

lemma received_trans:
  assumes "received (crates E) stored good S u \<sigma> fs cs u1 \<sigma>1" "received (crates E) stored good S u1 \<sigma>1 gs es u' \<sigma>'"
    and "\<forall>d. good (blake3 (crates E) d)"
  shows "received (crates E) stored good S u \<sigma> (fs @ gs) (cs @ es) u' \<sigma>'"
  unfolding received_def
proof (intro conjI impI)
  show "\<forall>d \<in> set (cs @ es). holds stored \<sigma>' (blake3 (crates E) d) d"
    "\<forall>h d. good h \<longrightarrow> holds stored \<sigma> h d \<longrightarrow> holds stored \<sigma>' h d"
    using assms by (auto simp: received_def)
  show "up_size u' = up_size u + int (length (concat (cs @ es)))"
    if "0 \<le> up_size u" "up_size u + int (length (concat (cs @ es))) < 2 ^ 63"
    using assms(1,2) that by (simp add: received_def)
qed (use assms(1,2) in \<open>simp_all add: received_def\<close>)

lemma receive_body_exact:
  assumes "receive_body E cfg (map Ok fs) u \<sigma> = (Reply u', \<sigma>')" "addressed (crates E) stored good S \<sigma>"
    and "stream_chunks (chunk_process (fastcdc_first (crates E)) cfg) chunk_finalize fs (up_buffer u) = Some (Value ds)"
    and "set ds \<subseteq> S" "inj_on (blake3 (crates E)) S" "\<forall>d. good (blake3 (crates E) d)"
  shows "received (crates E) stored good S u \<sigma> fs ds u' \<sigma>'"
  using assms(1-4)
proof (induction fs arbitrary: u \<sigma> ds)
  case Nil
  then show ?case using finish_body_received [OF _ Nil.prems(2,3,4) assms(5,6)] by simp
next
  case (Cons frame fs)
  obtain r \<sigma>1 where t: "take_frame E cfg frame u \<sigma> = (r, \<sigma>1)" by (cases "take_frame E cfg frame u \<sigma>")
  with Cons.prems(1) obtain u1 where u1: "r = Reply u1" by (cases r) (auto simp: Let_def)
  obtain cs es where ds: "ds = cs @ es"
    "stream_chunks (chunk_process (fastcdc_first (crates E)) cfg) chunk_finalize fs (up_buffer u1) = Some (Value es)"
    and first: "received (crates E) stored good S u \<sigma> [frame] cs u1 \<sigma>1"
    by (rule take_frame_received [OF t [unfolded u1] Cons.prems(2-4) assms(5,6)])
  have "received (crates E) stored good S u1 \<sigma>1 fs es u' \<sigma>'"
    using Cons.prems(1,4) t u1 ds first by (intro Cons.IH) (auto simp: Let_def received_def)
  from received_trans [OF first this assms(6)] show ?case by (simp add: ds(1))
qed

end


section \<open>Reading held blocks\<close>

text \<open>The byte store answers reads of what it holds.\<close>

definition reads_ok :: "'b Env \<Rightarrow> ('b \<Rightarrow> hash \<Rightarrow> fid \<Rightarrow> bytes option) \<Rightarrow> 'b \<Rightarrow> bool" where
  "reads_ok E stored b \<longleftrightarrow> (\<forall>n h f d. stored b h f = Some d \<longrightarrow> blob_get E n h f b = Ok d)"

lemma get_block_held:
  "reads_ok E stored (blobs \<sigma>) \<Longrightarrow> holds stored \<sigma> h d \<Longrightarrow> get_block E h \<sigma> = (Ok d, ticked \<sigma>)"
  by (auto simp: reads_ok_def holds_def get_block_def)

lemma stream_blocks_held:
  assumes "reads_ok E stored (blobs \<sigma>)" "\<And>h s t. (h, s, t) \<in> set plan \<Longrightarrow> holds stored \<sigma> h (data h)"
  shows "fst (stream_blocks E plan \<sigma>) = map (\<lambda>(h, s, t). Ok (slice_block_bytes (data h) s t)) plan"
  using assms
proof (induction plan arbitrary: \<sigma>)
  case (Cons p plan)
  obtain h s t where p: "p = (h, s, t)" by (cases p) auto
  with Cons.prems have "get_block E h \<sigma> = (Ok (data h), ticked \<sigma>)" by (intro get_block_held) auto
  moreover have "fst (stream_blocks E plan (ticked \<sigma>)) = map (\<lambda>(h, s, t). Ok (slice_block_bytes (data h) s t)) plan"
    using Cons.prems by (intro Cons.IH) auto
  ultimately show ?case by (simp add: p Let_def)
qed simp

lemma get_object_held:
  assumes "authorize (crates E) (st \<sigma>) cred ''s3:GetObject'' (Some b) (Some k) = None"
    and "get_object (st \<sigma>) b k = Some (bs, sz, etag)" "read_plan (st \<sigma>) bs sz rng = Some (plan, len, crange)"
    and "reads_ok E stored (blobs \<sigma>)" "\<And>h s t. (h, s, t) \<in> set plan \<Longrightarrow> holds stored \<sigma> h (data h)"
  shows "fst (s3_get_object E cred b k rng \<sigma>) =
    Reply \<lparr>out_body = map (\<lambda>(h, s, t). Ok (slice_block_bytes (data h) s t)) plan, out_length = len,
           out_range = crange, out_etag = quoted etag\<rparr>"
proof (cases plan)
  case Nil
  then show ?thesis using assms(1-3) by (simp add: s3_get_object_def Let_def)
next
  case (Cons p rest)
  obtain h s t where p: "p = (h, s, t)" by (cases p) auto
  have "get_block E h \<sigma> = (Ok (data h), ticked \<sigma>)" using assms(4,5) Cons p by (intro get_block_held) auto
  moreover have "fst (stream_blocks E rest (ticked \<sigma>)) = map (\<lambda>(h, s, t). Ok (slice_block_bytes (data h) s t)) rest"
    using assms(4,5) Cons by (intro stream_blocks_held) auto
  ultimately show ?thesis using assms(1-3) by (simp add: s3_get_object_def Let_def Cons p)
qed

text \<open>The blocks of a manifest as bytes, and what whole and ranged reads make of them.\<close>

definition held_data :: "('b \<Rightarrow> hash \<Rightarrow> fid \<Rightarrow> bytes option) \<Rightarrow> 'b Site \<Rightarrow> hash \<Rightarrow> bytes" where
  "held_data stored \<sigma> h = the (stored (blobs \<sigma>) h (the (get_local_block_fid (st \<sigma>) h)))"

lemma held_data_eq [simp]: "holds stored \<sigma> h d \<Longrightarrow> held_data stored \<sigma> h = d"
  by (auto simp: holds_def held_data_def)

lemma whole_get_held:
  assumes "authorize (crates E) (st \<sigma>) cred ''s3:GetObject'' (Some b) (Some k) = None"
    and "get_object (st \<sigma>) b k = Some (map H ds, sz, etag)"
    and "reads_ok E stored (blobs \<sigma>)" "\<forall>d \<in> set ds. holds stored \<sigma> (H d) d"
  shows "fst (s3_get_object E cred b k None \<sigma>) =
    Reply \<lparr>out_body = map Ok ds, out_length = sz, out_range = None, out_etag = quoted etag\<rparr>"
proof -
  let ?plan = "map (\<lambda>h. (h, 0, None)) (map H ds) :: (hash \<times> int \<times> int option) list"
  have pl: "read_plan (st \<sigma>) (map H ds) sz None = Some (?plan, sz, None)" by (simp add: read_plan_def)
  have "holds stored \<sigma> h (held_data stored \<sigma> h)" if "(h, s, t) \<in> set ?plan" for h s t
    using that assms(4) by auto
  note out = get_object_held [OF assms(1,2) pl assms(3) this]
  moreover have "map (\<lambda>(h, s, t). Ok (slice_block_bytes (held_data stored \<sigma> h) s t)) ?plan = map Ok ds"
    using assms(4) by auto
  ultimately show ?thesis by simp
qed

lemma slice_index:
  assumes "(j, s, n) \<in> set (slice_loop i offset sizes start end_byte)"
  shows "i \<le> j \<and> j < i + length sizes"
  using assms by (induction sizes arbitrary: i offset) (fastforce simp: Let_def split: if_splits)+

lemma ranged_get_held:
  assumes "authorize (crates E) (st \<sigma>) cred ''s3:GetObject'' (Some b) (Some k) = None"
    and "get_object (st \<sigma>) b k = Some (map H ds, int (length (concat ds)), etag)"
    and "reads_ok E stored (blobs \<sigma>)" "\<forall>d \<in> set ds. holds stored \<sigma> (H d) d"
    and "block_sizes (st \<sigma>) (map H ds) = map (\<lambda>d. int (length d)) ds" "int (length (concat ds)) < 2 ^ 63"
    and "resolve_range rng (int (length (concat ds))) = Some (lo, hi)" "0 \<le> lo" "lo \<le> hi"
    and "hi < int (length (concat ds))"
  shows "\<exists>xs. fst (s3_get_object E cred b k (Some rng) \<sigma>) =
      Reply \<lparr>out_body = map Ok xs, out_length = hi - lo + 1,
             out_range = Some (lo, hi, int (length (concat ds))), out_etag = quoted etag\<rparr> \<and>
    concat xs = take (nat (hi - lo + 1)) (drop (nat lo) (concat ds))"
proof -
  let ?sl = "slice_blocks_for_range (map (\<lambda>d. int (length d)) ds) lo hi"
  let ?plan = "map (\<lambda>(i, skip, n). (map H ds ! i, skip, Some n)) ?sl"
  let ?D = "held_data stored \<sigma>"
  have idx: "i < length ds" if "(i, s, n) \<in> set ?sl" for i s n
    using slice_index [OF that [unfolded slice_blocks_for_range_def]] by simp
  have u: "wrap_u64 (int (length (concat ds))) = int (length (concat ds))" using assms(6) by (intro wrap_u64_id) auto
  have i: "wrap_i64 (hi - lo + 1) = hi - lo + 1" using assms(6,8-10) by (intro wrap_i64_id) (auto simp: in_i64_def)
  have pl: "read_plan (st \<sigma>) (map H ds) (int (length (concat ds))) (Some rng) =
      Some (?plan, hi - lo + 1, Some (lo, hi, int (length (concat ds))))"
    by (simp only: read_plan_def option.case u assms(5,7) i prod.case)
  have "holds stored \<sigma> h (?D h)" if "(h, s, t) \<in> set ?plan" for h s t
  proof -
    from that obtain i where "i < length ds" "h = H (ds ! i)" using idx by fastforce
    then show ?thesis using assms(4) by (metis held_data_eq nth_mem)
  qed
  note out = get_object_held [OF assms(1,2) pl assms(3) this]
  let ?xs = "map (\<lambda>(i, s, n). slice_block_bytes (?D (map H ds ! i)) s (Some n)) ?sl"
  have "concat ?xs = byte_window 0 lo hi (concat ds)"
    using slice_loop_bytes [of 0 ds lo hi "\<lambda>i. ?D (map H ds ! i)" 0] assms(4,6,8,9)
    by (simp add: slice_blocks_for_range_def del: slice_block_bytes_simps)
  moreover have "nat (hi + 1) - nat lo = nat (hi - lo + 1)" using assms(8,9) by simp
  ultimately have "concat ?xs = take (nat (hi - lo + 1)) (drop (nat lo) (concat ds))"
    by (simp add: byte_window_def drop_take)
  moreover have "map (\<lambda>(h, s, t). Ok (slice_block_bytes (?D h) s t)) ?plan = map Ok ?xs" by auto
  ultimately show ?thesis using out by (intro exI [of _ ?xs]) (simp del: slice_block_bytes_simps)
qed


section \<open>Block rows\<close>

text \<open>
  The site knows the sizes of its blocks: a local block has a block row, and the row of a hash of
  data out of \<open>S\<close> carries that data's length.
\<close>

definition sizes_known :: "Crates \<Rightarrow> bytes set \<Rightarrow> Store \<Rightarrow> bool" where
  "sizes_known C S s \<longleftrightarrow>
     (\<forall>h. get_local_block_fid s h \<noteq> None \<longrightarrow> map_of (blocks s) h \<noteq> None) \<and>
     (\<forall>d \<in> S. \<forall>r. map_of (blocks s) (blake3 C d) = Some r \<longrightarrow> blk_size r = int (length d))"

lemma blocks_store_local [simp]:
  "map_of (blocks (store_local_block C sys h f sz s)) h' =
     (if h' = h then Some (lww_join blk_updated_at (map_of (blocks s) h)
        \<lparr>blk_size = sz, blk_updated_at = store_now_micros s sys\<rparr>) else map_of (blocks s) h')"
  by (simp add: store_local_block_def Let_def append_fact_tx_def upsert_block_location_def map_of_upsert_newer)

lemma sizes_known_store_local:
  assumes "sizes_known C S s" "d \<in> S" "inj_on (blake3 C) S" "get_local_block_fid s (blake3 C d) = None"
  shows "sizes_known C S (store_local_block C sys (blake3 C d) f (int (length d)) s)"
proof -
  have "blk_size r = int (length d')"
    if "d' \<in> S" "map_of (blocks (store_local_block C sys (blake3 C d) f (int (length d)) s)) (blake3 C d') = Some r"
    for d' r
  proof (cases "blake3 C d' = blake3 C d")
    case True
    then have "d' = d" using that(1) assms(2,3) by (auto dest: inj_onD)
    with that assms(1,2) show ?thesis by (auto simp: sizes_known_def lww_join_def split: if_splits option.splits)
  next
    case False
    with that assms(1) show ?thesis by (simp add: sizes_known_def)
  qed
  with assms(1,4) show ?thesis by (simp add: sizes_known_def)
qed

lemma store_block_sizes:
  assumes "sizes_known (crates E) S (st \<sigma>)" "d \<in> S" "inj_on (blake3 (crates E)) S"
  shows "sizes_known (crates E) S (st (snd (store_block E d (int (length d)) \<sigma>)))"
  using assms by (auto simp: store_block_def Let_def sizes_known_store_local split: result.split)

lemma store_blocks_sizes:
  assumes "sizes_known (crates E) S (st \<sigma>)" "set ds \<subseteq> S" "inj_on (blake3 (crates E)) S"
  shows "sizes_known (crates E) S (st (snd (store_blocks E ds u \<sigma>)))"
  using assms(1,2)
proof (induction ds arbitrary: u \<sigma>)
  case (Cons d ds)
  have "sizes_known (crates E) S (st (snd (store_block E d (int (length d)) \<sigma>)))"
    using Cons.prems by (intro store_block_sizes [OF _ _ assms(3)]) auto
  with Cons show ?case by (cases "fst (store_block E d (int (length d)) \<sigma>)") (auto simp: Let_def)
qed simp

lemma receive_body_sizes:
  assumes "stream_chunks (chunk_process (fastcdc_first (crates E)) cfg) chunk_finalize fs (up_buffer u) = Some (Value ds)"
    and "sizes_known (crates E) S (st \<sigma>)" "set ds \<subseteq> S" "inj_on (blake3 (crates E)) S"
  shows "sizes_known (crates E) S (st (snd (receive_body E cfg (map Ok fs) u \<sigma>)))"
  using assms(1-3)
proof (induction fs arbitrary: u \<sigma> ds)
  case Nil
  show ?case
  proof (cases "up_buffer u = []")
    case True
    with Nil show ?thesis by (simp add: finish_body_def chunk_finalize_def)
  next
    case False
    with Nil have "ds = [up_buffer u]" by (simp add: chunk_finalize_def)
    with store_blocks_sizes [OF Nil.prems(2,3) assms(4)] False show ?thesis
      by (simp add: finish_body_def chunk_finalize_def del: store_blocks.simps)
  qed
next
  case (Cons frame fs)
  let ?proc = "chunk_process (fastcdc_first (crates E)) cfg"
  from Cons.prems(1) obtain cs rest es where p: "?proc (up_buffer u @ frame) = Some (Value (cs, rest))"
    and es: "stream_chunks ?proc chunk_finalize fs rest = Some (Value es)" "ds = cs @ es"
    by (auto simp: bind_run_def split: option.splits run.splits)
  let ?u = "u\<lparr>up_md5_input := up_md5_input u @ frame, up_buffer := rest\<rparr>"
  have t: "take_frame E cfg frame u \<sigma> = store_blocks E cs ?u \<sigma>" by (simp add: take_frame_def Let_def p)
  obtain r \<sigma>1 where r: "store_blocks E cs ?u \<sigma> = (r, \<sigma>1)" by (cases "store_blocks E cs ?u \<sigma>")
  have s1: "sizes_known (crates E) S (st \<sigma>1)"
    using store_blocks_sizes [OF Cons.prems(2) _ assms(4), of cs ?u] Cons.prems(3) r es(2) by simp
  show ?case
  proof (cases r)
    case (Reply u1)
    then have "up_buffer u1 = rest" using store_blocks_buffer [of E cs ?u \<sigma> u1 \<sigma>1] r by simp
    then show ?thesis using Cons.IH [of u1 es \<sigma>1] es s1 Cons.prems(3) by (simp add: t r Reply Let_def)
  qed (simp_all add: t r s1 Let_def)
qed


section \<open>Writing an object\<close>

lemma insert_object_keeps [simp]:
  "get_local_block_fid (insert_object C sys b sh k bs sz et s) = get_local_block_fid s"
  "blocks (insert_object C sys b sh k bs sz et s) = blocks s"
  "users (insert_object C sys b sh k bs sz et s) = users s"
  by (simp_all add: fun_eq_iff get_local_block_fid_def insert_object_def Let_def append_fact_tx_def put_object_row_def)

lemma insert_object_newer:
  assumes "hashes_ok bs" "\<forall>t. row_time s b k = Some t \<longrightarrow> t < store_now_micros s sys"
  shows "get_object (insert_object C sys b sh k bs sz et s) b k = Some (bs, sz, et)"
  using assms
  by (cases "map_of (objects s) (b, k)")
    (auto simp: insert_object_def Let_def put_object_row_def map_of_upsert_newer row_time_def get_object_def)

lemma block_sizes_known:
  assumes "sizes_known C S s" "set ds \<subseteq> S" "\<forall>d \<in> set ds. get_local_block_fid s (blake3 C d) \<noteq> None"
  shows "block_sizes s (map (blake3 C) ds) = map (\<lambda>d. int (length d)) ds"
  using assms by (fastforce simp: block_sizes_def sizes_known_def)

lemma chunks_in:
  assumes "concat ds = body" "{d. sublist d body} \<subseteq> S"
  shows "set ds \<subseteq> S"
proof
  fix d
  assume "d \<in> set ds"
  then obtain us vs where "ds = us @ d # vs" by (meson split_list)
  then have "body = concat us @ d @ concat vs" using assms(1) by auto
  then show "d \<in> S" using assms(2) by (auto simp: sublist_def)
qed

lemma receive_body_stored:
  assumes "block_site E stored good" "\<forall>d. good (blake3 (crates E) d)"
    and "chunk_ok (fastcdc_first (crates E)) cfg"
    and "addressed (crates E) stored good S \<sigma>" "{d. sublist d (concat fs)} \<subseteq> S" "inj_on (blake3 (crates E)) S"
    and "int (length (concat fs)) < 2 ^ 63"
    and body: "receive_body E cfg (map Ok fs) upload_new \<sigma> = (Reply u, \<sigma>')"
  obtains ds where "concat ds = concat fs" "set ds \<subseteq> S" "up_hashes u = map (blake3 (crates E)) ds"
    "up_md5_input u = concat fs" "up_size u = int (length (concat fs))"
    "addressed (crates E) stored good S \<sigma>'" "\<forall>d \<in> set ds. holds stored \<sigma>' (blake3 (crates E) d) d"
    "\<forall>h d. good h \<longrightarrow> holds stored \<sigma> h d \<longrightarrow> holds stored \<sigma>' h d"
    "sizes_known (crates E) S (st \<sigma>) \<Longrightarrow> sizes_known (crates E) S (st \<sigma>')"
proof -
  from ck.stream_chunks_sound [OF assms(3), of "[]" fs] obtain ds where
    ds: "stream_chunks (chunk_process (fastcdc_first (crates E)) cfg) chunk_finalize fs [] = Some (Value ds)"
      "concat ds = concat fs" by auto
  note sub = chunks_in [OF ds(2) assms(5)]
  have new: "up_buffer upload_new = []" "up_hashes upload_new = []" "up_size upload_new = 0" "up_md5_input upload_new = []"
    by (simp_all add: upload_new_def)
  have sk: "sizes_known (crates E) S (st \<sigma>')" if "sizes_known (crates E) S (st \<sigma>)"
    using receive_body_sizes [of E cfg fs upload_new ds S \<sigma>] ds(1) that sub assms(6) body new(1) by simp
  note ex = block_site.receive_body_exact [OF assms(1) body assms(4) _ sub assms(6,2), unfolded new, OF ds(1), unfolded received_def new]
  from ex have "up_hashes u = map (blake3 (crates E)) ds" "up_md5_input u = concat fs"
    "up_size u = int (length (concat fs))" using ds(2) assms(7) by simp_all
  with ex sk show ?thesis by (intro that [OF ds(2) sub]) blast+
qed

lemma put_object_Reply:
  assumes "s3_put_object E cfg cred b k (Some frames) \<sigma> = (Reply etag, \<sigma>')"
  obtains u \<sigma>1 where "receive_body E cfg frames upload_new \<sigma> = (Reply u, \<sigma>1)"
    "etag = quoted (hex_encode (crates E) (md5 (crates E) (up_md5_input u)))"
    "\<sigma>' = ticked (\<sigma>1\<lparr>st := insert_object (crates E) (sys_now E \<sigma>1) b (compute_shard_id (blake3 (crates E)) k) k
       (up_hashes u) (up_size u) (hex_encode (crates E) (md5 (crates E) (up_md5_input u))) (st \<sigma>1)\<rparr>)"
  using assms that
  by (cases "receive_body E cfg frames upload_new \<sigma>"; cases "fst (receive_body E cfg frames upload_new \<sigma>)")
    (auto simp: s3_put_object_def Let_def split: option.splits)

lemma put_object_stored:
  assumes site: "block_site E stored good" "\<forall>d. good (blake3 (crates E) d)" "digest_ok (blake3 (crates E))"
    and chunks: "chunk_ok (fastcdc_first (crates E)) cfg"
    and S: "addressed (crates E) stored good S \<sigma>" "{d. sublist d (concat fs)} \<subseteq> S" "inj_on (blake3 (crates E)) S"
    and len: "int (length (concat fs)) < 2 ^ 63"
    and put: "s3_put_object E cfg cred b k (Some (map Ok fs)) \<sigma> = (Reply etag, \<sigma>')"
    and newer: "\<forall>n t. row_time (st \<sigma>) b k = Some t \<longrightarrow> t < store_now_micros (st \<sigma>) (sys_micros E n)"
  obtains ds where "concat ds = concat fs" "set ds \<subseteq> S"
    "etag = quoted (hex_encode (crates E) (md5 (crates E) (concat fs)))"
    "get_object (st \<sigma>') b k = Some (map (blake3 (crates E)) ds, int (length (concat ds)),
       hex_encode (crates E) (md5 (crates E) (concat fs)))"
    "\<forall>d \<in> set ds. holds stored \<sigma>' (blake3 (crates E) d) d"
    "sizes_known (crates E) S (st \<sigma>) \<Longrightarrow>
       block_sizes (st \<sigma>') (map (blake3 (crates E)) ds) = map (\<lambda>d. int (length d)) ds"
proof -
  let ?H = "blake3 (crates E)"
  from put obtain u \<sigma>1 where body: "receive_body E cfg (map Ok fs) upload_new \<sigma> = (Reply u, \<sigma>1)"
    and etag: "etag = quoted (hex_encode (crates E) (md5 (crates E) (up_md5_input u)))"
    and \<sigma>': "\<sigma>' = ticked (\<sigma>1\<lparr>st := insert_object (crates E) (sys_now E \<sigma>1) b (compute_shard_id ?H k) k
       (up_hashes u) (up_size u) (hex_encode (crates E) (md5 (crates E) (up_md5_input u))) (st \<sigma>1)\<rparr>)"
    by (rule put_object_Reply)
  obtain ds where ds: "concat ds = concat fs" "set ds \<subseteq> S"
    and u: "up_hashes u = map ?H ds" "up_md5_input u = concat fs" "up_size u = int (length (concat fs))"
      "\<forall>d \<in> set ds. holds stored \<sigma>1 (?H d) d"
    and sk: "sizes_known (crates E) S (st \<sigma>) \<Longrightarrow> sizes_known (crates E) S (st \<sigma>1)"
    by (rule receive_body_stored [OF site(1,2) chunks S len body]) iprover
  have st1: "objects (st \<sigma>1) = objects (st \<sigma>)" "clock (st \<sigma>1) = clock (st \<sigma>)"
    using receive_body_store [of E cfg "map Ok fs" upload_new \<sigma>] body by simp_all
  then have "\<forall>t. row_time (st \<sigma>1) b k = Some t \<longrightarrow> t < store_now_micros (st \<sigma>1) (sys_now E \<sigma>1)"
    using newer by (simp add: row_time_def store_now_micros_def)
  moreover have "hashes_ok (map ?H ds)" using site(3) by (simp add: hashes_ok_def digest_ok_def)
  ultimately have "get_object (st \<sigma>') b k = Some (map ?H ds, int (length (concat ds)), hex_encode (crates E) (md5 (crates E) (concat fs)))"
    using insert_object_newer u(1-3) ds(1) by (simp add: \<sigma>')
  moreover have held: "\<forall>d \<in> set ds. holds stored \<sigma>' (?H d) d" using u(4) by (simp add: \<sigma>' holds_def)
  moreover have "block_sizes (st \<sigma>') (map ?H ds) = map (\<lambda>d. int (length d)) ds" if "sizes_known (crates E) S (st \<sigma>)"
  proof -
    from sk [OF that] have "sizes_known (crates E) S (st \<sigma>1)" .
    then have "sizes_known (crates E) S (st \<sigma>')" by (simp add: \<sigma>' sizes_known_def)
    then show ?thesis using held by (intro block_sizes_known [OF _ ds(2)]) (auto simp: holds_def)
  qed
  ultimately show ?thesis using that [OF ds] etag u(2) by simp
qed


section \<open>Properties\<close>

text \<open>
  C4. What is written is what is read: when a put of a body, received in any frames, is answered, the
  answer carries the digest of the body as entity tag, and a get of the key then streams chunks that
  concatenate to exactly the body, with its length. Assumed are a byte store that keeps its laws and
  answers reads, digests without collision among the pieces of the body and the data already stored,
  chunk sizes that are accepted, a body below the \<^verbatim>\<open>i64\<close> range, a clock ahead of the key's stored
  row, and a credential that may read.
\<close>

theorem put_get_roundtrip:
  assumes "block_site E stored good" "\<forall>d. good (blake3 (crates E) d)" "digest_ok (blake3 (crates E))"
    and "chunk_ok (fastcdc_first (crates E)) cfg"
    and "addressed (crates E) stored good S \<sigma>" "{d. sublist d (concat fs)} \<subseteq> S" "inj_on (blake3 (crates E)) S"
    and "int (length (concat fs)) < 2 ^ 63"
    and "s3_put_object E cfg cred b k (Some (map Ok fs)) \<sigma> = (Reply etag, \<sigma>')"
    and "\<forall>n t. row_time (st \<sigma>) b k = Some t \<longrightarrow> t < store_now_micros (st \<sigma>) (sys_micros E n)"
    and "authorize (crates E) (st \<sigma>') cred' ''s3:GetObject'' (Some b) (Some k) = None"
    and "reads_ok E stored (blobs \<sigma>')"
  shows "etag = quoted (hex_encode (crates E) (md5 (crates E) (concat fs))) \<and>
    (\<exists>ds. fst (s3_get_object E cred' b k None \<sigma>') =
       Reply \<lparr>out_body = map Ok ds, out_length = int (length (concat fs)), out_range = None, out_etag = etag\<rparr> \<and>
     concat ds = concat fs)"
  using put_object_stored [OF assms(1-10)] whole_get_held [OF assms(11) _ assms(12)] by metis

text \<open>
  C11. A ranged read after a write is exact: on a site that knows the sizes of its blocks, a get after
  the put streams exactly the part of the body the range asks for (bytes \<open>a\<close> to \<open>b\<close>, the bytes from \<open>a\<close>
  on, or the last \<open>m\<close> bytes, clipped at the end of the body), with the length of that part as content
  length and its first and last position in the content range, and a range that asks for nothing is
  refused with \<^verbatim>\<open>InvalidRange\<close>. The conditions on the put are those of the whole read.
\<close>

theorem put_range_get:
  assumes "block_site E stored good" "\<forall>d. good (blake3 (crates E) d)" "digest_ok (blake3 (crates E))"
    and "chunk_ok (fastcdc_first (crates E)) cfg"
    and "addressed (crates E) stored good S \<sigma>" "{d. sublist d (concat fs)} \<subseteq> S" "inj_on (blake3 (crates E)) S"
    and "int (length (concat fs)) < 2 ^ 63"
    and "s3_put_object E cfg cred b k (Some (map Ok fs)) \<sigma> = (Reply etag, \<sigma>')"
    and "\<forall>n t. row_time (st \<sigma>) b k = Some t \<longrightarrow> t < store_now_micros (st \<sigma>) (sys_micros E n)"
    and "authorize (crates E) (st \<sigma>') cred' ''s3:GetObject'' (Some b) (Some k) = None"
    and "reads_ok E stored (blobs \<sigma>')" "sizes_known (crates E) S (st \<sigma>)"
    and "case rng of RangeInt f l \<Rightarrow> 0 \<le> f | RangeSuffix n \<Rightarrow> 0 \<le> n"
  shows "case range_part rng (concat fs) of
      None \<Rightarrow> fst (s3_get_object E cred' b k (Some rng) \<sigma>') = Failed InvalidRange
    | Some (i, part) \<Rightarrow>
        \<exists>xs. fst (s3_get_object E cred' b k (Some rng) \<sigma>') =
          Reply \<lparr>out_body = map Ok xs, out_length = int (length part),
                 out_range = Some (int i, int i + int (length part) - 1, int (length (concat fs))), out_etag = etag\<rparr> \<and>
        concat xs = part"
proof -
  from put_object_stored [OF assms(1-10)] assms(13) obtain ds where ds: "concat ds = concat fs"
    "etag = quoted (hex_encode (crates E) (md5 (crates E) (concat fs)))"
    "get_object (st \<sigma>') b k = Some (map (blake3 (crates E)) ds, int (length (concat ds)),
       hex_encode (crates E) (md5 (crates E) (concat fs)))"
    "\<forall>d \<in> set ds. holds stored \<sigma>' (blake3 (crates E) d) d"
    "block_sizes (st \<sigma>') (map (blake3 (crates E)) ds) = map (\<lambda>d. int (length d)) ds"
    by metis
  note part = resolve_range_part [OF assms(14), of "concat fs"]
  show ?thesis
  proof (cases "range_part rng (concat fs)")
    case None
    moreover have "wrap_u64 (int (length (concat fs))) = int (length (concat fs))"
      using assms(8) by (intro wrap_u64_id) auto
    ultimately show ?thesis using part assms(11) ds(1,3) by (simp add: s3_get_object_def read_plan_def)
  next
    case (Some q)
    obtain i part where q: "q = (i, part)" by (cases q)
    let ?hi = "int i + int (length part) - 1"
    have p: "part = take (length part) (drop i (concat fs))"
      "resolve_range rng (int (length (concat ds))) = Some (int i, ?hi)" using part Some q by (simp_all add: ds(1))
    have bounds: "0 \<le> int i" "int i \<le> ?hi" "?hi < int (length (concat ds))"
      using resolve_range_bounds [OF p(2) _ assms(14)] by auto
    from ranged_get_held [OF assms(11) ds(3) assms(12) ds(4,5) _ p(2) bounds] assms(8) Some q p(1) show ?thesis
      by (simp add: ds(1,2))
  qed
qed

text \<open>
  An upload that does not succeed leaves the namespace as it was: whatever goes wrong (no
  authorization, a full disk, a broken body, a failing byte store, a panic or a loop in the chunker),
  every object, listing and multipart part reads as before, the users are the same and no block that
  was held is lost.
\<close>

theorem failed_put_harmless:
  assumes "block_site E stored good" "\<forall>d. good (blake3 (crates E) d)"
    and "s3_put_object E cfg cred b k body \<sigma> = (r, \<sigma>')" "\<forall>etag. r \<noteq> Reply etag"
  shows "get_object (st \<sigma>') = get_object (st \<sigma>) \<and> list_objects (st \<sigma>') = list_objects (st \<sigma>) \<and>
    parts (st \<sigma>') = parts (st \<sigma>) \<and> users (st \<sigma>') = users (st \<sigma>) \<and>
    (\<forall>h d. good h \<longrightarrow> holds stored \<sigma> h d \<longrightarrow> holds stored \<sigma>' h d)"
proof -
  have "\<sigma>' = \<sigma> \<or> (\<exists>frames. \<sigma>' = snd (receive_body E cfg frames upload_new \<sigma>))"
    using assms(3,4) by (auto simp: s3_put_object_def Let_def split: option.splits reply.splits)
  then show ?thesis
    using block_site.receive_body_keeps [OF assms(1,2)]
    by (auto simp: get_object_def list_objects_def fun_eq_iff receive_body_store)
qed


section \<open>A concrete site\<close>

text \<open>An empty site with one administrator, and the pieces of a three-byte body.\<close>

definition demo_user_site :: "files Site" where
  "demo_user_site =
     \<lparr>st = create_user demo_crates 0 ''AK'' ''SK'' admin_policy (store_new ''a'' (clock_new 0)), blobs = [],
      disk_guard = guard_disabled, tick = 0\<rparr>"

definition demo_pieces :: "bytes list" where
  "demo_pieces = sublists [1, 2, 3]"

lemma demo_pieces_ok:
  "set demo_pieces = {d. sublist d [1, 2, 3]}" "inj_on (blake3 demo_crates) (set demo_pieces)"
proof -
  show "set demo_pieces = {d. sublist d [1, 2, 3]}" by (simp only: demo_pieces_def set_sublists_eq)
  have "distinct (map (blake3 demo_crates) demo_pieces)" by code_simp
  then show "inj_on (blake3 demo_crates) (set demo_pieces)" by (simp add: distinct_map)
qed

lemma demo_user_site_facts:
  "addressed demo_crates (local_stored demo_crates ''/d'') (hash_good demo_crates) S demo_user_site"
  "sizes_known demo_crates S (st demo_user_site)" "row_time (st demo_user_site) b k = None"
  by (simp_all add: addressed_def demo_user_site_def create_user_def put_user_row_def append_fact_tx_def Let_def
      get_local_block_fid_def store_new_def sizes_known_def row_time_def)

lemma demo_env_ok:
  "crates demo_env = demo_crates" "\<forall>d. hash_good demo_crates (blake3 demo_crates d)"
  "chunk_ok (fastcdc_first demo_crates) (Fixed 2)" "reads_ok demo_env (local_stored demo_crates ''/d'') b"
  using demo_digest_ok
  by (simp_all add: demo_env_def local_env_def hash_good_def demo_hex_ok digest_ok_def chunk_ok_def reads_ok_def
      local_get_def local_stored_def demo_io_def)

definition demo_put :: "string reply \<times> files Site" where
  "demo_put = s3_put_object demo_env (Fixed 2) (Some ''AK'') ''b'' ''k'' (Some (map Ok [[1], [2, 3]])) demo_user_site"

lemma demo_put_facts:
  "fst demo_put = Reply (quoted ''01020300000000000000000000000000'')"
  "authorize demo_crates (st (snd demo_put)) (Some ''AK'') ''s3:GetObject'' (Some ''b'') (Some ''k'') = None"
  by code_simp+


lemma demo_put_eq:
  "s3_put_object demo_env (Fixed 2) (Some ''AK'') ''b'' ''k'' (Some (map Ok [[1], [2, 3]])) demo_user_site =
    (Reply (quoted ''01020300000000000000000000000000''), snd demo_put)"
  using demo_put_facts(1) by (simp only: demo_put_def [symmetric] prod_eq_iff fst_conv snd_conv)

lemma demo_body: "concat [[1], [2, 3]] = ([1, 2, 3] :: bytes)"
  by simp

theorem put_get_roundtrip_witness:
  "\<exists>ds. fst (s3_get_object demo_env (Some ''AK'') ''b'' ''k'' None (snd demo_put)) =
     Reply \<lparr>out_body = map Ok ds, out_length = 3, out_range = None,
            out_etag = quoted ''01020300000000000000000000000000''\<rparr> \<and> concat ds = [1, 2, 3]"
  using put_get_roundtrip [OF demo_block_site, where cfg = "Fixed 2" and S = "set demo_pieces" and fs = "[[1], [2, 3]]"
      and \<sigma> = demo_user_site and \<sigma>' = "snd demo_put" and b = "''b''" and k = "''k''", OF _ _ _ _ _ _ _ demo_put_eq,
      where cred' = "Some ''AK''", THEN conjunct2]
    demo_user_site_facts demo_env_ok demo_pieces_ok demo_put_facts(2) demo_digest_ok
  by (simp add: demo_body)

theorem put_range_get_witness:
  "\<exists>xs. fst (s3_get_object demo_env (Some ''AK'') ''b'' ''k'' (Some (RangeSuffix 2)) (snd demo_put)) =
     Reply \<lparr>out_body = map Ok xs, out_length = 2, out_range = Some (1, 2, 3),
            out_etag = quoted ''01020300000000000000000000000000''\<rparr> \<and> concat xs = [2, 3]"
proof -
  have "range_part (RangeSuffix 2) [1, 2, 3] = Some (1, [2, 3])" by simp
  with put_range_get [OF demo_block_site, where cfg = "Fixed 2" and S = "set demo_pieces" and fs = "[[1], [2, 3]]"
      and \<sigma> = demo_user_site and \<sigma>' = "snd demo_put" and b = "''b''" and k = "''k''", OF _ _ _ _ _ _ _ demo_put_eq,
      where cred' = "Some ''AK''" and rng = "RangeSuffix 2"]
    demo_user_site_facts demo_env_ok demo_pieces_ok demo_put_facts(2) demo_digest_ok
  show ?thesis by (simp add: demo_body)
qed

theorem failed_put_harmless_witness:
  "fst (s3_put_object demo_env (Fixed 2) (Some ''AK'') ''b'' ''k'' (Some [Ok [9, 9], Err]) (snd demo_put)) =
     Failed InternalError \<and>
   get_object (st (snd (s3_put_object demo_env (Fixed 2) (Some ''AK'') ''b'' ''k'' (Some [Ok [9, 9], Err]) (snd demo_put)))) =
     get_object (st (snd demo_put))"
proof -
  have "fst (s3_put_object demo_env (Fixed 2) (Some ''AK'') ''b'' ''k'' (Some [Ok [9, 9], Err]) (snd demo_put)) =
      Failed InternalError" by code_simp
  then show ?thesis
    using failed_put_harmless [OF demo_block_site, where \<sigma> = "snd demo_put", OF _ prod.collapse [symmetric],
        where cfg = "Fixed 2" and body = "Some [Ok [9, 9], Err]" and cred = "Some ''AK''" and b = "''b''" and k = "''k''"]
      demo_env_ok(1,2)
    by simp
qed

end
