(* ===== verification/S3_Multipart.thy ===== *)
theory S3_Multipart
  imports S3_Put_Get Decimal
begin

text \<open>
  Multipart uploads, the handlers from \<^verbatim>\<open>list_parts\<close> to \<^verbatim>\<open>abort_multipart_upload\<close> of
  \<^verbatim>\<open>src/src/storage.rs\<close> (lines 1603-1973): an upload collects parts as lists of blocks, completing it
  concatenates them in the order of their numbers into one object.
\<close>

section \<open>Listing parts and uploads\<close>

record PartsOutput =
  po_parts :: "(int \<times> int \<times> string) list"
  po_max :: nat
  po_truncated :: bool
  po_next :: "string option"

definition s3_list_parts ::
    "Crates \<Rightarrow> Store \<Rightarrow> string option \<Rightarrow> string \<Rightarrow> string \<Rightarrow> string \<Rightarrow> string option \<Rightarrow> int option \<Rightarrow> PartsOutput reply" where
  "s3_list_parts C s cred bucket key upload part_number_marker max_parts =
     (case authorize C s cred ''s3:ListMultipartUploadParts'' (Some bucket) (Some key) of
        Some e \<Rightarrow> Failed e
      | None \<Rightarrow>
     (case uuid_parse C upload of
        Err \<Rightarrow> Failed InvalidRequest
      | Ok uid \<Rightarrow>
     (case get_multipart_key s bucket uid of
        None \<Rightarrow> Failed NoSuchUpload
      | Some k \<Rightarrow>
          (let marker = (case Option.bind part_number_marker parse_i32 of None \<Rightarrow> 0 | Some n \<Rightarrow> n);
               limit = page_limit max_parts;
               filtered = filter (\<lambda>(n, _). n > marker) (list_parts s bucket uid);
               is_truncated = (length filtered > limit);
               result = map (\<lambda>(n, _, sz, etag). (n, sz, quoted etag)) (take limit filtered)
           in Reply \<lparr>po_parts = result, po_max = limit, po_truncated = is_truncated,
                     po_next = (if is_truncated \<and> result \<noteq> [] then Some (show_int (fst (last result))) else None)\<rparr>))))"

record UploadsOutput =
  uo_uploads :: "(string \<times> string) list"
  uo_max :: nat
  uo_truncated :: bool
  uo_next_key :: "string option"

definition s3_list_multipart_uploads ::
    "Crates \<Rightarrow> Store \<Rightarrow> string option \<Rightarrow> string \<Rightarrow> string option \<Rightarrow> string option \<Rightarrow> int option \<Rightarrow> UploadsOutput reply" where
  "s3_list_multipart_uploads C s cred bucket pfx key_marker max_uploads =
     (case authorize C s cred ''s3:ListBucketMultipartUploads'' (Some bucket) None of
        Some e \<Rightarrow> Failed e
      | None \<Rightarrow>
          (let limit = page_limit max_uploads;
               rows = list_multipart_uploads s bucket pfx key_marker limit;
               is_truncated = (length rows > limit);
               ups = take limit rows
           in Reply \<lparr>uo_uploads = ups, uo_max = limit, uo_truncated = is_truncated,
                     uo_next_key = (if is_truncated \<and> ups \<noteq> [] then Some (fst (last ups)) else None)\<rparr>))"

section \<open>Collecting parts\<close>

text \<open>The new upload id, \<^verbatim>\<open>Uuid::new_v4()\<close> as text, is an argument.\<close>

definition s3_create_multipart_upload ::
    "'b Env \<Rightarrow> string \<Rightarrow> string option \<Rightarrow> string \<Rightarrow> string \<Rightarrow> 'b Site \<Rightarrow> string reply \<times> 'b Site" where
  "s3_create_multipart_upload E new_id cred bucket key \<sigma> =
     (case authorize (crates E) (st \<sigma>) cred ''s3:PutObject'' (Some bucket) (Some key) of
        Some e \<Rightarrow> (Failed e, \<sigma>)
      | None \<Rightarrow> (Reply new_id, \<sigma>\<lparr>st := insert_multipart bucket new_id key (st \<sigma>)\<rparr>))"

text \<open>
  What \<^verbatim>\<open>upload_part\<close> and \<^verbatim>\<open>upload_part_copy\<close> check before they store: the action, the disk, the upload.
\<close>

definition part_target ::
    "'b Env \<Rightarrow> string option \<Rightarrow> string \<Rightarrow> string \<Rightarrow> string \<Rightarrow> 'b Site \<Rightarrow> S3ErrorCode + string" where
  "part_target E cred bucket key upload \<sigma> =
     (case authorize (crates E) (st \<sigma>) cred ''s3:PutObject'' (Some bucket) (Some key) of
        Some e \<Rightarrow> Inl e
      | None \<Rightarrow>
     (case check_writable (disk_guard \<sigma>) of
        Some e \<Rightarrow> Inl e
      | None \<Rightarrow>
     (case uuid_parse (crates E) upload of
        Err \<Rightarrow> Inl InvalidRequest
      | Ok uid \<Rightarrow>
     (case get_multipart_key (st \<sigma>) bucket uid of
        None \<Rightarrow> Inl NoSuchUpload
      | Some k \<Rightarrow> Inr uid))))"

definition save_part ::
    "'b Env \<Rightarrow> string \<Rightarrow> string \<Rightarrow> int \<Rightarrow> Upload reply \<times> 'b Site \<Rightarrow> string reply \<times> 'b Site" where
  "save_part E bucket uid part_number r =
     (case fst r of
        Reply u \<Rightarrow>
          (let etag = hex_encode (crates E) (md5 (crates E) (up_md5_input u)); \<sigma>1 = snd r
           in (Reply (quoted etag),
               \<sigma>1\<lparr>st := insert_part bucket uid part_number (up_hashes u) (up_size u) etag (st \<sigma>1)\<rparr>))
      | Failed e \<Rightarrow> (Failed e, snd r)
      | Panicked \<Rightarrow> (Panicked, snd r)
      | Hangs \<Rightarrow> (Hangs, snd r))"

definition s3_upload_part ::
    "'b Env \<Rightarrow> ChunkingConfig \<Rightarrow> string option \<Rightarrow> string \<Rightarrow> string \<Rightarrow> string \<Rightarrow> int \<Rightarrow> bytes result list option \<Rightarrow>
     'b Site \<Rightarrow> string reply \<times> 'b Site" where
  "s3_upload_part E cfg cred bucket key upload part_number body \<sigma> =
     (case part_target E cred bucket key upload \<sigma> of
        Inl e \<Rightarrow> (Failed e, \<sigma>)
      | Inr uid \<Rightarrow>
     (case body of
        None \<Rightarrow> (Failed InvalidRequest, \<sigma>)
      | Some frames \<Rightarrow> save_part E bucket uid part_number (receive_body E cfg frames upload_new \<sigma>)))"

section \<open>Copying a part\<close>

text \<open>
  \<^verbatim>\<open>bytes=start-end\<close>: the prefix is optional, the rest is split at the first dash. Without a range the
  whole source, ending at \<^verbatim>\<open>(src_size as u64).saturating_sub(1)\<close>.
\<close>

definition copy_range :: "string option \<Rightarrow> int \<Rightarrow> (int \<times> int) option" where
  "copy_range rng src_size =
     (case rng of
        None \<Rightarrow> Some (0, max (wrap_u64 src_size - 1) 0)
      | Some s \<Rightarrow>
          (let range_str = (case strip_prefix ''bytes='' s of None \<Rightarrow> s | Some r \<Rightarrow> r);
               start_str = takeWhile (\<lambda>c. c \<noteq> CHR ''-'') range_str;
               rest = dropWhile (\<lambda>c. c \<noteq> CHR ''-'') range_str
           in if rest = [] then None
              else (case parse_u64 start_str of
                      None \<Rightarrow> None
                    | Some a \<Rightarrow> (case parse_u64 (drop 1 rest) of None \<Rightarrow> None | Some b \<Rightarrow> Some (a, b)))))"

fun copy_slices ::
    "'b Env \<Rightarrow> ChunkingConfig \<Rightarrow> hash list \<Rightarrow> (nat \<times> int \<times> int) list \<Rightarrow> Upload \<Rightarrow> 'b Site \<Rightarrow> Upload reply \<times> 'b Site" where
  "copy_slices E cfg src_blocks [] u \<sigma> = finish_body E u \<sigma>"
| "copy_slices E cfg src_blocks ((i, skip, tk) # slices) u \<sigma> =
     (let r = get_block E (src_blocks ! i) \<sigma>
      in case fst r of
           Err \<Rightarrow> (Failed InternalError, snd r)
         | Ok data \<Rightarrow>
             (let q = take_frame E cfg (slice_block_bytes data skip (Some tk)) u (snd r)
              in case fst q of
                   Reply u' \<Rightarrow> copy_slices E cfg src_blocks slices u' (snd q)
                 | Failed e \<Rightarrow> (Failed e, snd q)
                 | Panicked \<Rightarrow> (Panicked, snd q)
                 | Hangs \<Rightarrow> (Hangs, snd q)))"

definition s3_upload_part_copy ::
    "'b Env \<Rightarrow> ChunkingConfig \<Rightarrow> string option \<Rightarrow> CopySource \<Rightarrow> string option \<Rightarrow> string \<Rightarrow> string \<Rightarrow> string \<Rightarrow> int \<Rightarrow>
     'b Site \<Rightarrow> string reply \<times> 'b Site" where
  "s3_upload_part_copy E cfg cred source rng bucket key upload part_number \<sigma> =
     (case part_target E cred bucket key upload \<sigma> of
        Inl e \<Rightarrow> (Failed e, \<sigma>)
      | Inr uid \<Rightarrow>
     (case source of
        CopyAccessPoint \<Rightarrow> (Failed NotImplemented, \<sigma>)
      | CopyBucket sb sk \<Rightarrow>
     (case get_object (st \<sigma>) sb sk of
        None \<Rightarrow> (Failed NoSuchKey, \<sigma>)
      | Some (src_blocks, src_size, src_etag) \<Rightarrow>
     (case copy_range rng src_size of
        None \<Rightarrow> (Failed InvalidArgument, \<sigma>)
      | Some (a, b) \<Rightarrow>
          save_part E bucket uid part_number
            (copy_slices E cfg src_blocks (slice_blocks_for_range (block_sizes (st \<sigma>) src_blocks) a b) upload_new \<sigma>)))))"

section \<open>Finishing an upload\<close>

definition trim_quotes :: "string \<Rightarrow> string" where
  "trim_quotes s = (let q = (\<lambda>c. c = CHR 0x22) in rev (dropWhile q (rev (dropWhile q s))))"

fun join_parts ::
    "Crates \<Rightarrow> (int \<times> hash list \<times> int \<times> string) list \<Rightarrow> hash list \<Rightarrow> int \<Rightarrow> bytes \<Rightarrow> (hash list \<times> int \<times> bytes) result" where
  "join_parts C [] hashes total_size etag_input = Ok (hashes, total_size, etag_input)"
| "join_parts C ((n, bs, sz, etag) # ps) hashes total_size etag_input =
     (case hex_decode C (trim_quotes etag) of
        Err \<Rightarrow> Err
      | Ok etag_bytes \<Rightarrow> join_parts C ps (hashes @ bs) (wrap_i64 (total_size + sz)) (etag_input @ etag_bytes))"

definition s3_complete_multipart_upload ::
    "'b Env \<Rightarrow> string option \<Rightarrow> string \<Rightarrow> string \<Rightarrow> string \<Rightarrow> 'b Site \<Rightarrow> string reply \<times> 'b Site" where
  "s3_complete_multipart_upload E cred bucket key upload \<sigma> =
     (case authorize (crates E) (st \<sigma>) cred ''s3:PutObject'' (Some bucket) (Some key) of
        Some e \<Rightarrow> (Failed e, \<sigma>)
      | None \<Rightarrow>
     (case uuid_parse (crates E) upload of
        Err \<Rightarrow> (Failed InvalidRequest, \<sigma>)
      | Ok uid \<Rightarrow>
     (case get_multipart_key (st \<sigma>) bucket uid of
        None \<Rightarrow> (Failed NoSuchUpload, \<sigma>)
      | Some stored_key \<Rightarrow>
     if stored_key \<noteq> key then (Failed InvalidRequest, \<sigma>)
     else
     (case join_parts (crates E) (sort_key fst (list_parts (st \<sigma>) bucket uid)) [] 0 [] of
        Err \<Rightarrow> (Failed InternalError, \<sigma>)
      | Ok (hashes, total_size, etag_input) \<Rightarrow>
          (let etag = hex_encode (crates E) (md5 (crates E) etag_input) @ ''-'' @ show_nat (length hashes);
               s1 = insert_object (crates E) (sys_now E \<sigma>) bucket (compute_shard_id (blake3 (crates E)) key) key
                      hashes total_size etag (st \<sigma>)
           in (Reply (quoted etag), ticked (\<sigma>\<lparr>st := delete_multipart_upload bucket uid s1\<rparr>)))))))"

definition s3_abort_multipart_upload ::
    "'b Env \<Rightarrow> string option \<Rightarrow> string \<Rightarrow> string \<Rightarrow> string \<Rightarrow> 'b Site \<Rightarrow> unit reply \<times> 'b Site" where
  "s3_abort_multipart_upload E cred bucket key upload \<sigma> =
     (case authorize (crates E) (st \<sigma>) cred ''s3:AbortMultipartUpload'' (Some bucket) (Some key) of
        Some e \<Rightarrow> (Failed e, \<sigma>)
      | None \<Rightarrow>
     (case uuid_parse (crates E) upload of
        Err \<Rightarrow> (Failed InvalidRequest, \<sigma>)
      | Ok uid \<Rightarrow> (Reply (), \<sigma>\<lparr>st := delete_multipart_upload bucket uid (st \<sigma>)\<rparr>)))"


section \<open>Parts of an upload\<close>

definition part_numbers :: "Store \<Rightarrow> string \<Rightarrow> string \<Rightarrow> int set" where
  "part_numbers s b u = {n. map_of (parts s) (b, u, n) \<noteq> None}"

definition part_entry :: "Store \<Rightarrow> string \<Rightarrow> string \<Rightarrow> int \<Rightarrow> int \<times> hash list \<times> int \<times> string" where
  "part_entry s b u n =
     (let r = the (map_of (parts s) (b, u, n)) in (n, decode_blocks (part_blocks r), part_size r, part_etag r))"

text \<open>Listing the parts of an upload yields each part number once, in ascending order.\<close>

lemma list_parts_sorted:
  assumes "table_ok (parts s)" "sorted_wrt (<) ns" "set ns = part_numbers s b u"
  shows "list_parts s b u = map (part_entry s b u) ns"
proof -
  let ?f = "\<lambda>((_, _, n), r). (n, decode_blocks (part_blocks r), part_size r, part_etag r)"
  let ?rows = "filter (\<lambda>((b', u', _), _). b' = b \<and> u' = u) (parts s)"
  have keys: "map fst (map ?f ?rows) = map (snd \<circ> snd) (map fst ?rows)" by (induction "parts s") auto
  have "distinct (map fst ?rows)" using assms(1) by (rule distinct_map_filter)
  moreover have "inj_on (snd \<circ> snd) (fst ` set ?rows)" by (auto simp: inj_on_def)
  ultimately have "distinct (map fst (map ?f ?rows))"
    unfolding keys distinct_map [of "snd \<circ> snd"] set_map by (rule conjI)
  then have d: "distinct (map ?f ?rows)" "inj_on fst (set (map ?f ?rows))"
    unfolding distinct_map [of fst "map ?f ?rows"] by (rule conjunct1, rule conjunct2)
  have e: "distinct (map fst (map (part_entry s b u) ns))" "sorted (map fst (map (part_entry s b u) ns))"
    using assms(2) by (simp_all add: part_entry_def Let_def comp_def strict_sorted_iff)
  have "((b, u, n), r) \<in> set (parts s) \<longleftrightarrow> map_of (parts s) (b, u, n) = Some r" for n r
    using assms(1) by (rule set_table_iff)
  moreover have "x \<in> set (map ?f ?rows) \<longleftrightarrow>
      (\<exists>n r. ((b, u, n), r) \<in> set (parts s) \<and> x = (n, decode_blocks (part_blocks r), part_size r, part_etag r))" for x
    unfolding set_map set_filter image_iff by auto
  moreover have "x \<in> set (map (part_entry s b u) ns) \<longleftrightarrow>
      (\<exists>n r. map_of (parts s) (b, u, n) = Some r \<and> x = (n, decode_blocks (part_blocks r), part_size r, part_etag r))" for x
    unfolding set_map assms(3) image_iff by (auto simp: part_numbers_def part_entry_def Let_def)
  ultimately have "set (map ?f ?rows) = set (map (part_entry s b u) ns)" by (intro set_eqI) simp
  then show ?thesis
    unfolding list_parts_def using d e
    by (intro map_sorted_distinct_set_unique [where f = fst]) (simp_all add: distinct_map)
qed

definition part_holds ::
    "Crates \<Rightarrow> ('b \<Rightarrow> hash \<Rightarrow> fid \<Rightarrow> bytes option) \<Rightarrow> 'b Site \<Rightarrow> string \<Rightarrow> string \<Rightarrow> int \<Rightarrow> bytes \<Rightarrow> bool" where
  "part_holds C stored \<sigma> b u n body \<longleftrightarrow>
     (\<exists>ds r. map_of (parts (st \<sigma>)) (b, u, n) = Some r \<and> decode_blocks (part_blocks r) = map (blake3 C) ds \<and>
        concat ds = body \<and> part_size r = int (length body) \<and> part_etag r = hex_encode C (md5 C body) \<and>
        (\<forall>d \<in> set ds. holds stored \<sigma> (blake3 C d) d))"

definition upload_state ::
    "'b Env \<Rightarrow> ('b \<Rightarrow> hash \<Rightarrow> fid \<Rightarrow> bytes option) \<Rightarrow> string \<Rightarrow> string \<Rightarrow> (int \<rightharpoonup> bytes) \<Rightarrow> 'b Site \<Rightarrow> bool" where
  "upload_state E stored b u m \<sigma> \<longleftrightarrow>
     table_ok (parts (st \<sigma>)) \<and> part_numbers (st \<sigma>) b u = dom m \<and>
     (\<forall>n body. m n = Some body \<longrightarrow> part_holds (crates E) stored \<sigma> b u n body)"

lemma insert_part_keeps [simp]:
  "objects (insert_part b u n bs sz et s) = objects s" "clock (insert_part b u n bs sz et s) = clock s"
  "users (insert_part b u n bs sz et s) = users s" "blocks (insert_part b u n bs sz et s) = blocks s"
  "multipart_uploads (insert_part b u n bs sz et s) = multipart_uploads s"
  "get_local_block_fid (insert_part b u n bs sz et s) = get_local_block_fid s"
  by (simp_all add: insert_part_def get_local_block_fid_def fun_eq_iff)

lemma map_of_insert_part:
  "map_of (parts (insert_part b u n bs sz et s)) =
     (map_of (parts s))((b, u, n) \<mapsto> \<lparr>part_blocks = encode_blocks bs, part_size = sz, part_etag = et\<rparr>)"
  by (simp add: insert_part_def AList.update_conv')

lemma table_ok_insert_part: "table_ok (parts s) \<Longrightarrow> table_ok (parts (insert_part b u n bs sz et s))"
  by (simp add: insert_part_def AList.distinct_update)

lemma save_part_Reply:
  assumes "save_part E b uid n r = (Reply etag, \<sigma>')"
  obtains u where "r = (Reply u, snd r)" "etag = quoted (hex_encode (crates E) (md5 (crates E) (up_md5_input u)))"
    "\<sigma>' = (snd r)\<lparr>st := insert_part b uid n (up_hashes u) (up_size u)
       (hex_encode (crates E) (md5 (crates E) (up_md5_input u))) (st (snd r))\<rparr>"
  using assms that by (cases r; cases "fst r") (auto simp: save_part_def Let_def)

text \<open>Storing a part in an upload: the part is the body, the other parts stay.\<close>

lemma save_part_state:
  assumes "upload_state E stored b uid m \<sigma>" "digest_ok (blake3 (crates E))"
    and "\<forall>d. good (blake3 (crates E) d)"
    and "r = (Reply u, \<sigma>1)" "save_part E b uid n r = (Reply etag, \<sigma>')" "parts (st \<sigma>1) = parts (st \<sigma>)"
    and "up_hashes u = map (blake3 (crates E)) ds" "concat ds = body" "up_md5_input u = body"
    and "up_size u = int (length body)" "\<forall>d \<in> set ds. holds stored \<sigma>1 (blake3 (crates E) d) d"
    and "\<forall>h d. good h \<longrightarrow> holds stored \<sigma> h d \<longrightarrow> holds stored \<sigma>1 h d"
  shows "upload_state E stored b uid (m(n \<mapsto> body)) \<sigma>'"
proof -
  let ?H = "blake3 (crates E)"
  have \<sigma>': "\<sigma>' = \<sigma>1\<lparr>st := insert_part b uid n (map ?H ds) (int (length body)) (hex_encode (crates E) (md5 (crates E) body)) (st \<sigma>1)\<rparr>"
    using assms(4,5,7,9,10) by (simp add: save_part_def Let_def)
  have held: "holds stored \<sigma>' = holds stored \<sigma>1" by (simp add: \<sigma>' holds_def fun_eq_iff)
  have rows: "map_of (parts (st \<sigma>')) = (map_of (parts (st \<sigma>)))((b, uid, n) \<mapsto>
      \<lparr>part_blocks = encode_blocks (map ?H ds), part_size = int (length body),
       part_etag = hex_encode (crates E) (md5 (crates E) body)\<rparr>)"
    by (simp add: \<sigma>' map_of_insert_part assms(6))
  have "hashes_ok (map ?H ds)" using assms(2) by (simp add: hashes_ok_def digest_ok_def)
  then have new: "part_holds (crates E) stored \<sigma>' b uid n body"
    unfolding part_holds_def rows held using assms(8,11) by (intro exI [of _ ds]) simp
  have old: "part_holds (crates E) stored \<sigma>' b uid n' x"
    if "n' \<noteq> n" "part_holds (crates E) stored \<sigma> b uid n' x" for n' x
    using that assms(3,12) unfolding part_holds_def rows held by (simp) blast
  have "table_ok (parts (st \<sigma>'))"
    using assms(1,6) by (simp add: \<sigma>' table_ok_insert_part upload_state_def)
  moreover have "part_numbers (st \<sigma>') b uid = dom (m(n \<mapsto> body))"
  proof -
    have "part_numbers (st \<sigma>') b uid = insert n (part_numbers (st \<sigma>) b uid)"
      by (auto simp: part_numbers_def rows)
    then show ?thesis using assms(1) by (auto simp: upload_state_def)
  qed
  ultimately show ?thesis using new old assms(1) by (auto simp: upload_state_def)
qed


section \<open>Completing\<close>

lemma trim_quotes_id: "CHR 0x22 \<notin> set s \<Longrightarrow> trim_quotes s = s"
proof -
  have "dropWhile (\<lambda>c. c = CHR 0x22) t = t" if "CHR 0x22 \<notin> set t" for t :: string
    using that by (cases t) auto
  then show "CHR 0x22 \<notin> set s \<Longrightarrow> trim_quotes s = s" by (simp add: trim_quotes_def Let_def)
qed

lemma trim_quotes_hex [simp]: "hex_ok C \<Longrightarrow> trim_quotes (hex_encode C m) = hex_encode C m"
  using hex_chars [of C m] by (intro trim_quotes_id) auto

text \<open>The entries of parts whose bodies are given, as listed.\<close>

definition entry_of :: "Crates \<Rightarrow> int \<times> bytes list \<Rightarrow> int \<times> hash list \<times> int \<times> string" where
  "entry_of C p = (fst p, map (blake3 C) (snd p), int (length (concat (snd p))), hex_encode C (md5 C (concat (snd p))))"

lemma join_parts_entries:
  assumes "hex_ok C" "0 \<le> t" "t + int (length (concat (concat (map snd ps)))) < 2 ^ 63"
  shows "join_parts C (map (entry_of C) ps) hs t ei =
    Ok (hs @ map (blake3 C) (concat (map snd ps)), t + int (length (concat (concat (map snd ps)))),
        ei @ concat (map (\<lambda>p. md5 C (concat (snd p))) ps))"
  using assms(2,3)
proof (induction ps arbitrary: hs t ei)
  case (Cons p ps)
  let ?l = "int (length (concat (snd p)))"
  have "wrap_i64 (t + ?l) = t + ?l" using Cons.prems by (intro wrap_i64_id) (auto simp: in_i64_def)
  then show ?case
    using Cons.prems assms(1) Cons.IH [of "t + ?l" "hs @ map (blake3 C) (snd p)" "ei @ md5 C (concat (snd p))"]
    by (simp add: entry_of_def add.assoc)
qed simp

lemma upload_state_entries:
  assumes "upload_state E stored b u m \<sigma>" "sorted_wrt (<) ns" "set ns = dom m"
  obtains ps where "list_parts (st \<sigma>) b u = map (entry_of (crates E)) ps"
    "map (\<lambda>p. (fst p, concat (snd p))) ps = map (\<lambda>n. (n, the (m n))) ns"
    "\<forall>d \<in> set (concat (map snd ps)). holds stored \<sigma> (blake3 (crates E) d) d"
proof -
  have "\<exists>ds. part_entry (st \<sigma>) b u n = entry_of (crates E) (n, ds) \<and> concat ds = the (m n) \<and>
      (\<forall>d \<in> set ds. holds stored \<sigma> (blake3 (crates E) d) d)" if n: "n \<in> set ns" for n
  proof -
    obtain body where "m n = Some body" using n assms(3) by auto
    then have "part_holds (crates E) stored \<sigma> b u n body" using assms(1) by (simp add: upload_state_def)
    with \<open>m n = Some body\<close> show ?thesis
      by (auto simp: part_holds_def part_entry_def entry_of_def Let_def)
  qed
  then obtain f where f: "\<And>n. n \<in> set ns \<Longrightarrow> part_entry (st \<sigma>) b u n = entry_of (crates E) (n, f n)"
    "\<And>n. n \<in> set ns \<Longrightarrow> concat (f n) = the (m n)"
    "\<And>n d. n \<in> set ns \<Longrightarrow> d \<in> set (f n) \<Longrightarrow> holds stored \<sigma> (blake3 (crates E) d) d"
    by metis
  have "list_parts (st \<sigma>) b u = map (part_entry (st \<sigma>) b u) ns"
    using assms by (intro list_parts_sorted) (auto simp: upload_state_def)
  then show ?thesis
    using f by (intro that [of "map (\<lambda>n. (n, f n)) ns"]) (auto simp: comp_def)
qed

lemma complete_Reply:
  assumes "s3_complete_multipart_upload E cred b k upload \<sigma> = (Reply etag, \<sigma>')" "uuid_parse (crates E) upload = Ok uid"
  obtains hashes sz ei e where
    "join_parts (crates E) (sort_key fst (list_parts (st \<sigma>) b uid)) [] 0 [] = Ok (hashes, sz, ei)"
    "e = hex_encode (crates E) (md5 (crates E) ei) @ ''-'' @ show_nat (length hashes)" "etag = quoted e"
    "\<sigma>' = ticked (\<sigma>\<lparr>st := delete_multipart_upload b uid (insert_object (crates E) (sys_now E \<sigma>) b
       (compute_shard_id (blake3 (crates E)) k) k hashes sz e (st \<sigma>))\<rparr>)"
proof (cases "join_parts (crates E) (sort_key fst (list_parts (st \<sigma>) b uid)) [] 0 []")
  case Err
  with assms show ?thesis
    by (simp add: s3_complete_multipart_upload_def split: option.splits if_splits)
next
  case (Ok j)
  obtain hashes sz ei where j: "j = (hashes, sz, ei)" by (cases j) auto
  from assms Ok show ?thesis
    by (intro that [of hashes sz ei])
      (auto simp: j s3_complete_multipart_upload_def Let_def split: option.splits if_splits)
qed

lemma delete_multipart_keeps [simp]:
  "objects (delete_multipart_upload b u s) = objects s" "blocks (delete_multipart_upload b u s) = blocks s"
  "get_object (delete_multipart_upload b u s) = get_object s"
  "get_local_block_fid (delete_multipart_upload b u s) = get_local_block_fid s"
  by (simp_all add: delete_multipart_upload_def get_local_block_fid_def get_object_def fun_eq_iff Let_def)

lemma concat_concat: "concat (concat xss) = concat (map concat xss)"
  by (induction xss) simp_all

lemma complete_stored:
  assumes "upload_state E stored b uid m \<sigma>" "sorted_wrt (<) ns" "set ns = dom m"
    and "digest_ok (blake3 (crates E))" "hex_ok (crates E)" "uuid_parse (crates E) upload = Ok uid"
    and "s3_complete_multipart_upload E cred b k upload \<sigma> = (Reply etag, \<sigma>')"
    and "int (length (concat (map (\<lambda>n. the (m n)) ns))) < 2 ^ 63"
    and "\<forall>t. row_time (st \<sigma>) b k = Some t \<longrightarrow> t < store_now_micros (st \<sigma>) (sys_now E \<sigma>)"
  obtains ds e where "concat ds = concat (map (\<lambda>n. the (m n)) ns)" "etag = quoted e"
    "get_object (st \<sigma>') b k = Some (map (blake3 (crates E)) ds, int (length (concat ds)), e)"
    "\<forall>d \<in> set ds. holds stored \<sigma>' (blake3 (crates E) d) d"
proof -
  let ?C = "crates E"
  obtain ps where ps: "list_parts (st \<sigma>) b uid = map (entry_of ?C) ps"
    "map (\<lambda>p. (fst p, concat (snd p))) ps = map (\<lambda>n. (n, the (m n))) ns"
    "\<forall>d \<in> set (concat (map snd ps)). holds stored \<sigma> (blake3 ?C d) d"
    by (rule upload_state_entries [OF assms(1-3)])
  let ?ds = "concat (map snd ps)"
  have "map fst ps = ns" "map (\<lambda>p. concat (snd p)) ps = map (\<lambda>n. the (m n)) ns"
    using arg_cong [OF ps(2), of "map fst"] arg_cong [OF ps(2), of "map snd"] by (simp_all add: comp_def)
  then have body: "concat ?ds = concat (map (\<lambda>n. the (m n)) ns)" and "sorted (map fst (map (entry_of ?C) ps))"
    using assms(2) by (simp_all add: concat_concat comp_def entry_of_def strict_sorted_iff)
  then have sort: "sort_key fst (list_parts (st \<sigma>) b uid) = map (entry_of ?C) ps"
    by (simp add: ps(1) sort_key_id_if_sorted)
  obtain hashes sz ei e where
    j: "join_parts ?C (sort_key fst (list_parts (st \<sigma>) b uid)) [] 0 [] = Ok (hashes, sz, ei)" "etag = quoted e"
      "\<sigma>' = ticked (\<sigma>\<lparr>st := delete_multipart_upload b uid (insert_object ?C (sys_now E \<sigma>) b
         (compute_shard_id (blake3 ?C) k) k hashes sz e (st \<sigma>))\<rparr>)"
    by (rule complete_Reply [OF assms(7,6)])
  have "hashes = map (blake3 ?C) ?ds" "sz = int (length (concat ?ds))"
    using j(1) join_parts_entries [OF assms(5), of 0 ps "[]" "[]"] assms(8) body by (simp_all add: sort)
  moreover have "hashes_ok (map (blake3 ?C) ?ds)" using assms(4) by (simp add: hashes_ok_def digest_ok_def)
  ultimately have "get_object (st \<sigma>') b k = Some (map (blake3 ?C) ?ds, int (length (concat ?ds)), e)"
    using insert_object_newer assms(9) by (simp add: j(3))
  moreover have "\<forall>d \<in> set ?ds. holds stored \<sigma>' (blake3 ?C d) d" using ps(3) by (simp add: j(3) holds_def)
  ultimately show ?thesis using body j(2) by (intro that [of ?ds e])
qed


section \<open>A sequence of parts\<close>

text \<open>The parts of an upload, sent one after the other; \<open>None\<close> when one of them was not accepted.\<close>

fun upload_parts ::
    "'b Env \<Rightarrow> ChunkingConfig \<Rightarrow> string option \<Rightarrow> string \<Rightarrow> string \<Rightarrow> string \<Rightarrow> (int \<times> bytes list) list \<Rightarrow> 'b Site \<Rightarrow> 'b Site option" where
  "upload_parts E cfg cred b k upload [] \<sigma> = Some \<sigma>"
| "upload_parts E cfg cred b k upload ((n, fs) # ps) \<sigma> =
     (case s3_upload_part E cfg cred b k upload n (Some (map Ok fs)) \<sigma> of
        (Reply etag, \<sigma>') \<Rightarrow> upload_parts E cfg cred b k upload ps \<sigma>'
      | _ \<Rightarrow> None)"

definition part_bodies :: "(int \<times> bytes list) list \<Rightarrow> (int \<rightharpoonup> bytes)" where
  "part_bodies ps = fold (\<lambda>(n, fs) m. m(n \<mapsto> concat fs)) ps (\<lambda>n. None)"

text \<open>The last body sent for each number, in the order of the numbers.\<close>

definition assembled :: "(int \<times> bytes list) list \<Rightarrow> bytes" where
  "assembled ps = concat (map (\<lambda>n. the (part_bodies ps n)) (sort (remdups (map fst ps))))"

lemma part_bodies_dom: "dom (fold (\<lambda>(n, fs) m. m(n \<mapsto> concat fs)) ps m) = fst ` set ps \<union> dom m"
  by (induction ps arbitrary: m) auto

lemma upload_part_Reply:
  assumes "s3_upload_part E cfg cred b k upload n (Some frames) \<sigma> = (Reply etag, \<sigma>')"
    and "uuid_parse (crates E) upload = Ok uid"
  obtains u \<sigma>1 where "receive_body E cfg frames upload_new \<sigma> = (Reply u, \<sigma>1)"
    "save_part E b uid n (Reply u, \<sigma>1) = (Reply etag, \<sigma>')"
proof -
  have save: "save_part E b uid n (receive_body E cfg frames upload_new \<sigma>) = (Reply etag, \<sigma>')"
    using assms by (auto simp: s3_upload_part_def part_target_def split: option.splits)
  then obtain u where "receive_body E cfg frames upload_new \<sigma> = (Reply u, snd (receive_body E cfg frames upload_new \<sigma>))"
    by (rule save_part_Reply)
  with save show ?thesis using that by metis
qed

lemma upload_part_state:
  assumes site: "block_site E stored good" "\<forall>d. good (blake3 (crates E) d)" "digest_ok (blake3 (crates E))"
    and "chunk_ok (fastcdc_first (crates E)) cfg"
    and "addressed (crates E) stored good S \<sigma>" "{d. sublist d (concat fs)} \<subseteq> S" "inj_on (blake3 (crates E)) S"
    and "int (length (concat fs)) < 2 ^ 63" "upload_state E stored b uid m \<sigma>" "uuid_parse (crates E) upload = Ok uid"
    and "s3_upload_part E cfg cred b k upload n (Some (map Ok fs)) \<sigma> = (Reply etag, \<sigma>')"
  shows "upload_state E stored b uid (m(n \<mapsto> concat fs)) \<sigma>'" "addressed (crates E) stored good S \<sigma>'"
    "objects (st \<sigma>') = objects (st \<sigma>)" "clock (st \<sigma>') = clock (st \<sigma>)"
    "etag = quoted (hex_encode (crates E) (md5 (crates E) (concat fs)))"
proof -
  obtain u \<sigma>1 where body: "receive_body E cfg (map Ok fs) upload_new \<sigma> = (Reply u, \<sigma>1)"
    and save: "save_part E b uid n (Reply u, \<sigma>1) = (Reply etag, \<sigma>')"
    by (rule upload_part_Reply [OF assms(11,10)])
  obtain ds where ds: "concat ds = concat fs" "up_hashes u = map (blake3 (crates E)) ds"
    "up_md5_input u = concat fs" "up_size u = int (length (concat fs))"
    "addressed (crates E) stored good S \<sigma>1" "\<forall>d \<in> set ds. holds stored \<sigma>1 (blake3 (crates E) d) d"
    "\<forall>h d. good h \<longrightarrow> holds stored \<sigma> h d \<longrightarrow> holds stored \<sigma>1 h d"
    by (rule receive_body_stored [OF site(1,2) assms(4-8) body]) iprover
  have st1: "objects (st \<sigma>1) = objects (st \<sigma>)" "clock (st \<sigma>1) = clock (st \<sigma>)" "parts (st \<sigma>1) = parts (st \<sigma>)"
    using receive_body_store [of E cfg "map Ok fs" upload_new \<sigma>] body by simp_all
  show "upload_state E stored b uid (m(n \<mapsto> concat fs)) \<sigma>'"
    by (rule save_part_state [OF assms(9) site(3,2) refl save st1(3) ds(2,1,3,4,6,7)])
  show "addressed (crates E) stored good S \<sigma>'" "objects (st \<sigma>') = objects (st \<sigma>)" "clock (st \<sigma>') = clock (st \<sigma>)"
    "etag = quoted (hex_encode (crates E) (md5 (crates E) (concat fs)))"
    using save ds(5) st1(1,2) by (auto simp: save_part_def Let_def addressed_def ds(3))
qed

lemma upload_parts_state:
  assumes site: "block_site E stored good" "\<forall>d. good (blake3 (crates E) d)" "digest_ok (blake3 (crates E))"
    and "chunk_ok (fastcdc_first (crates E)) cfg" "inj_on (blake3 (crates E)) S" "uuid_parse (crates E) upload = Ok uid"
    and "addressed (crates E) stored good S \<sigma>" "upload_state E stored b uid m \<sigma>"
    and "\<forall>(n, fs) \<in> set ps. {d. sublist d (concat fs)} \<subseteq> S \<and> int (length (concat fs)) < 2 ^ 63"
    and "upload_parts E cfg cred b k upload ps \<sigma> = Some \<sigma>'"
  shows "upload_state E stored b uid (fold (\<lambda>(n, fs) m. m(n \<mapsto> concat fs)) ps m) \<sigma>' \<and>
    objects (st \<sigma>') = objects (st \<sigma>) \<and> clock (st \<sigma>') = clock (st \<sigma>)"
  using assms(7-10)
proof (induction ps arbitrary: \<sigma> m)
  case (Cons p ps)
  obtain n fs where p: "p = (n, fs)" by (cases p)
  obtain r \<sigma>1 where r: "s3_upload_part E cfg cred b k upload n (Some (map Ok fs)) \<sigma> = (r, \<sigma>1)"
    by (cases "s3_upload_part E cfg cred b k upload n (Some (map Ok fs)) \<sigma>")
  with Cons.prems(4) obtain etag where [simp]: "r = Reply etag" by (cases r) (auto simp: p)
  have rest: "upload_parts E cfg cred b k upload ps \<sigma>1 = Some \<sigma>'" using Cons.prems(4) r by (simp add: p)
  have fs: "{d. sublist d (concat fs)} \<subseteq> S" "int (length (concat fs)) < 2 ^ 63" using Cons.prems(3) by (auto simp: p)
  note step = upload_part_state [OF site assms(4) Cons.prems(1) fs(1) assms(5) fs(2) Cons.prems(2) assms(6) r [simplified]]
  show ?case using Cons.IH [OF step(2,1) _ rest] Cons.prems(3) step(3,4) by (simp add: p)
qed simp


lemma create_upload_state:
  assumes "s3_create_multipart_upload E new_id cred b k \<sigma> = (Reply uid, \<sigma>')"
    and "table_ok (parts (st \<sigma>))" "part_numbers (st \<sigma>) b new_id = {}"
  shows "upload_state E stored b uid (\<lambda>n. None) \<sigma>'" "uid = new_id"
    "objects (st \<sigma>') = objects (st \<sigma>)" "clock (st \<sigma>') = clock (st \<sigma>)"
    "get_local_block_fid (st \<sigma>') = get_local_block_fid (st \<sigma>)" "blobs \<sigma>' = blobs \<sigma>"
proof -
  have eq: "\<sigma>' = \<sigma>\<lparr>st := insert_multipart b new_id k (st \<sigma>)\<rparr>" "uid = new_id"
    using assms(1) by (auto simp: s3_create_multipart_upload_def split: option.splits)
  have "part_numbers (st \<sigma>') b new_id = part_numbers (st \<sigma>) b new_id"
    by (simp add: eq part_numbers_def insert_multipart_def)
  then show "upload_state E stored b uid (\<lambda>n. None) \<sigma>'" "uid = new_id"
    "objects (st \<sigma>') = objects (st \<sigma>)" "clock (st \<sigma>') = clock (st \<sigma>)"
    "get_local_block_fid (st \<sigma>') = get_local_block_fid (st \<sigma>)" "blobs \<sigma>' = blobs \<sigma>"
    using assms(2,3)
    by (simp_all add: eq upload_state_def insert_multipart_def get_local_block_fid_def fun_eq_iff)
qed

section \<open>Copied parts\<close>

lemma enqueue_keeps_parts [simp]: "parts (enqueue_replication sys h ts s) = parts s"
  by (simp add: enqueue_replication_def Let_def)

lemma get_block_parts: "parts (st (snd (get_block E h \<sigma>))) = parts (st \<sigma>)"
proof -
  have pr: "parts (st (snd (promote_block_locally E h d \<sigma>))) = parts (st \<sigma>)" for d \<sigma>
    by (simp add: promote_block_locally_def Let_def split: result.split)
  have "parts (st (snd (fetch_loop E h locs peers \<sigma>))) = parts (st \<sigma>)" for locs peers \<sigma>
    by (induction peers arbitrary: \<sigma>) (simp_all add: Let_def pr split: result.split)
  then show ?thesis by (simp add: get_block_def split: option.split)
qed

lemma copy_slices_parts: "parts (st (snd (copy_slices E cfg src slices u \<sigma>))) = parts (st \<sigma>)"
proof (induction slices arbitrary: u \<sigma>)
  case Nil
  then show ?case
    by (simp add: finish_body_def store_blocks_store del: store_blocks.simps split: option.split prod.split)
next
  case (Cons p slices)
  then show ?case
    by (cases p) (simp add: Let_def get_block_parts take_frame_store del: slice_block_bytes_simps
      split: result.split reply.split)
qed

text \<open>Copying slices of held blocks is receiving their bytes as frames.\<close>

lemma copy_slices_received:
  assumes site: "block_site E stored good" "\<forall>d. good (blake3 (crates E) d)" "\<forall>b. reads_ok E stored b"
    and S: "inj_on (blake3 (crates E)) S"
    and "copy_slices E cfg src slices u \<sigma> = (Reply u', \<sigma>')" "addressed (crates E) stored good S \<sigma>"
    and "\<forall>(i, s, n) \<in> set slices. good (src ! i) \<and> holds stored \<sigma> (src ! i) (data i)"
    and "stream_chunks (chunk_process (fastcdc_first (crates E)) cfg) chunk_finalize
      (map (\<lambda>(i, s, n). slice_block_bytes (data i) s (Some n)) slices) (up_buffer u) = Some (Value ds)"
    and "set ds \<subseteq> S"
  shows "received (crates E) stored good S u \<sigma> (map (\<lambda>(i, s, n). slice_block_bytes (data i) s (Some n)) slices) ds u' \<sigma>'"
  using assms(5-9)
proof (induction slices arbitrary: u \<sigma> ds)
  case Nil
  then show ?case
    using block_site.finish_body_received [OF site(1) _ Nil.prems(2) _ Nil.prems(5) S site(2)] by simp
next
  case (Cons p slices)
  obtain i s n where p: "p = (i, s, n)" by (cases p) auto
  let ?frame = "slice_block_bytes (data i) s (Some n)"
  have held: "holds stored \<sigma> (src ! i) (data i)" using Cons.prems(3) by (simp add: p)
  have g: "get_block E (src ! i) \<sigma> = (Ok (data i), ticked \<sigma>)"
    using get_block_held [OF _ held] site(3) by simp
  obtain r \<sigma>1 where t: "take_frame E cfg ?frame u (ticked \<sigma>) = (r, \<sigma>1)"
    by (cases "take_frame E cfg ?frame u (ticked \<sigma>)")
  with Cons.prems(1) g obtain u1 where u1: "r = Reply u1"
    by (cases r) (auto simp: p Let_def simp del: slice_block_bytes_simps)
  have rest: "copy_slices E cfg src slices u1 \<sigma>1 = (Reply u', \<sigma>')"
    using Cons.prems(1) g t u1 by (simp add: p Let_def del: slice_block_bytes_simps)
  have a: "addressed (crates E) stored good S (ticked \<sigma>)" using Cons.prems(2) by (simp add: addressed_def)
  obtain cs es where ds: "ds = cs @ es"
    "stream_chunks (chunk_process (fastcdc_first (crates E)) cfg) chunk_finalize
      (map (\<lambda>(i, s, n). slice_block_bytes (data i) s (Some n)) slices) (up_buffer u1) = Some (Value es)"
    and first: "received (crates E) stored good S u (ticked \<sigma>) [?frame] cs u1 \<sigma>1"
    by (rule block_site.take_frame_received [OF site(1) t [unfolded u1] a
        Cons.prems(4) [unfolded p list.map prod.case] Cons.prems(5) S site(2)])
  have first': "received (crates E) stored good S u \<sigma> [?frame] cs u1 \<sigma>1"
    using first by (simp add: received_def)
  have "received (crates E) stored good S u1 \<sigma>1 (map (\<lambda>(i, s, n). slice_block_bytes (data i) s (Some n)) slices) es u' \<sigma>'"
  proof (rule Cons.IH [OF rest _ _ ds(2)])
    show "addressed (crates E) stored good S \<sigma>1" using first by (simp add: received_def)
    show "\<forall>(i, s, n) \<in> set slices. good (src ! i) \<and> holds stored \<sigma>1 (src ! i) (data i)"
      using Cons.prems(3) first' by (auto simp: received_def)
    show "set es \<subseteq> S" using Cons.prems(5) ds(1) by simp
  qed
  from block_site.received_trans [OF site(1) first' this site(2)] show ?case
    by (simp add: ds(1) p del: slice_block_bytes_simps)
qed

lemma copied_part:
  assumes "block_site E stored good" "\<forall>d. good (blake3 (crates E) d)" "digest_ok (blake3 (crates E))"
    and "\<forall>b. reads_ok E stored b" "chunk_ok (fastcdc_first (crates E)) cfg"
    and "addressed (crates E) stored good S \<sigma>" "inj_on (blake3 (crates E)) S"
    and "get_object (st \<sigma>) sb sk = Some (map (blake3 (crates E)) srcs, int (length (concat srcs)), src_etag)"
    and "\<forall>d \<in> set srcs. holds stored \<sigma> (blake3 (crates E) d) d"
    and "block_sizes (st \<sigma>) (map (blake3 (crates E)) srcs) = map (\<lambda>d. int (length d)) srcs"
    and "int (length (concat srcs)) < 2 ^ 63" "copy_range rng (int (length (concat srcs))) = Some (lo, hi)" "0 \<le> lo" "lo \<le> hi"
    and "{d. sublist d (take (nat (hi - lo + 1)) (drop (nat lo) (concat srcs)))} \<subseteq> S"
    and "upload_state E stored b uid m \<sigma>" "uuid_parse (crates E) upload = Ok uid"
    and "s3_upload_part_copy E cfg cred (CopyBucket sb sk) rng b k upload n \<sigma> = (Reply etag, \<sigma>')"
  shows "upload_state E stored b uid (m(n \<mapsto> take (nat (hi - lo + 1)) (drop (nat lo) (concat srcs)))) \<sigma>' \<and>
    etag = quoted (hex_encode (crates E) (md5 (crates E) (take (nat (hi - lo + 1)) (drop (nat lo) (concat srcs)))))"
proof -
  let ?H = "blake3 (crates E)" and ?body = "take (nat (hi - lo + 1)) (drop (nat lo) (concat srcs))"
  let ?sl = "slice_blocks_for_range (map (\<lambda>d. int (length d)) srcs) lo hi"
  let ?frames = "map (\<lambda>(i, s, n). slice_block_bytes (srcs ! i) s (Some n)) ?sl"
  have frames: "concat ?frames = ?body"
  proof -
    have "nat (hi + 1) - nat lo = nat (hi - lo + 1)" using assms(13,14) by simp
    with slice_loop_bytes [of 0 srcs lo hi "\<lambda>j. srcs ! j" 0] assms(11,13,14) show ?thesis
      by (simp add: slice_blocks_for_range_def byte_window_def drop_take)
  qed
  from ck.stream_chunks_sound [OF assms(5), of "[]" ?frames] obtain ds where
    ds: "stream_chunks (chunk_process (fastcdc_first (crates E)) cfg) chunk_finalize ?frames [] = Some (Value ds)"
      "concat ds = ?body" by (auto simp: frames simp del: slice_block_bytes_simps)
  note sub = chunks_in [OF ds(2) assms(15)]
  let ?copy = "copy_slices E cfg (map ?H srcs) ?sl upload_new \<sigma>"
  have save: "save_part E b uid n ?copy = (Reply etag, \<sigma>')"
    using assms(8,10,12,17,18) by (auto simp: s3_upload_part_copy_def part_target_def split: option.splits)
  obtain u where u: "?copy = (Reply u, snd ?copy)"
    "etag = quoted (hex_encode (crates E) (md5 (crates E) (up_md5_input u)))"
    by (rule save_part_Reply [OF save])
  have new: "up_buffer upload_new = []" "up_hashes upload_new = []" "up_size upload_new = 0" "up_md5_input upload_new = []"
    by (simp_all add: upload_new_def)
  have held: "\<forall>(i, s, n) \<in> set ?sl. good (map ?H srcs ! i) \<and> holds stored \<sigma> (map ?H srcs ! i) (srcs ! i)"
  proof clarify
    fix i s n
    assume "(i, s, n) \<in> set ?sl"
    from slice_index [OF this [unfolded slice_blocks_for_range_def]] have "i < length srcs" by simp
    with assms(2,9) show "good (map ?H srcs ! i) \<and> holds stored \<sigma> (map ?H srcs ! i) (srcs ! i)" by simp
  qed
  note rcv = copy_slices_received [OF assms(1,2,4,7) u(1) assms(6) held _ sub, unfolded new, OF ds(1)]
  have len: "int (length (concat ds)) < 2 ^ 63" using assms(11) by (simp add: ds(2))
  from rcv have fields: "up_hashes u = map ?H ds" "up_md5_input u = ?body" "up_size u = int (length ?body)"
    "\<forall>d \<in> set ds. holds stored (snd ?copy) (?H d) d"
    "\<forall>h d. good h \<longrightarrow> holds stored \<sigma> h d \<longrightarrow> holds stored (snd ?copy) h d"
    using len by (simp_all add: received_def new frames ds(2) del: slice_block_bytes_simps)
  have "parts (st (snd ?copy)) = parts (st \<sigma>)" by (rule copy_slices_parts)
  from save_part_state [OF assms(16,3,2) u(1) save this fields(1) ds(2) fields(2-5)] u(2) fields(2)
  show ?thesis by simp
qed

text \<open>The ranges of a copied part: the whole source, or \<^verbatim>\<open>bytes=a-z\<close> in decimal.\<close>

lemma show_nat_no_dash: "\<forall>c \<in> set (show_nat n). c \<noteq> CHR ''-''"
proof (induction n rule: show_nat.induct)
  case (1 n)
  have "char_of (48 + d) \<noteq> CHR ''-''" if "d < (10 :: nat)" for d
  proof
    assume "char_of (48 + d) = CHR ''-''"
    then have "of_char (char_of (48 + d) :: char) = (of_char CHR ''-'' :: nat)" by simp
    with that show False by simp
  qed
  with 1 show ?case by (subst show_nat.simps) auto
qed

lemma copy_range_text:
  assumes "int a < 2 ^ 64" "int z < 2 ^ 64"
  shows "copy_range (Some (''bytes='' @ show_nat a @ ''-'' @ show_nat z)) sz = Some (int a, int z)"
proof -
  have "strip_prefix ''bytes='' (''bytes='' @ t) = Some t" for t by (simp add: strip_prefix_def)
  moreover have "parse_u64 (show_nat n) = Some (int n)" if "int n < 2 ^ 64" for n
    using that show_nat_unsigned [of n] by (simp add: parse_u64_def)
  moreover have "takeWhile (\<lambda>c. c \<noteq> CHR ''-'') (show_nat a @ ''-'' @ show_nat z) = show_nat a"
    "dropWhile (\<lambda>c. c \<noteq> CHR ''-'') (show_nat a @ ''-'' @ show_nat z) = ''-'' @ show_nat z"
    using show_nat_no_dash [of a] by (simp_all add: takeWhile_append2 dropWhile_append2)
  ultimately show ?thesis using assms unfolding copy_range_def by (simp add: Let_def del: append_Cons)
qed

section \<open>Properties\<close>

text \<open>
  C5. A multipart upload delivers the parts in order: after an upload was created, parts were sent in
  any order, some of them repeatedly, and the upload was completed, a get of the key streams the
  parts' bodies concatenated in ascending order of their part numbers, each number with the body
  sent last, and the content length is the sum of their lengths. Assumed are a byte store that keeps its laws and
  answers reads, digests without collision, a clock ahead of the key's stored row and a fresh upload id.
\<close>

theorem multipart_roundtrip:
  assumes "block_site E stored good" "\<forall>d. good (blake3 (crates E) d)" "digest_ok (blake3 (crates E))"
    and "hex_ok (crates E)" "chunk_ok (fastcdc_first (crates E)) cfg"
    and "addressed (crates E) stored good S \<sigma>" "inj_on (blake3 (crates E)) S"
    and "\<forall>(n, fs) \<in> set ps. {d. sublist d (concat fs)} \<subseteq> S \<and> int (length (concat fs)) < 2 ^ 63"
    and "int (length (assembled ps)) < 2 ^ 63"
    and "table_ok (parts (st \<sigma>))" "part_numbers (st \<sigma>) b new_id = {}" "uuid_parse (crates E) new_id = Ok new_id"
    and "s3_create_multipart_upload E new_id cred b k \<sigma> = (Reply uid, \<sigma>0)"
    and "upload_parts E cfg cred b k uid ps \<sigma>0 = Some \<sigma>p"
    and "s3_complete_multipart_upload E cred b k uid \<sigma>p = (Reply etag, \<sigma>')"
    and "\<forall>n t. row_time (st \<sigma>) b k = Some t \<longrightarrow> t < store_now_micros (st \<sigma>) (sys_micros E n)"
    and "authorize (crates E) (st \<sigma>') cred' ''s3:GetObject'' (Some b) (Some k) = None"
    and "reads_ok E stored (blobs \<sigma>')"
  shows "\<exists>ds. fst (s3_get_object E cred' b k None \<sigma>') =
       Reply \<lparr>out_body = map Ok ds, out_length = int (length (assembled ps)), out_range = None, out_etag = etag\<rparr> \<and>
     concat ds = assembled ps"
proof -
  note new = create_upload_state [OF assms(13,10,11)]
  have id: "uuid_parse (crates E) uid = Ok uid" using assms(12) new(2) by simp
  have "addressed (crates E) stored good S \<sigma>0" using assms(6) new(5,6) by (simp add: addressed_def)
  note up = upload_parts_state [OF assms(1-3,5,7) id this new(1) assms(8,14)]
  let ?ns = "sort (remdups (map fst ps))"
  have m: "upload_state E stored b uid (part_bodies ps) \<sigma>p" using up by (simp add: part_bodies_def)
  have ns: "sorted_wrt (<) ?ns" "set ?ns = dom (part_bodies ps)"
    by (auto simp: strict_sorted_iff part_bodies_def part_bodies_dom)
  have "\<forall>t. row_time (st \<sigma>p) b k = Some t \<longrightarrow> t < store_now_micros (st \<sigma>p) (sys_now E \<sigma>p)"
    using assms(16) up new(3,4) by (simp add: row_time_def store_now_micros_def)
  then obtain ds e where "concat ds = concat (map (\<lambda>n. the (part_bodies ps n)) ?ns)" "etag = quoted e"
    "get_object (st \<sigma>') b k = Some (map (blake3 (crates E)) ds, int (length (concat ds)), e)"
    "\<forall>d \<in> set ds. holds stored \<sigma>' (blake3 (crates E) d) d"
    by (rule complete_stored [OF m ns assms(3,4) id assms(15) assms(9) [unfolded assembled_def]])
  with whole_get_held [OF assms(17) _ assms(18)] show ?thesis by (auto simp: assembled_def)
qed


text \<open>
  C19. Copying a part is exact: when a part is copied from an object whose blocks the site holds itself
  with their recorded sizes, the stored part is the whole content of the object if no range is given,
  and for the range \<^verbatim>\<open>bytes=a-z\<close> in decimal exactly the bytes \<open>a\<close> to \<open>z\<close> of it (clipped at its end); the
  answer carries the digest of those bytes, and the other parts of the upload stay.
\<close>

theorem upload_part_copy_exact:
  assumes "block_site E stored good" "\<forall>d. good (blake3 (crates E) d)" "digest_ok (blake3 (crates E))"
    and "\<forall>b. reads_ok E stored b" "chunk_ok (fastcdc_first (crates E)) cfg"
    and "addressed (crates E) stored good S \<sigma>" "inj_on (blake3 (crates E)) S"
    and "get_object (st \<sigma>) sb sk = Some (map (blake3 (crates E)) srcs, int (length (concat srcs)), src_etag)"
    and "\<forall>d \<in> set srcs. holds stored \<sigma> (blake3 (crates E) d) d"
    and "block_sizes (st \<sigma>) (map (blake3 (crates E)) srcs) = map (\<lambda>d. int (length d)) srcs"
    and "int (length (concat srcs)) < 2 ^ 63" "{d. sublist d body} \<subseteq> S"
    and rng: "rng = None \<and> body = concat srcs \<or>
      (\<exists>a z. rng = Some (''bytes='' @ show_nat a @ ''-'' @ show_nat z) \<and> a \<le> z \<and> int z < 2 ^ 64 \<and>
        body = take (z - a + 1) (drop a (concat srcs)))"
    and "upload_state E stored b uid m \<sigma>" "uuid_parse (crates E) upload = Ok uid"
    and "s3_upload_part_copy E cfg cred (CopyBucket sb sk) rng b k upload n \<sigma> = (Reply etag, \<sigma>')"
  shows "upload_state E stored b uid (m(n \<mapsto> body)) \<sigma>' \<and> etag = quoted (hex_encode (crates E) (md5 (crates E) body))"
proof -
  have "\<exists>lo hi. copy_range rng (int (length (concat srcs))) = Some (lo, hi) \<and> 0 \<le> lo \<and> lo \<le> hi \<and>
      body = take (nat (hi - lo + 1)) (drop (nat lo) (concat srcs))"
    using rng
  proof (elim disjE exE conjE)
    assume "rng = None" "body = concat srcs"
    moreover have "wrap_u64 (int (length (concat srcs))) = int (length (concat srcs))"
      using assms(11) by (intro wrap_u64_id) auto
    ultimately show ?thesis by (cases "concat srcs = []") (auto simp: copy_range_def)
  next
    fix a z
    assume r: "rng = Some (''bytes='' @ show_nat a @ ''-'' @ show_nat z)" "a \<le> z" "int z < 2 ^ 64"
      and b: "body = take (z - a + 1) (drop a (concat srcs))"
    have "copy_range rng (int (length (concat srcs))) = Some (int a, int z)"
      unfolding r(1) using r(2,3) by (intro copy_range_text) linarith+
    moreover have "nat (int z - int a + 1) = z - a + 1" using r(2) by simp
    ultimately show ?thesis using r(2) b by (intro exI [of _ "int a"] exI [of _ "int z"]) simp
  qed
  then obtain lo hi where r: "copy_range rng (int (length (concat srcs))) = Some (lo, hi)" "0 \<le> lo" "lo \<le> hi"
    and body: "body = take (nat (hi - lo + 1)) (drop (nat lo) (concat srcs))" by blast
  from copied_part [OF assms(1-11) r assms(12) [unfolded body] assms(14-16)] show ?thesis by (simp only: body)
qed


text \<open>
  An upload in progress survives garbage collection: a sweep, scheduled or forced, leaves every
  part of an upload as it was, with its blocks held.
\<close>

theorem parts_survive_sweep:
  assumes "block_site E stored good" "\<forall>h \<in> set (list_local_block_hashes (st \<sigma>)). good h"
    and "\<forall>d. good (blake3 (crates E) d)" "upload_state E stored b uid m \<sigma>"
    and "sweep_orphaned_blocks E grace force \<sigma> = (r, \<sigma>')"
  shows "upload_state E stored b uid m \<sigma>'"
proof -
  have parts: "parts (st \<sigma>') = parts (st \<sigma>)" using sweep_manifests [OF assms(5)] by (simp add: same_manifests_def)
  have "part_holds (crates E) stored \<sigma>' b uid n body" if ph: "part_holds (crates E) stored \<sigma> b uid n body" for n body
  proof -
    from ph obtain ds r where r: "map_of (parts (st \<sigma>)) (b, uid, n) = Some r"
      "decode_blocks (part_blocks r) = map (blake3 (crates E)) ds" "concat ds = body" "part_size r = int (length body)"
      "part_etag r = hex_encode (crates E) (md5 (crates E) body)"
      "\<forall>d \<in> set ds. holds stored \<sigma> (blake3 (crates E) d) d"
      by (auto simp: part_holds_def)
    have "set (decode_blocks (part_blocks r)) \<subseteq> compute_live_block_set (st \<sigma>)"
      using map_of_SomeD [OF r(1)] by (force simp: compute_live_block_set_def)
    then have "\<forall>d \<in> set ds. blake3 (crates E) d \<in> compute_live_block_set (st \<sigma>)" by (auto simp: r(2))
    then have "\<forall>d \<in> set ds. holds stored \<sigma>' (blake3 (crates E) d) d"
      using block_site.sweep_holds [OF assms(1,5,2)] assms(3) r(6) by blast
    then show ?thesis using r by (auto simp: part_holds_def parts)
  qed
  moreover have "part_numbers (st \<sigma>') b uid = part_numbers (st \<sigma>) b uid" by (simp add: part_numbers_def parts)
  ultimately show ?thesis using assms(4) by (auto simp: upload_state_def parts)
qed


text \<open>The entries of a parts listing after a marker.\<close>

definition listed_after :: "Store \<Rightarrow> string \<Rightarrow> string \<Rightarrow> int \<Rightarrow> (int \<times> int \<times> string) list" where
  "listed_after s b u marker =
     map (\<lambda>(n, _, sz, etag). (n, sz, quoted etag)) (filter (\<lambda>(n, _). n > marker) (list_parts s b u))"

lemma filter_after_take:
  assumes "sorted_wrt (<) (map fst xs)" "0 < l" "l \<le> length xs"
  shows "filter (\<lambda>p. fst p > fst (last (take l xs))) xs = drop l (xs :: ('a :: linorder \<times> 'b) list)"
proof -
  have last: "last (take l xs) = xs ! (l - 1)" using assms(2,3) by (subst last_conv_nth) auto
  have "\<not> fst p > fst (xs ! (l - 1))" if p: "p \<in> set (take l xs)" for p
  proof -
    obtain i where i: "i < l" "p = xs ! i" using p assms(3) by (auto simp: in_set_conv_nth)
    show ?thesis
    proof (cases "i = l - 1")
      case False
      then have "i < l - 1" "l - 1 < length xs" using i(1) assms(2,3) by auto
      with sorted_wrt_nth_less [OF assms(1), of i "l - 1"] show ?thesis by (simp add: i(2))
    qed (simp add: i(2))
  qed
  moreover have "fst p > fst (xs ! (l - 1))" if p: "p \<in> set (drop l xs)" for p
  proof -
    obtain i where "i < length xs - l" "p = xs ! (l + i)" using p assms(3) by (auto simp: in_set_conv_nth)
    then show ?thesis using sorted_wrt_nth_less [OF assms(1), of "l - 1" "l + i"] assms(2,3) by simp
  qed
  ultimately have "filter (\<lambda>p. fst p > fst (xs ! (l - 1))) (take l xs @ drop l xs) = drop l xs"
    unfolding filter_append by (simp add: filter_empty_conv filter_id_conv)
  then show ?thesis by (simp add: last)
qed

lemma list_parts_strict:
  assumes "table_ok (parts s)"
  shows "sorted_wrt (<) (map fst (list_parts s b u))" "fst ` set (list_parts s b u) = part_numbers s b u"
proof -
  have "part_numbers s b u \<subseteq> (\<lambda>r. snd (snd (fst r))) ` set (parts s)"
    unfolding part_numbers_def by (force dest: map_of_SomeD)
  then have "finite (part_numbers s b u)" by (rule finite_subset) simp
  then have "set (sorted_list_of_set (part_numbers s b u)) = part_numbers s b u" by simp
  moreover from this have "list_parts s b u = map (part_entry s b u) (sorted_list_of_set (part_numbers s b u))"
    using assms by (intro list_parts_sorted) simp_all
  ultimately have "list_parts s b u = map (part_entry s b u) (sorted_list_of_set (part_numbers s b u))"
    "set (sorted_list_of_set (part_numbers s b u)) = part_numbers s b u" by simp_all
  then show "sorted_wrt (<) (map fst (list_parts s b u))" "fst ` set (list_parts s b u) = part_numbers s b u"
    by (simp_all add: part_entry_def Let_def comp_def image_image)
qed

text \<open>
  Paging through the parts of an upload misses nothing and repeats nothing: the page after a
  marker is the beginning of the parts with a larger number, in order; a page that is not truncated
  is all of them, and the next marker of a truncated page continues exactly where the page ended.
\<close>

theorem list_parts_paging:
  assumes "authorize C s cred ''s3:ListMultipartUploadParts'' (Some b) (Some k) = None" "uuid_parse C upload = Ok uid"
    and "get_multipart_key s b uid \<noteq> None" "table_ok (parts s)"
    and "\<forall>n \<in> part_numbers s b uid. - (2 ^ 31) \<le> n \<and> n < 2 ^ 31" "- (2 ^ 31) \<le> marker" "marker < 2 ^ 31"
  shows "\<exists>out. s3_list_parts C s cred b k upload (Some (show_int marker)) max_parts = Reply out \<and>
    length (po_parts out) \<le> po_max out \<and>
    (if po_truncated out
     then \<exists>m' > marker. po_next out = Some (show_int m') \<and> - (2 ^ 31) \<le> m' \<and> m' < 2 ^ 31 \<and> po_parts out \<noteq> [] \<and>
            listed_after s b uid marker = po_parts out @ listed_after s b uid m'
     else po_next out = None \<and> listed_after s b uid marker = po_parts out)"
proof -
  let ?L = "list_parts s b uid" and ?l = "page_limit max_parts"
  let ?F = "filter (\<lambda>(n, _). n > marker) ?L"
  let ?f = "\<lambda>(n, _, sz, etag). (n, sz, quoted etag)"
  let ?out = "\<lparr>po_parts = map ?f (take ?l ?F), po_max = ?l, po_truncated = (length ?F > ?l),
     po_next = (if length ?F > ?l \<and> map ?f (take ?l ?F) \<noteq> [] then Some (show_int (fst (last (map ?f (take ?l ?F))))) else None)\<rparr>"
  note sorted = list_parts_strict [OF assms(4), of b uid]
  have reply: "s3_list_parts C s cred b k upload (Some (show_int marker)) max_parts = Reply ?out"
    using assms(1-3) by (auto simp: s3_list_parts_def Let_def parse_show_int [OF assms(6,7)])
  have pos: "0 < ?l" by (simp add: page_limit_def)
  have "listed_after s b uid marker = map ?f (take ?l ?F) @ listed_after s b uid (fst (last (take ?l ?F))) \<and>
      marker < fst (last (take ?l ?F)) \<and> fst (last (take ?l ?F)) \<in> part_numbers s b uid" if t: "length ?F > ?l"
  proof -
    let ?m = "fst (last (take ?l ?F))"
    have "last (take ?l ?F) \<in> set ?F" using pos t by (metis in_set_takeD last_in_set list.size(3) not_less_zero take_eq_Nil)
    then have m: "marker < ?m" "?m \<in> part_numbers s b uid" using sorted(2) by auto
    have "sorted_wrt (<) (map fst ?F)" using sorted(1) by (simp add: sorted_wrt_map sorted_wrt_filter)
    from filter_after_take [OF this pos] t have "filter (\<lambda>p. fst p > ?m) ?F = drop ?l ?F" by simp
    moreover have "filter (\<lambda>p. fst p > ?m) ?F = filter (\<lambda>(n, _). n > ?m) ?L"
      unfolding filter_filter using m(1) by (intro filter_cong) auto
    ultimately have "?F = take ?l ?F @ filter (\<lambda>(n, _). n > ?m) ?L" by (metis append_take_drop_id)
    from arg_cong [OF this, of "map ?f"] m show ?thesis by (simp add: listed_after_def)
  qed
  note cut = this
  have "fst (last (map ?f xs)) = fst (last xs)" if "xs \<noteq> []" for xs :: "(int \<times> hash list \<times> int \<times> string) list"
    using that by (simp add: last_map split: prod.split)
  moreover have "take ?l ?F \<noteq> []" if "length ?F > ?l" using that pos by force
  ultimately have next_marker: "po_next ?out = Some (show_int (fst (last (take ?l ?F))))" "po_parts ?out \<noteq> []"
    if "length ?F > ?l" using that by auto
  show ?thesis
  proof (cases "length ?F > ?l")
    case True
    with cut next_marker assms(5) have "\<exists>m' > marker. po_next ?out = Some (show_int m') \<and> - (2 ^ 31) \<le> m' \<and> m' < 2 ^ 31 \<and>
        po_parts ?out \<noteq> [] \<and> listed_after s b uid marker = po_parts ?out @ listed_after s b uid m'"
      by (intro exI [of _ "fst (last (take ?l ?F))"]) simp
    with True show ?thesis unfolding reply by (intro exI [of _ ?out]) simp
  next
    case False
    then show ?thesis unfolding reply by (intro exI [of _ ?out]) (simp add: listed_after_def)
  qed
qed


text \<open>
  Aborting an upload forgets exactly that upload: its key and its parts are gone, every other
  upload, every object and every user is untouched, and blocks only its parts referred to become
  orphans.
\<close>

theorem abort_forgets_upload:
  assumes "s3_abort_multipart_upload E cred b k upload \<sigma> = (Reply (), \<sigma>')" "uuid_parse (crates E) upload = Ok uid"
  shows "get_multipart_key (st \<sigma>') b uid = None \<and> list_parts (st \<sigma>') b uid = [] \<and>
    (\<forall>b' u'. (b', u') \<noteq> (b, uid) \<longrightarrow> get_multipart_key (st \<sigma>') b' u' = get_multipart_key (st \<sigma>) b' u' \<and>
       list_parts (st \<sigma>') b' u' = list_parts (st \<sigma>) b' u') \<and>
    get_object (st \<sigma>') = get_object (st \<sigma>) \<and> users (st \<sigma>') = users (st \<sigma>) \<and>
    compute_live_block_set (st \<sigma>') =
      set (concat (map (\<lambda>(_, r). decode_blocks (obj_blocks r)) (filter (\<lambda>(_, r). \<not> obj_deleted r) (objects (st \<sigma>))))) \<union>
      {h. \<exists>b' u' n r. ((b', u', n), r) \<in> set (parts (st \<sigma>)) \<and> (b', u') \<noteq> (b, uid) \<and> h \<in> set (decode_blocks (part_blocks r))}"
proof -
  have \<sigma>': "\<sigma>' = \<sigma>\<lparr>st := delete_multipart_upload b uid (st \<sigma>)\<rparr>"
    using assms by (auto simp: s3_abort_multipart_upload_def split: option.splits)
  have parts: "parts (st \<sigma>') = filter (\<lambda>((b', u', _), _). \<not> (b' = b \<and> u' = uid)) (parts (st \<sigma>))"
    by (auto simp: \<sigma>' delete_multipart_upload_def delete_where_def Let_def intro: filter_cong)
  have "list_parts (st \<sigma>') b' u' = (if (b', u') = (b, uid) then [] else list_parts (st \<sigma>) b' u')" for b' u'
  proof -
    have "filter (\<lambda>((b'', u'', _), _). b'' = b' \<and> u'' = u') (parts (st \<sigma>')) =
        (if (b', u') = (b, uid) then [] else filter (\<lambda>((b'', u'', _), _). b'' = b' \<and> u'' = u') (parts (st \<sigma>)))"
      by (auto simp: parts filter_empty_conv intro!: filter_cong)
    then show ?thesis by (simp add: list_parts_def)
  qed
  moreover have "get_multipart_key (st \<sigma>') b' u' = (if (b', u') = (b, uid) then None else get_multipart_key (st \<sigma>) b' u')" for b' u'
    by (simp add: \<sigma>' get_multipart_key_def delete_multipart_upload_def AList.delete_conv' Let_def)
  moreover have "set (concat (map (\<lambda>(_, r). decode_blocks (part_blocks r)) (parts (st \<sigma>')))) =
      {h. \<exists>b' u' n r. ((b', u', n), r) \<in> set (parts (st \<sigma>)) \<and> (b', u') \<noteq> (b, uid) \<and> h \<in> set (decode_blocks (part_blocks r))}"
    by (force simp: parts)
  ultimately show ?thesis
    by (simp add: compute_live_block_set_def \<sigma>') (simp add: delete_multipart_upload_def Let_def)
qed


section \<open>A concrete upload\<close>

definition demo_ps :: "(int \<times> bytes list) list" where
  "demo_ps = [(2, [[3]]), (1, [[1], [2]])]"

definition demo_created :: "files Site" where
  "demo_created = snd (s3_create_multipart_upload demo_env ''u1'' (Some ''AK'') ''b'' ''m'' demo_user_site)"

definition demo_uploaded :: "files Site" where
  "demo_uploaded = the (upload_parts demo_env (Fixed 2) (Some ''AK'') ''b'' ''m'' ''u1'' demo_ps demo_created)"

definition demo_completed :: "files Site" where
  "demo_completed = snd (s3_complete_multipart_upload demo_env (Some ''AK'') ''b'' ''m'' ''u1'' demo_uploaded)"

lemma demo_upload_runs:
  "s3_create_multipart_upload demo_env ''u1'' (Some ''AK'') ''b'' ''m'' demo_user_site = (Reply ''u1'', demo_created)"
  "upload_parts demo_env (Fixed 2) (Some ''AK'') ''b'' ''m'' ''u1'' demo_ps demo_created = Some demo_uploaded"
  "s3_complete_multipart_upload demo_env (Some ''AK'') ''b'' ''m'' ''u1'' demo_uploaded =
     (Reply (quoted ''01020000000000000000000000000000-2''), demo_completed)"
  "authorize demo_crates (st demo_completed) (Some ''AK'') ''s3:GetObject'' (Some ''b'') (Some ''m'') = None"
proof -
  have "fst (s3_create_multipart_upload demo_env ''u1'' (Some ''AK'') ''b'' ''m'' demo_user_site) = Reply ''u1''"
    by code_simp
  then show "s3_create_multipart_upload demo_env ''u1'' (Some ''AK'') ''b'' ''m'' demo_user_site = (Reply ''u1'', demo_created)"
    by (simp only: demo_created_def prod_eq_iff fst_conv snd_conv)
  have "upload_parts demo_env (Fixed 2) (Some ''AK'') ''b'' ''m'' ''u1'' demo_ps demo_created \<noteq> None"
    by code_simp
  then show "upload_parts demo_env (Fixed 2) (Some ''AK'') ''b'' ''m'' ''u1'' demo_ps demo_created = Some demo_uploaded"
    unfolding demo_uploaded_def by (rule option.collapse [symmetric])
  have "fst (s3_complete_multipart_upload demo_env (Some ''AK'') ''b'' ''m'' ''u1'' demo_uploaded) =
      Reply (quoted ''01020000000000000000000000000000-2'')" by code_simp
  then show "s3_complete_multipart_upload demo_env (Some ''AK'') ''b'' ''m'' ''u1'' demo_uploaded =
     (Reply (quoted ''01020000000000000000000000000000-2''), demo_completed)"
    by (simp only: demo_completed_def prod_eq_iff fst_conv snd_conv)
  show "authorize demo_crates (st demo_completed) (Some ''AK'') ''s3:GetObject'' (Some ''b'') (Some ''m'') = None"
    by code_simp
qed


lemma demo_user_site_parts:
  "table_ok (parts (st demo_user_site))" "part_numbers (st demo_user_site) b u = {}"
  by (simp_all add: demo_user_site_def create_user_def put_user_row_def append_fact_tx_def Let_def store_new_def
      part_numbers_def)

lemma demo_ps_ok:
  "\<forall>(n, fs) \<in> set demo_ps. {d. sublist d (concat fs)} \<subseteq> set demo_pieces \<and> int (length (concat fs)) < 2 ^ 63"
  "assembled demo_ps = [1, 2, 3]" "uuid_parse demo_crates u = Ok u"
proof -
  have "sublist [3] [1, 2, 3 :: byte]" "sublist [1, 2] [1, 2, 3 :: byte]" by code_simp+
  then show "\<forall>(n, fs) \<in> set demo_ps. {d. sublist d (concat fs)} \<subseteq> set demo_pieces \<and> int (length (concat fs)) < 2 ^ 63"
    by (auto simp: demo_ps_def demo_pieces_ok(1) intro: sublist_order.order_trans)
  show "assembled demo_ps = [1, 2, 3]" by code_simp
  show "uuid_parse demo_crates u = Ok u" by (simp add: demo_crates_def)
qed

theorem multipart_roundtrip_witness:
  "\<exists>ds. fst (s3_get_object demo_env (Some ''AK'') ''b'' ''m'' None demo_completed) =
     Reply \<lparr>out_body = map Ok ds, out_length = 3, out_range = None,
            out_etag = quoted ''01020000000000000000000000000000-2''\<rparr> \<and> concat ds = [1, 2, 3]"
  using multipart_roundtrip [OF demo_block_site, where cfg = "Fixed 2" and S = "set demo_pieces" and ps = demo_ps
      and \<sigma> = demo_user_site, OF _ _ _ _ _ _ _ _ _ _ _ demo_upload_runs(1,2,3), where cred' = "Some ''AK''"]
    demo_user_site_facts demo_user_site_parts demo_env_ok demo_pieces_ok demo_ps_ok demo_upload_runs(4)
    demo_digest_ok demo_hex_ok
  by simp

lemma demo_uploaded_state:
  "upload_state demo_env (local_stored demo_crates ''/d'') ''b'' ''u1'' (part_bodies demo_ps) demo_uploaded"
proof -
  note new = create_upload_state [OF demo_upload_runs(1) demo_user_site_parts]
  have "addressed demo_crates (local_stored demo_crates ''/d'') (hash_good demo_crates) (set demo_pieces) demo_created"
    using demo_user_site_facts(1) new(5,6) by (simp add: addressed_def)
  with upload_parts_state [OF demo_block_site, where S = "set demo_pieces", OF _ _ _ _ _ _ new(1) _ demo_upload_runs(2)]
    demo_env_ok demo_pieces_ok demo_ps_ok demo_digest_ok show ?thesis by (simp add: part_bodies_def)
qed

lemma demo_uploaded_hashes: "\<forall>h \<in> set (list_local_block_hashes (st demo_uploaded)). hash_good demo_crates h"
proof -
  have "list_all (\<lambda>h. length h = 32) (list_local_block_hashes (st demo_uploaded))" by code_simp
  then show ?thesis by (simp add: list_all_iff hash_good_def demo_hex_ok)
qed

theorem parts_survive_sweep_witness:
  "upload_state demo_env (local_stored demo_crates ''/d'') ''b'' ''u1'' (part_bodies demo_ps)
     (snd (sweep_orphaned_blocks demo_env 0 True demo_uploaded))"
  using parts_survive_sweep [OF demo_block_site, where \<sigma> = demo_uploaded, OF demo_uploaded_hashes _ _ prod.collapse [symmetric]]
    demo_uploaded_state demo_env_ok(1,2) by simp

theorem list_parts_paging_witness:
  "\<exists>out. s3_list_parts demo_crates (st demo_uploaded) (Some ''AK'') ''b'' ''m'' ''u1'' (Some (show_int 0)) (Some 1) = Reply out \<and>
     (if po_truncated out
      then \<exists>m' > 0. po_next out = Some (show_int m') \<and>
             listed_after (st demo_uploaded) ''b'' ''u1'' 0 = po_parts out @ listed_after (st demo_uploaded) ''b'' ''u1'' m'
      else listed_after (st demo_uploaded) ''b'' ''u1'' 0 = po_parts out)"
proof -
  have "authorize demo_crates (st demo_uploaded) (Some ''AK'') ''s3:ListMultipartUploadParts'' (Some ''b'') (Some ''m'') = None"
    "get_multipart_key (st demo_uploaded) ''b'' ''u1'' \<noteq> None" by code_simp+
  moreover have "table_ok (parts (st demo_uploaded))" "part_numbers (st demo_uploaded) ''b'' ''u1'' = {1, 2}"
    using demo_uploaded_state by (auto simp: upload_state_def part_bodies_def demo_ps_def)
  ultimately obtain out where
    "s3_list_parts demo_crates (st demo_uploaded) (Some ''AK'') ''b'' ''m'' ''u1'' (Some (show_int 0)) (Some 1) = Reply out"
    "if po_truncated out
      then \<exists>m' > 0. po_next out = Some (show_int m') \<and> - (2 ^ 31) \<le> m' \<and> m' < 2 ^ 31 \<and> po_parts out \<noteq> [] \<and>
             listed_after (st demo_uploaded) ''b'' ''u1'' 0 = po_parts out @ listed_after (st demo_uploaded) ''b'' ''u1'' m'
      else po_next out = None \<and> listed_after (st demo_uploaded) ''b'' ''u1'' 0 = po_parts out"
    using list_parts_paging [of demo_crates "st demo_uploaded" "Some ''AK''" "''b''" "''m''" "''u1''" "''u1''" 0 "Some 1"]
      demo_ps_ok(3) by auto
  then show ?thesis by (intro exI [of _ out]) (auto split: if_splits)
qed

theorem abort_forgets_upload_witness:
  "let \<sigma> = snd (s3_abort_multipart_upload demo_env (Some ''AK'') ''b'' ''m'' ''u1'' demo_uploaded)
   in get_multipart_key (st \<sigma>) ''b'' ''u1'' = None \<and> list_parts (st \<sigma>) ''b'' ''u1'' = []"
proof -
  have "fst (s3_abort_multipart_upload demo_env (Some ''AK'') ''b'' ''m'' ''u1'' demo_uploaded) = Reply ()" by code_simp
  then have "s3_abort_multipart_upload demo_env (Some ''AK'') ''b'' ''m'' ''u1'' demo_uploaded =
      (Reply (), snd (s3_abort_multipart_upload demo_env (Some ''AK'') ''b'' ''m'' ''u1'' demo_uploaded))"
    by (simp only: prod_eq_iff fst_conv snd_conv)
  from abort_forgets_upload [OF this, of "''u1''"] demo_ps_ok(3) demo_env_ok(1) show ?thesis by (simp only: Let_def)
qed


text \<open>Copying the last two bytes of the object of the example into an upload.\<close>

definition demo_copy_site :: "files Site" where
  "demo_copy_site = snd (s3_create_multipart_upload demo_env ''u2'' (Some ''AK'') ''b'' ''m'' (snd demo_put))"

definition demo_copied :: "string reply \<times> files Site" where
  "demo_copied = s3_upload_part_copy demo_env (Fixed 2) (Some ''AK'') (CopyBucket ''b'' ''k'') (Some ''bytes=1-2'')
     ''b'' ''m'' ''u2'' 1 demo_copy_site"

lemma addressed_rows:
  assumes "\<forall>((h, loc), r) \<in> set (block_locations (st \<sigma>)). good h \<and> (\<exists>d \<in> S. stored (blobs \<sigma>) h (loc_fid r) = Some d \<and> blake3 C d = h)"
  shows "addressed C stored good S \<sigma>"
  using assms by (fastforce simp: addressed_def get_local_block_fid_def dest: map_of_SomeD)

lemma demo_copy_facts:
  "addressed demo_crates (local_stored demo_crates ''/d'') (hash_good demo_crates) (set demo_pieces) demo_copy_site"
  "get_object (st demo_copy_site) ''b'' ''k'' =
     Some (map (blake3 demo_crates) [[1, 2], [3]], 3, ''01020300000000000000000000000000'')"
  "\<forall>d \<in> set [[1, 2], [3]]. holds (local_stored demo_crates ''/d'') demo_copy_site (blake3 demo_crates d) d"
  "block_sizes (st demo_copy_site) (map (blake3 demo_crates) [[1, 2], [3]]) = [2, 1]"
  "parts (st demo_copy_site) = []" "copy_range (Some ''bytes=1-2'') 3 = Some (1, 2)"
  "fst demo_copied = Reply (quoted ''02030000000000000000000000000000'')"
proof -
  have "list_all (\<lambda>((h, loc), r). length h = 32 \<and>
      list_ex (\<lambda>d. local_stored demo_crates ''/d'' (blobs demo_copy_site) h (loc_fid r) = Some d \<and> blake3 demo_crates d = h) demo_pieces)
      (block_locations (st demo_copy_site))" by code_simp
  then show "addressed demo_crates (local_stored demo_crates ''/d'') (hash_good demo_crates) (set demo_pieces) demo_copy_site"
    by (intro addressed_rows) (fastforce simp: list_all_iff list_ex_iff hash_good_def demo_hex_ok)
  have "list_all (\<lambda>d. map_option (local_stored demo_crates ''/d'' (blobs demo_copy_site) (blake3 demo_crates d))
      (get_local_block_fid (st demo_copy_site) (blake3 demo_crates d)) = Some (Some d)) [[1, 2], [3]]" by code_simp
  then show "\<forall>d \<in> set [[1, 2], [3]]. holds (local_stored demo_crates ''/d'') demo_copy_site (blake3 demo_crates d) d"
    by (simp add: list_all_iff holds_def)
qed code_simp+

theorem upload_part_copy_exact_witness:
  "upload_state demo_env (local_stored demo_crates ''/d'') ''b'' ''u2'' [1 \<mapsto> [2, 3]] (snd demo_copied)"
proof -
  have run: "s3_upload_part_copy demo_env (Fixed 2) (Some ''AK'') (CopyBucket ''b'' ''k'') (Some ''bytes=1-2'')
      ''b'' ''m'' ''u2'' 1 demo_copy_site = (Reply (quoted ''02030000000000000000000000000000''), snd demo_copied)"
    using demo_copy_facts(7) by (simp only: demo_copied_def [symmetric] prod_eq_iff fst_conv snd_conv)
  have "show_nat 1 = ''1''" "show_nat 2 = ''2''" by code_simp+
  then have rng: "\<exists>a z. Some ''bytes=1-2'' = Some (''bytes='' @ show_nat a @ ''-'' @ show_nat z) \<and> a \<le> z \<and>
      int z < 2 ^ 64 \<and> [2, 3] = take (z - a + 1) (drop a (concat [[1, 2], [3 :: byte]]))"
    by (intro exI [of _ 1] exI [of _ 2]) simp
  have "sublist [2, 3] [1, 2, 3 :: byte]" by code_simp
  then have "{d. sublist d [2, 3 :: byte]} \<subseteq> set demo_pieces"
    by (auto simp: demo_pieces_ok(1) intro: sublist_order.order_trans)
  moreover have "upload_state demo_env (local_stored demo_crates ''/d'') ''b'' ''u2'' Map.empty demo_copy_site"
    by (simp add: upload_state_def part_numbers_def demo_copy_facts(5))
  ultimately show ?thesis
    using upload_part_copy_exact [OF demo_block_site, where cfg = "Fixed 2" and S = "set demo_pieces" and srcs = "[[1, 2], [3]]"
        and m = Map.empty and uid = "''u2''" and body = "[2, 3]", OF _ _ _ _ _ _ _ _ _ _ _ disjI2 [OF rng] _ _ run]
      demo_copy_facts demo_env_ok demo_pieces_ok demo_ps_ok(3) demo_digest_ok
    by simp
qed

end
