(* ===== verification/Object_Spec.thy ===== *)
theory Object_Spec
  imports S3_Multipart
begin

text \<open>
  What a client of one site may rely on: a map from keys to bytes with the unfinished uploads beside it.
  The site implements it with manifests, blocks, a byte store and a garbage collector
  (\<^verbatim>\<open>src/src/storage.rs\<close>); this theory has the specification, the abstraction function, the invariant of a
  well-formed site and what receiving a body and writing a row do to them.
\<close>

section \<open>The specification\<close>

record Spec =
  sp_objects :: "string \<times> string \<rightharpoonup> bytes"
  sp_parts :: "string \<times> string \<times> int \<rightharpoonup> bytes"
  sp_uploads :: "string \<times> string \<rightharpoonup> string"

datatype S3Op =
    OpPut string string "bytes result list"
  | OpGet string string
  | OpDelete string string
  | OpDeleteMany string "string list"
  | OpCopy string string string string
  | OpCreate string string string
  | OpPart string string string int "bytes result list"
  | OpComplete string string string
  | OpAbort string string string
  | OpSweep bool

datatype Answer = Done | Body bytes | NotFound | Refused

text \<open>The bytes a body delivers, and the parts of an upload put together in the order of their numbers.\<close>

definition payload :: "bytes result list \<Rightarrow> bytes" where
  "payload frames = concat (map (\<lambda>f. case f of Ok x \<Rightarrow> x | Err \<Rightarrow> []) frames)"

definition assembled_parts :: "Spec \<Rightarrow> string \<Rightarrow> string \<Rightarrow> bytes" where
  "assembled_parts A b u =
     concat (map (\<lambda>n. the (sp_parts A (b, u, n))) (sorted_list_of_set {n. sp_parts A (b, u, n) \<noteq> None}))"

definition drop_upload :: "string \<Rightarrow> string \<Rightarrow> Spec \<Rightarrow> Spec" where
  "drop_upload b u A =
     A\<lparr>sp_parts := sp_parts A |` (- ({b} \<times> {u} \<times> UNIV)),
       sp_uploads := (sp_uploads A)((b, u) := None)\<rparr>"

text \<open>
  A request may be refused without effect. Otherwise it does exactly what it says, and a read returns the
  bytes of the key.
\<close>

inductive spec_step :: "Crates \<Rightarrow> S3Op \<Rightarrow> Spec \<Rightarrow> Answer \<Rightarrow> Spec \<Rightarrow> bool" for C where
  refused: "spec_step C op A Refused A"
| put: "spec_step C (OpPut b k frames) A Done (A\<lparr>sp_objects := (sp_objects A)((b, k) \<mapsto> payload frames)\<rparr>)"
| get: "sp_objects A (b, k) = Some d \<Longrightarrow> spec_step C (OpGet b k) A (Body d) A"
| get_missing: "sp_objects A (b, k) = None \<Longrightarrow> spec_step C (OpGet b k) A NotFound A"
| delete: "spec_step C (OpDelete b k) A Done (A\<lparr>sp_objects := (sp_objects A)((b, k) := None)\<rparr>)"
| delete_many: "spec_step C (OpDeleteMany b ks) A Done
    (A\<lparr>sp_objects := sp_objects A |` (- ({b} \<times> set ks))\<rparr>)"
| copy: "sp_objects A (sb, sk) = Some d \<Longrightarrow>
    spec_step C (OpCopy sb sk b k) A Done (A\<lparr>sp_objects := (sp_objects A)((b, k) \<mapsto> d)\<rparr>)"
| copy_missing: "sp_objects A (sb, sk) = None \<Longrightarrow> spec_step C (OpCopy sb sk b k) A NotFound A"
| create: "spec_step C (OpCreate b k u) A Done (A\<lparr>sp_uploads := (sp_uploads A)((b, u) \<mapsto> k)\<rparr>)"
| part: "uuid_parse C u = Ok uid \<Longrightarrow> sp_uploads A (b, uid) \<noteq> None \<Longrightarrow>
    spec_step C (OpPart b k u n frames) A Done (A\<lparr>sp_parts := (sp_parts A)((b, uid, n) \<mapsto> payload frames)\<rparr>)"
| complete: "uuid_parse C u = Ok uid \<Longrightarrow> sp_uploads A (b, uid) = Some k \<Longrightarrow>
    spec_step C (OpComplete b k u) A Done
      (drop_upload b uid (A\<lparr>sp_objects := (sp_objects A)((b, k) \<mapsto> assembled_parts A b uid)\<rparr>))"
| abort: "uuid_parse C u = Ok uid \<Longrightarrow> spec_step C (OpAbort b k u) A Done (drop_upload b uid A)"
| sweep: "spec_step C (OpSweep force) A Done A"

inductive spec_run :: "Crates \<Rightarrow> S3Op list \<Rightarrow> Spec \<Rightarrow> Answer list \<Rightarrow> Spec \<Rightarrow> bool" for C where
  run_nil: "spec_run C [] A [] A"
| run_cons: "spec_step C op A r A1 \<Longrightarrow> spec_run C ops A1 rs A2 \<Longrightarrow> spec_run C (op # ops) A (r # rs) A2"

section \<open>The implementation\<close>

definition answer :: "('a \<Rightarrow> Answer) \<Rightarrow> 'a reply \<Rightarrow> Answer" where
  "answer f r = (case r of Reply x \<Rightarrow> f x | Failed e \<Rightarrow> if e = NoSuchKey then NotFound else Refused | _ \<Rightarrow> Refused)"

definition streamed :: "GetOutput \<Rightarrow> Answer" where
  "streamed out = (if Err \<in> set (out_body out) then Refused else Body (payload (out_body out)))"

definition run_op ::
    "'b Env \<Rightarrow> ChunkingConfig \<Rightarrow> int \<Rightarrow> string option \<Rightarrow> S3Op \<Rightarrow> 'b Site \<Rightarrow> Answer \<times> 'b Site" where
  "run_op E cfg grace cred op \<sigma> =
     (case op of
        OpPut b k frames \<Rightarrow> map_prod (answer (\<lambda>_. Done)) id (s3_put_object E cfg cred b k (Some frames) \<sigma>)
      | OpGet b k \<Rightarrow> map_prod (answer streamed) id (s3_get_object E cred b k None \<sigma>)
      | OpDelete b k \<Rightarrow> map_prod (answer (\<lambda>_. Done)) id (s3_delete_object E cred b k \<sigma>)
      | OpDeleteMany b ks \<Rightarrow> map_prod (answer (\<lambda>_. Done)) id (s3_delete_objects E cred b ks \<sigma>)
      | OpCopy sb sk b k \<Rightarrow> map_prod (answer (\<lambda>_. Done)) id (s3_copy_object E cred (CopyBucket sb sk) b k \<sigma>)
      | OpCreate b k u \<Rightarrow> map_prod (answer (\<lambda>_. Done)) id (s3_create_multipart_upload E u cred b k \<sigma>)
      | OpPart b k u n frames \<Rightarrow> map_prod (answer (\<lambda>_. Done)) id (s3_upload_part E cfg cred b k u n (Some frames) \<sigma>)
      | OpComplete b k u \<Rightarrow> map_prod (answer (\<lambda>_. Done)) id (s3_complete_multipart_upload E cred b k u \<sigma>)
      | OpAbort b k u \<Rightarrow> map_prod (answer (\<lambda>_. Done)) id (s3_abort_multipart_upload E cred b k u \<sigma>)
      | OpSweep force \<Rightarrow>
          map_prod (\<lambda>r. case r of Ok u \<Rightarrow> Done | Err \<Rightarrow> Refused) id (sweep_orphaned_blocks E grace force \<sigma>))"

fun run_ops ::
    "'b Env \<Rightarrow> ChunkingConfig \<Rightarrow> int \<Rightarrow> (string option \<times> S3Op) list \<Rightarrow> 'b Site \<Rightarrow> Answer list \<times> 'b Site" where
  "run_ops E cfg grace [] \<sigma> = ([], \<sigma>)"
| "run_ops E cfg grace ((cred, op) # ops) \<sigma> =
     (case run_op E cfg grace cred op \<sigma> of
        (r, \<sigma>1) \<Rightarrow> (case run_ops E cfg grace ops \<sigma>1 of (rs, \<sigma>2) \<Rightarrow> (r # rs, \<sigma>2)))"

section \<open>From the site to the specification\<close>

definition block_data :: "('b \<Rightarrow> hash \<Rightarrow> fid \<Rightarrow> bytes option) \<Rightarrow> 'b Site \<Rightarrow> bytes \<Rightarrow> bytes" where
  "block_data stored \<sigma> raw = concat (map (held_data stored \<sigma>) (decode_blocks raw))"

definition abs_site :: "('b \<Rightarrow> hash \<Rightarrow> fid \<Rightarrow> bytes option) \<Rightarrow> 'b Site \<Rightarrow> Spec" where
  "abs_site stored \<sigma> =
     \<lparr>sp_objects = (\<lambda>bk. case map_of (objects (st \<sigma>)) bk of
         None \<Rightarrow> None
       | Some r \<Rightarrow> if obj_deleted r then None else Some (block_data stored \<sigma> (obj_blocks r))),
      sp_parts = (\<lambda>p. map_option (\<lambda>r. block_data stored \<sigma> (part_blocks r)) (map_of (parts (st \<sigma>)) p)),
      sp_uploads = map_of (multipart_uploads (st \<sigma>))\<rparr>"

text \<open>
  A well-formed site: the tables have unique keys, every local block has bytes with its hash, every
  block of a live manifest or part is local, and the clock is ahead of every row up to call \<open>N\<close>.
\<close>

definition clock_ahead :: "'b Env \<Rightarrow> nat \<Rightarrow> 'b Site \<Rightarrow> bool" where
  "clock_ahead E N \<sigma> \<longleftrightarrow>
     (\<forall>b k t n. row_time (st \<sigma>) b k = Some t \<longrightarrow> tick \<sigma> \<le> n \<longrightarrow> n \<le> N \<longrightarrow> t < store_now_micros (st \<sigma>) (sys_micros E n))"

definition site_wf ::
    "'b Env \<Rightarrow> ('b \<Rightarrow> hash \<Rightarrow> fid \<Rightarrow> bytes option) \<Rightarrow> (hash \<Rightarrow> bool) \<Rightarrow> bytes set \<Rightarrow> nat \<Rightarrow> ClusterClock \<Rightarrow> 'b Site \<Rightarrow> bool" where
  "site_wf E stored good S N clk \<sigma> \<longleftrightarrow>
     store_ok (st \<sigma>) \<and> addressed (crates E) stored good S \<sigma> \<and>
     (\<forall>h \<in> compute_live_block_set (st \<sigma>). get_local_block_fid (st \<sigma>) h \<noteq> None) \<and>
     clock (st \<sigma>) = clk \<and> clock_ahead E N \<sigma>"

text \<open>
  The surroundings: a byte store that keeps its laws, digests without collision on the
  byte strings \<open>S\<close> that the clients upload and their pieces, chunk sizes that are accepted, and a clock
  that advances between two calls up to call \<open>N\<close>.
\<close>

definition object_env ::
    "'b Env \<Rightarrow> ChunkingConfig \<Rightarrow> ('b \<Rightarrow> hash \<Rightarrow> fid \<Rightarrow> bytes option) \<Rightarrow> (hash \<Rightarrow> bool) \<Rightarrow> bytes set \<Rightarrow> nat \<Rightarrow> ClusterClock \<Rightarrow> bool" where
  "object_env E cfg stored good S N clk \<longleftrightarrow>
     block_site E stored good \<and> (\<forall>d. good (blake3 (crates E) d)) \<and> digest_ok (blake3 (crates E)) \<and>
     chunk_ok (fastcdc_first (crates E)) cfg \<and> inj_on (blake3 (crates E)) S \<and>
     (\<forall>x \<in> S. \<forall>d. sublist d x \<longrightarrow> d \<in> S) \<and>
     (\<forall>m n. m < n \<longrightarrow> n \<le> N \<longrightarrow> clock_now_micros clk (sys_micros E m) < clock_now_micros clk (sys_micros E n))"

definition uploads_in :: "bytes set \<Rightarrow> S3Op \<Rightarrow> bool" where
  "uploads_in S op \<longleftrightarrow> (case op of OpPut b k frames \<Rightarrow> payload frames \<in> S | OpPart b k u n frames \<Rightarrow> payload frames \<in> S | _ \<Rightarrow> True)"

section \<open>Live blocks\<close>

lemma live_iff:
  assumes "store_ok s"
  shows "h \<in> compute_live_block_set s \<longleftrightarrow>
    (\<exists>bk r. map_of (objects s) bk = Some r \<and> \<not> obj_deleted r \<and> h \<in> set (decode_blocks (obj_blocks r))) \<or>
    (\<exists>p r. map_of (parts s) p = Some r \<and> h \<in> set (decode_blocks (part_blocks r)))"
proof -
  have t: "table_ok (objects s)" "table_ok (parts s)" using assms by (simp_all add: store_ok_def)
  have "map_of (objects s) bk = Some r \<longleftrightarrow> (bk, r) \<in> set (objects s)" for bk r using t(1) by simp
  moreover have "map_of (parts s) p = Some r \<longleftrightarrow> (p, r) \<in> set (parts s)" for p r using t(2) by simp
  moreover have "h \<in> compute_live_block_set s \<longleftrightarrow>
      (\<exists>bk r. (bk, r) \<in> set (objects s) \<and> \<not> obj_deleted r \<and> h \<in> set (decode_blocks (obj_blocks r))) \<or>
      (\<exists>p r. (p, r) \<in> set (parts s) \<and> h \<in> set (decode_blocks (part_blocks r)))"
    by (fastforce simp: compute_live_block_set_def)
  ultimately show ?thesis by (simp only:)
qed

lemma wf_holds:
  assumes "site_wf E stored good S N clk \<sigma>" "h \<in> compute_live_block_set (st \<sigma>)"
  obtains d where "holds stored \<sigma> h d" "good h" "d \<in> S" "blake3 (crates E) d = h"
  using assms that unfolding site_wf_def addressed_def holds_def by blast

text \<open>The specification state depends only on the tables and the bytes of live blocks.\<close>

lemma block_data_eq:
  assumes "\<forall>h \<in> set (decode_blocks raw). \<exists>d. holds stored \<sigma> h d \<and> holds stored \<sigma>' h d"
  shows "block_data stored \<sigma>' raw = block_data stored \<sigma> raw"
proof -
  have "held_data stored \<sigma>' h = held_data stored \<sigma> h" if "h \<in> set (decode_blocks raw)" for h
    using assms that by (metis held_data_eq)
  then show ?thesis by (simp add: block_data_def cong: map_cong)
qed

lemma live_data_eq:
  assumes "site_wf E stored good S N clk \<sigma>" "\<And>h d. h \<in> compute_live_block_set (st \<sigma>) \<Longrightarrow> good h \<Longrightarrow> holds stored \<sigma> h d \<Longrightarrow> holds stored \<sigma>' h d"
  shows "map_of (objects (st \<sigma>)) bk = Some r \<Longrightarrow> \<not> obj_deleted r \<Longrightarrow>
      block_data stored \<sigma>' (obj_blocks r) = block_data stored \<sigma> (obj_blocks r)"
    and "map_of (parts (st \<sigma>)) p = Some q \<Longrightarrow>
      block_data stored \<sigma>' (part_blocks q) = block_data stored \<sigma> (part_blocks q)"
proof -
  have ok: "store_ok (st \<sigma>)" using assms(1) by (simp add: site_wf_def)
  have both: "\<exists>d. holds stored \<sigma> h d \<and> holds stored \<sigma>' h d" if "h \<in> compute_live_block_set (st \<sigma>)" for h
    using wf_holds [OF assms(1) that] assms(2) [OF that] by metis
  show "block_data stored \<sigma>' (obj_blocks r) = block_data stored \<sigma> (obj_blocks r)"
    if "map_of (objects (st \<sigma>)) bk = Some r" "\<not> obj_deleted r"
    using that both live_iff [OF ok] by (intro block_data_eq) blast
  show "block_data stored \<sigma>' (part_blocks q) = block_data stored \<sigma> (part_blocks q)"
    if "map_of (parts (st \<sigma>)) p = Some q"
    using that both live_iff [OF ok] by (intro block_data_eq) blast
qed

lemma abs_frame:
  assumes "site_wf E stored good S N clk \<sigma>" "\<And>h d. h \<in> compute_live_block_set (st \<sigma>) \<Longrightarrow> good h \<Longrightarrow> holds stored \<sigma> h d \<Longrightarrow> holds stored \<sigma>' h d"
    and "objects (st \<sigma>') = objects (st \<sigma>)" "parts (st \<sigma>') = parts (st \<sigma>)"
    and "multipart_uploads (st \<sigma>') = multipart_uploads (st \<sigma>)"
  shows "abs_site stored \<sigma>' = abs_site stored \<sigma>"
proof -
  note eq = live_data_eq [OF assms(1,2)]
  have "map_option (\<lambda>r. block_data stored \<sigma>' (part_blocks r)) (map_of (parts (st \<sigma>)) p) =
      map_option (\<lambda>r. block_data stored \<sigma> (part_blocks r)) (map_of (parts (st \<sigma>)) p)" for p
    by (cases "map_of (parts (st \<sigma>)) p") (simp_all add: eq(2))
  moreover have "(case map_of (objects (st \<sigma>)) bk of None \<Rightarrow> None
        | Some r \<Rightarrow> if obj_deleted r then None else Some (block_data stored \<sigma>' (obj_blocks r))) =
      (case map_of (objects (st \<sigma>)) bk of None \<Rightarrow> None
        | Some r \<Rightarrow> if obj_deleted r then None else Some (block_data stored \<sigma> (obj_blocks r)))" for bk
    by (cases "map_of (objects (st \<sigma>)) bk") (simp_all add: eq(1))
  ultimately show ?thesis using assms(3-5) by (simp add: abs_site_def)
qed

section \<open>Receiving a body\<close>

lemma store_ok_receive:
  "store_ok (st \<sigma>) \<Longrightarrow> store_ok (st (snd (store_block E d sz \<sigma>)))"
  by (simp add: store_block_def Let_def split: result.split)

lemma store_ok_store_blocks: "store_ok (st \<sigma>) \<Longrightarrow> store_ok (st (snd (store_blocks E ds u \<sigma>)))"
  by (induction E ds u \<sigma> rule: store_blocks.induct) (auto simp: Let_def store_ok_receive split: result.split)

lemma tick_store_block: "tick \<sigma> \<le> tick (snd (store_block E d sz \<sigma>))"
  by (simp add: store_block_def Let_def split: result.split)

lemma tick_store_blocks: "tick \<sigma> \<le> tick (snd (store_blocks E ds u \<sigma>))"
proof (induction E ds u \<sigma> rule: store_blocks.induct)
  case (2 E d ds u \<sigma>)
  show ?case
  proof (cases "fst (store_block E d (int (length d)) \<sigma>)")
    case (Ok h)
    with 2 tick_store_block [of \<sigma> E d "int (length d)"] show ?thesis by (simp add: Let_def) (meson le_trans)
  qed (simp add: Let_def tick_store_block)
qed simp

lemma take_frame_cases:
  obtains "snd (take_frame E cfg frame u \<sigma>) = \<sigma>" "\<forall>u'. fst (take_frame E cfg frame u \<sigma>) \<noteq> Reply u'"
  | ds rest where "chunk_process (fastcdc_first (crates E)) cfg (up_buffer u @ frame) = Some (Value (ds, rest))"
    "take_frame E cfg frame u \<sigma> = store_blocks E ds (u\<lparr>up_md5_input := up_md5_input u @ frame, up_buffer := rest\<rparr>) \<sigma>"
  by (cases "chunk_process (fastcdc_first (crates E)) cfg (up_buffer u @ frame)" rule: option.exhaust;
      cases "the (chunk_process (fastcdc_first (crates E)) cfg (up_buffer u @ frame))")
    (auto simp: take_frame_def Let_def)

lemma receive_body_frame:
  assumes "store_ok (st \<sigma>)"
  shows "store_ok (st (snd (receive_body E cfg frames u \<sigma>))) \<and> tick \<sigma> \<le> tick (snd (receive_body E cfg frames u \<sigma>))"
  using assms
proof (induction E cfg frames u \<sigma> rule: receive_body.induct)
  case (1 E cfg u \<sigma>)
  then show ?case
    by (cases "up_buffer u = []") (simp_all add: finish_body_def chunk_finalize_def store_ok_store_blocks tick_store_blocks del: store_blocks.simps)
next
  case (3 E cfg frame frames u \<sigma>)
  have "store_ok (st (snd (take_frame E cfg frame u \<sigma>))) \<and> tick \<sigma> \<le> tick (snd (take_frame E cfg frame u \<sigma>))"
    by (rule take_frame_cases [of E cfg frame u \<sigma>]) (simp_all add: 3 store_ok_store_blocks tick_store_blocks)
  with 3 show ?case
    by (cases "fst (take_frame E cfg frame u \<sigma>)") (auto simp: Let_def prod_eq_iff dest: le_trans)
qed simp

lemma store_blocks_addressed:
  assumes "block_site E stored good" "\<forall>d. good (blake3 (crates E) d)"
    and "addressed (crates E) stored good S \<sigma>" "set ds \<subseteq> S"
  shows "addressed (crates E) stored good S (snd (store_blocks E ds u \<sigma>))"
  using assms(3,4)
proof (induction ds arbitrary: u \<sigma>)
  case (Cons d ds)
  have "addressed (crates E) stored good S (snd (store_block E d (int (length d)) \<sigma>))"
    using block_site.store_block_addressed [OF assms(1) prod.collapse [symmetric] Cons.prems(1)] Cons.prems(2) assms(2)
    by simp
  with Cons show ?case by (cases "fst (store_block E d (int (length d)) \<sigma>)") (simp_all add: Let_def)
qed simp

lemma pieces_in:
  assumes "\<forall>x \<in> S. \<forall>d. sublist d x \<longrightarrow> d \<in> S" "concat ds @ rest \<in> (S :: bytes set)"
  shows "set ds \<subseteq> S"
proof (rule chunks_in [OF refl])
  show "{d. sublist d (concat ds)} \<subseteq> S" using assms by (auto intro: sublist_order.order_trans)
qed

lemma receive_body_addressed:
  assumes "block_site E stored good" "\<forall>d. good (blake3 (crates E) d)" "chunk_ok (fastcdc_first (crates E)) cfg"
    and closed: "\<forall>x \<in> S. \<forall>d. sublist d x \<longrightarrow> d \<in> S"
    and "up_buffer u @ payload frames \<in> S" "addressed (crates E) stored good S \<sigma>"
  shows "addressed (crates E) stored good S (snd (receive_body E cfg frames u \<sigma>))"
  using assms(5,6)
proof (induction frames arbitrary: u \<sigma>)
  case Nil
  then show ?case
    using store_blocks_addressed [OF assms(1,2) Nil.prems(2), of "[up_buffer u]"]
    by (simp add: finish_body_def chunk_finalize_def payload_def del: store_blocks.simps)
next
  case (Cons f frames)
  show ?case
  proof (cases f)
    case (Ok frame)
    show ?thesis
    proof (cases rule: take_frame_cases [of E cfg frame u \<sigma>])
      case 1
      then show ?thesis using Cons.prems(2) by (cases "fst (take_frame E cfg frame u \<sigma>)") (simp_all add: Ok Let_def)
    next
      case (2 ds rest)
      have whole: "concat ds @ rest = up_buffer u @ frame"
        using ck.process_returns [OF assms(3), of "up_buffer u @ frame"] 2(1) by auto
      have body: "concat ds @ rest @ payload frames \<in> S"
        using Cons.prems(1) whole by (simp add: payload_def Ok flip: append_assoc)
      let ?q = "take_frame E cfg frame u \<sigma>"
      have a: "addressed (crates E) stored good S (snd ?q)"
        unfolding 2(2) using pieces_in [OF closed body] by (rule store_blocks_addressed [OF assms(1,2) Cons.prems(2)])
      have "addressed (crates E) stored good S (snd (receive_body E cfg frames u' (snd ?q)))" if "fst ?q = Reply u'" for u'
      proof (rule Cons.IH [OF _ a])
        have "store_blocks E ds (u\<lparr>up_md5_input := up_md5_input u @ frame, up_buffer := rest\<rparr>) \<sigma> = (Reply u', snd ?q)"
          unfolding 2(2) [symmetric] that [symmetric] by simp
        from store_blocks_buffer [OF this] have "up_buffer u' = rest" by simp
        moreover have "sublist (rest @ payload frames) (concat ds @ rest @ payload frames)" by (simp add: sublist_append_leftI)
        ultimately show "up_buffer u' @ payload frames \<in> S" using body closed by blast
      qed
      with a show ?thesis by (cases "fst ?q") (simp_all add: Ok Let_def)
    qed
  qed (simp add: Cons.prems)
qed

lemma receive_body_reply:
  "receive_body E cfg frames u \<sigma> = (Reply u', \<sigma>') \<Longrightarrow> \<exists>fs. frames = map Ok fs"
proof (induction E cfg frames u \<sigma> rule: receive_body.induct)
  case (3 E cfg frame frames u \<sigma>)
  then obtain u1 where "fst (take_frame E cfg frame u \<sigma>) = Reply u1"
    by (cases "fst (take_frame E cfg frame u \<sigma>)") (simp_all add: Let_def)
  with 3 obtain fs where "frames = map Ok fs" by (auto simp: Let_def prod_eq_iff)
  then have "Ok frame # frames = map Ok (frame # fs)" by simp
  then show ?case by (rule exI)
qed simp_all

lemma payload_Ok [simp]: "payload (map Ok fs) = concat fs"
  by (simp add: payload_def comp_def)

lemma receive_body_wf:
  assumes env: "object_env E cfg stored good S N clk" and wf: "site_wf E stored good S N clk \<sigma>"
    and "payload frames \<in> S" "receive_body E cfg frames upload_new \<sigma> = (r, \<sigma>1)"
  shows "site_wf E stored good S N clk \<sigma>1" "abs_site stored \<sigma>1 = abs_site stored \<sigma>" "tick \<sigma> \<le> tick \<sigma>1"
    and "r = Reply u \<Longrightarrow> \<exists>ds. concat ds = payload frames \<and> up_hashes u = map (blake3 (crates E)) ds \<and>
      (\<forall>d \<in> set ds. holds stored \<sigma>1 (blake3 (crates E) d) d)"
proof -
  have E: "block_site E stored good" "\<forall>d. good (blake3 (crates E) d)" "chunk_ok (fastcdc_first (crates E)) cfg"
    "\<forall>x \<in> S. \<forall>d. sublist d x \<longrightarrow> d \<in> S" "inj_on (blake3 (crates E)) S" using env by (simp_all add: object_env_def)
  have ok: "store_ok (st \<sigma>)" "addressed (crates E) stored good S \<sigma>" "clock_ahead E N \<sigma>" "clock (st \<sigma>) = clk"
    using wf by (simp_all add: site_wf_def)
  have \<sigma>1: "\<sigma>1 = snd (receive_body E cfg frames upload_new \<sigma>)" by (simp add: assms(4))
  note same = receive_body_store [of E cfg frames upload_new \<sigma>, folded \<sigma>1]
  have frame: "store_ok (st \<sigma>1)" "tick \<sigma> \<le> tick \<sigma>1" unfolding \<sigma>1 using receive_body_frame [OF ok(1)] by blast+
  show "tick \<sigma> \<le> tick \<sigma>1" by (rule frame)
  have keeps: "holds stored \<sigma>1 h d" if "good h" "holds stored \<sigma> h d" for h d
    unfolding \<sigma>1 by (rule block_site.receive_body_keeps [OF E(1,2) that])
  have live: "compute_live_block_set (st \<sigma>1) = compute_live_block_set (st \<sigma>)"
    by (simp add: compute_live_block_set_def same)
  have "get_local_block_fid (st \<sigma>1) h \<noteq> None" if "h \<in> compute_live_block_set (st \<sigma>)" for h
    using wf_holds [OF wf that] keeps unfolding holds_def by (metis option.distinct(1))
  moreover have "addressed (crates E) stored good S \<sigma>1"
    unfolding \<sigma>1 using assms(3) by (intro receive_body_addressed [OF E(1-4) _ ok(2)]) (simp add: upload_new_def)
  moreover have "clock_ahead E N \<sigma>1"
    using ok(3) frame(2) by (auto simp: clock_ahead_def row_time_def store_now_micros_def same)
  ultimately show "site_wf E stored good S N clk \<sigma>1" using frame(1) ok(4) by (simp add: site_wf_def live same)
  show "abs_site stored \<sigma>1 = abs_site stored \<sigma>" by (rule abs_frame [OF wf keeps same(1,4,5)])
  show "\<exists>ds. concat ds = payload frames \<and> up_hashes u = map (blake3 (crates E)) ds \<and>
      (\<forall>d \<in> set ds. holds stored \<sigma>1 (blake3 (crates E) d) d)" if r: "r = Reply u"
  proof -
    obtain fs where fs: "frames = map Ok fs" using receive_body_reply [OF assms(4) [unfolded r]] by blast
    obtain ds where ds: "stream_chunks (chunk_process (fastcdc_first (crates E)) cfg) chunk_finalize fs [] = Some (Value ds)"
      "concat ds = concat fs" using ck.stream_chunks_sound [OF E(3), of "[]" fs] by auto
    have "set ds \<subseteq> S" using pieces_in [OF E(4), of ds "[]"] assms(3) ds(2) fs by simp
    then show ?thesis
      using block_site.receive_body_exact [OF E(1) assms(4) [unfolded fs r] ok(2) _ _ E(5,2), of ds] ds fs
      by (auto simp: received_def upload_new_def)
  qed
qed

section \<open>Writing a row\<close>

lemma block_data_cong:
  assumes "blobs \<sigma>' = blobs \<sigma>" "get_local_block_fid (st \<sigma>') = get_local_block_fid (st \<sigma>)"
  shows "block_data stored \<sigma>' = block_data stored \<sigma>"
proof -
  have "held_data stored \<sigma>' = held_data stored \<sigma>" using assms by (simp add: held_data_def fun_eq_iff)
  then show ?thesis by (intro ext) (simp only: block_data_def)
qed

lemma wf_ticked: "site_wf E stored good S N clk \<sigma> \<Longrightarrow> site_wf E stored good S N clk (ticked \<sigma>)"
  by (auto simp: site_wf_def addressed_def clock_ahead_def)

lemma abs_ticked [simp]: "abs_site stored (ticked \<sigma>) = abs_site stored \<sigma>"
  unfolding abs_site_def block_data_cong [of "ticked \<sigma>" \<sigma>, OF ticked_simps(2) arg_cong [OF ticked_simps(1)]] ticked_simps ..

lemma row_replaced:
  assumes "clock_ahead E N \<sigma>" "tick \<sigma> \<le> N" "obj_updated_at row = store_now_micros (st \<sigma>) (sys_now E \<sigma>)"
  shows "map_of (objects (put_object_row b k row (st \<sigma>))) = (map_of (objects (st \<sigma>)))((b, k) \<mapsto> row)"
proof -
  have "obj_updated_at r < obj_updated_at row" if "map_of (objects (st \<sigma>)) (b, k) = Some r" for r
    using assms that unfolding clock_ahead_def row_time_def by (metis le_refl option.map(2))
  then show ?thesis
    by (cases "map_of (objects (st \<sigma>)) (b, k)")
      (auto simp: put_object_row_def map_of_upsert_newer fun_eq_iff lww_join_def)
qed

lemma write_row:
  fixes \<sigma> :: "'b Site" and C :: Crates and ts :: int and f :: Fact and b k :: string
  assumes env: "object_env E cfg stored good S N clk" and wf: "site_wf E stored good S N clk \<sigma>"
    and n: "tick \<sigma> \<le> N" "obj_updated_at row = store_now_micros (st \<sigma>) (sys_now E \<sigma>)"
    and local: "\<not> obj_deleted row \<Longrightarrow> \<forall>h \<in> set (decode_blocks (obj_blocks row)). get_local_block_fid (st \<sigma>) h \<noteq> None"
  defines "\<sigma>' \<equiv> ticked (\<sigma>\<lparr>st := append_fact_tx C ts f (put_object_row b k row (st \<sigma>))\<rparr>)"
  shows "site_wf E stored good S N clk \<sigma>'"
    and "abs_site stored \<sigma>' = (abs_site stored \<sigma>)\<lparr>sp_objects := (sp_objects (abs_site stored \<sigma>))((b, k) :=
      if obj_deleted row then None else Some (block_data stored \<sigma> (obj_blocks row)))\<rparr>"
proof -
  let ?s = "append_fact_tx C ts f (put_object_row b k row (st \<sigma>))"
  have ok: "store_ok (st \<sigma>)" "addressed (crates E) stored good S \<sigma>" "clock_ahead E N \<sigma>" "clock (st \<sigma>) = clk"
    using wf by (simp_all add: site_wf_def)
  note objs = row_replaced [OF ok(3) n, of b k]
  have rest: "parts ?s = parts (st \<sigma>)" "multipart_uploads ?s = multipart_uploads (st \<sigma>)" "clock ?s = clock (st \<sigma>)"
    "get_local_block_fid ?s = get_local_block_fid (st \<sigma>)"
    by (simp_all add: append_fact_tx_def put_object_row_def get_local_block_fid_def fun_eq_iff)
  have s: "store_ok ?s" using ok(1) by simp
  have fids: "blobs \<sigma>' = blobs \<sigma>" "get_local_block_fid (st \<sigma>') = get_local_block_fid (st \<sigma>)"
    by (simp_all add: \<sigma>'_def rest)
  have "h \<in> compute_live_block_set (st \<sigma>) \<or> \<not> obj_deleted row \<and> h \<in> set (decode_blocks (obj_blocks row))"
    if "h \<in> compute_live_block_set ?s" for h
    using that unfolding live_iff [OF s] live_iff [OF ok(1)] objects_append_fact objs rest fun_upd_apply
    by (metis option.inject)
  then have "get_local_block_fid ?s h \<noteq> None" if "h \<in> compute_live_block_set ?s" for h
    using that wf local unfolding site_wf_def rest by blast
  moreover have "clock_ahead E N \<sigma>'"
    unfolding clock_ahead_def
  proof (intro allI impI)
    fix b' k' t m
    assume t: "row_time (st \<sigma>') b' k' = Some t" and m: "tick \<sigma>' \<le> m" "m \<le> N"
    have "store_now_micros (st \<sigma>) (sys_now E \<sigma>) < store_now_micros (st \<sigma>) (sys_micros E m)"
      using env m ok(4) by (simp add: object_env_def \<sigma>'_def store_now_micros_def)
    moreover have "t = obj_updated_at row \<or> row_time (st \<sigma>) b' k' = Some t"
      using t by (auto simp: \<sigma>'_def row_time_def objs split: if_splits)
    ultimately show "t < store_now_micros (st \<sigma>') (sys_micros E m)"
      using n ok(3) m by (auto simp: \<sigma>'_def clock_ahead_def store_now_micros_def rest)
  qed
  ultimately show "site_wf E stored good S N clk \<sigma>'"
    using s ok(2,4) by (simp add: site_wf_def \<sigma>'_def rest addressed_def)
  show "abs_site stored \<sigma>' = (abs_site stored \<sigma>)\<lparr>sp_objects := (sp_objects (abs_site stored \<sigma>))((b, k) :=
      if obj_deleted row then None else Some (block_data stored \<sigma> (obj_blocks row)))\<rparr>"
    unfolding abs_site_def block_data_cong [of \<sigma>' \<sigma> stored, OF fids]
    by (simp add: \<sigma>'_def objs rest fun_eq_iff)
qed

lemma wf_insert:
  assumes "object_env E cfg stored good S N clk" "site_wf E stored good S N clk \<sigma>" "tick \<sigma> \<le> N"
    and "hashes_ok bs" "\<forall>h \<in> set bs. get_local_block_fid (st \<sigma>) h \<noteq> None"
  shows "site_wf E stored good S N clk (ticked (\<sigma>\<lparr>st := insert_object C (sys_now E \<sigma>) b sh k bs sz et (st \<sigma>)\<rparr>))"
    and "abs_site stored (ticked (\<sigma>\<lparr>st := insert_object C (sys_now E \<sigma>) b sh k bs sz et (st \<sigma>)\<rparr>)) =
      (abs_site stored \<sigma>)\<lparr>sp_objects := (sp_objects (abs_site stored \<sigma>))((b, k) \<mapsto> concat (map (held_data stored \<sigma>) bs))\<rparr>"
  using write_row [OF assms(1-3), of "\<lparr>obj_blocks = encode_blocks bs, obj_size = sz, obj_etag = et, obj_shard_id = sh,
      obj_updated_at = store_now_micros (st \<sigma>) (sys_now E \<sigma>), obj_deleted = False\<rparr>"] assms(4,5)
  by (simp_all add: insert_object_def Let_def block_data_def)

lemma wf_delete:
  assumes "object_env E cfg stored good S N clk" "site_wf E stored good S N clk \<sigma>" "tick \<sigma> \<le> N"
  shows "site_wf E stored good S N clk (ticked (\<sigma>\<lparr>st := delete_object C (sys_now E \<sigma>) b k (st \<sigma>)\<rparr>))"
    and "abs_site stored (ticked (\<sigma>\<lparr>st := delete_object C (sys_now E \<sigma>) b k (st \<sigma>)\<rparr>)) =
      (abs_site stored \<sigma>)\<lparr>sp_objects := (sp_objects (abs_site stored \<sigma>))((b, k) := None)\<rparr>"
  using write_row [OF assms, of "tombstone C k (store_now_micros (st \<sigma>) (sys_now E \<sigma>))"]
  by (simp_all add: delete_object_def Let_def tombstone_def)

end
