(* ===== verification/Object_Refinement.thy ===== *)
theory Object_Refinement
  imports Object_Spec
begin

text \<open>
  The S3 handlers and the collector refine the specification of \<open>Object_Spec\<close>: one lemma per request, then whole
  histories, and a concrete history.
\<close>

section \<open>Each operation\<close>

text \<open>
  One request is one step of the specification; the site stays well-formed and time does not run backwards.
\<close>

definition refines ::
    "'b Env \<Rightarrow> ('b \<Rightarrow> hash \<Rightarrow> fid \<Rightarrow> bytes option) \<Rightarrow> (hash \<Rightarrow> bool) \<Rightarrow> bytes set \<Rightarrow> nat \<Rightarrow> ClusterClock \<Rightarrow>
     S3Op \<Rightarrow> 'b Site \<Rightarrow> Answer \<times> 'b Site \<Rightarrow> bool" where
  "refines E stored good S N clk op \<sigma> p \<longleftrightarrow>
     spec_step (crates E) op (abs_site stored \<sigma>) (fst p) (abs_site stored (snd p)) \<and>
     site_wf E stored good S N clk (snd p) \<and> tick \<sigma> \<le> tick (snd p)"

lemma refines_refused:
  "site_wf E stored good S N clk \<sigma>' \<Longrightarrow> abs_site stored \<sigma>' = abs_site stored \<sigma> \<Longrightarrow> tick \<sigma> \<le> tick \<sigma>' \<Longrightarrow>
    refines E stored good S N clk op \<sigma> (Refused, \<sigma>')"
  by (simp add: refines_def spec_step.refused)

lemma answer_simps [simp]:
  "answer f (Reply x) = f x" "e \<noteq> NoSuchKey \<Longrightarrow> answer f (Failed e) = Refused"
  "answer f (Failed NoSuchKey) = NotFound" "answer f Panicked = Refused" "answer f Hangs = Refused"
  by (simp_all add: answer_def)

lemma authorize_code: "authorize C s cred a b k = Some e \<Longrightarrow> e \<noteq> NoSuchKey"
  by (auto simp: authorize_def split: option.splits result.splits if_splits)

lemma check_writable_code: "check_writable g = Some e \<Longrightarrow> e \<noteq> NoSuchKey"
  by (auto simp: check_writable_def split: option.splits)

lemma store_blocks_code: "fst (store_blocks E ds u \<sigma>) = Failed e \<Longrightarrow> e \<noteq> NoSuchKey"
  by (induction E ds u \<sigma> rule: store_blocks.induct) (auto simp: Let_def split: result.splits)

lemma receive_body_code: "fst (receive_body E cfg frames u \<sigma>) = Failed e \<Longrightarrow> e \<noteq> NoSuchKey"
proof (induction E cfg frames u \<sigma> rule: receive_body.induct)
  case (1 E cfg u \<sigma>)
  then show ?case
    by (auto simp: finish_body_def simp del: store_blocks.simps split: option.splits prod.splits dest: store_blocks_code)
next
  case (3 E cfg frame frames u \<sigma>)
  have "fst (take_frame E cfg frame u \<sigma>) = Failed e \<Longrightarrow> e \<noteq> NoSuchKey"
    by (auto simp: take_frame_def Let_def split: option.splits run.splits prod.splits dest: store_blocks_code)
  with 3 show ?case by (cases "fst (take_frame E cfg frame u \<sigma>)") (auto simp: Let_def prod_eq_iff)
qed simp

lemma hashes_ok_blake3: "digest_ok (blake3 C) \<Longrightarrow> hashes_ok (map (blake3 C) ds)"
  by (simp add: hashes_ok_def digest_ok_def)

lemma map_held_data:
  "\<forall>d \<in> set ds. holds stored \<sigma> (H d) d \<Longrightarrow> map (held_data stored \<sigma>) (map H ds) = ds"
  by (auto intro: map_idI)

lemma refines_put:
  assumes env: "object_env E cfg stored good S N clk" and wf: "site_wf E stored good S N clk \<sigma>"
    and "payload frames \<in> S" "tick (snd (s3_put_object E cfg cred b k (Some frames) \<sigma>)) \<le> N"
  shows "refines E stored good S N clk (OpPut b k frames) \<sigma>
    (map_prod (answer (\<lambda>_. Done)) id (s3_put_object E cfg cred b k (Some frames) \<sigma>))"
proof (cases "authorize (crates E) (st \<sigma>) cred ''s3:PutObject'' (Some b) (Some k) = None \<and> check_writable (disk_guard \<sigma>) = None")
  case False
  then show ?thesis
    using authorize_code [of "crates E" "st \<sigma>" cred] check_writable_code [of "disk_guard \<sigma>"]
    by (auto simp: s3_put_object_def intro!: refines_refused [OF wf] split: option.split)
next
  case True
  obtain r \<sigma>1 where r: "receive_body E cfg frames upload_new \<sigma> = (r, \<sigma>1)" by (cases "receive_body E cfg frames upload_new \<sigma>")
  note rb = receive_body_wf [OF env wf assms(3) r]
  show ?thesis
  proof (cases r)
    case (Reply u)
    from rb(4) [OF Reply] obtain ds where ds: "concat ds = payload frames" "up_hashes u = map (blake3 (crates E)) ds"
      "\<forall>d \<in> set ds. holds stored \<sigma>1 (blake3 (crates E) d) d" by blast
    have n: "tick \<sigma>1 \<le> N" using assms(4) True Reply r by (simp add: s3_put_object_def Let_def)
    have "hashes_ok (up_hashes u)" using env by (simp add: ds(2) hashes_ok_blake3 object_env_def)
    moreover have "\<forall>h \<in> set (up_hashes u). get_local_block_fid (st \<sigma>1) h \<noteq> None" using ds(2,3) by (auto simp: holds_def)
    ultimately show ?thesis
      using True Reply r rb(2,3) wf_insert [OF env rb(1) n, of "up_hashes u"] ds(1) map_held_data [OF ds(3)]
      by (simp add: s3_put_object_def Let_def refines_def ds(2) spec_step.put)
  next
    case (Failed e)
    moreover have "e \<noteq> NoSuchKey" using receive_body_code [of E cfg frames upload_new \<sigma> e] r Failed by simp
    ultimately show ?thesis using True r rb by (simp add: s3_put_object_def Let_def refines_refused)
  qed (use True r rb in \<open>simp_all add: s3_put_object_def Let_def refines_refused\<close>)
qed

lemma refines_delete:
  assumes env: "object_env E cfg stored good S N clk" and wf: "site_wf E stored good S N clk \<sigma>"
    and "tick (snd (s3_delete_object E cred b k \<sigma>)) \<le> N"
  shows "refines E stored good S N clk (OpDelete b k) \<sigma> (map_prod (answer (\<lambda>_. Done)) id (s3_delete_object E cred b k \<sigma>))"
proof (cases "authorize (crates E) (st \<sigma>) cred ''s3:DeleteObject'' (Some b) (Some k)")
  case None
  then show ?thesis
    using wf_delete [OF env wf] assms(3) by (simp add: s3_delete_object_def refines_def spec_step.delete)
next
  case (Some e)
  then show ?thesis by (simp add: s3_delete_object_def authorize_code refines_refused [OF wf])
qed

definition delete_keys :: "'b Env \<Rightarrow> string \<Rightarrow> string list \<Rightarrow> 'b Site \<Rightarrow> 'b Site" where
  "delete_keys E b ks \<sigma> =
     fold (\<lambda>key \<sigma>. ticked (\<sigma>\<lparr>st := delete_object (crates E) (sys_now E \<sigma>) b key (st \<sigma>)\<rparr>)) ks \<sigma>"

lemma tick_delete_keys [simp]: "tick (delete_keys E b ks \<sigma>) = tick \<sigma> + length ks"
  unfolding delete_keys_def by (induction ks arbitrary: \<sigma>) simp_all

lemma wf_delete_keys:
  assumes env: "object_env E cfg stored good S N clk" and wf: "site_wf E stored good S N clk \<sigma>"
    and "tick \<sigma> + length ks \<le> N"
  shows "site_wf E stored good S N clk (delete_keys E b ks \<sigma>) \<and>
    abs_site stored (delete_keys E b ks \<sigma>) =
      (abs_site stored \<sigma>)\<lparr>sp_objects := sp_objects (abs_site stored \<sigma>) |` (- ({b} \<times> set ks))\<rparr>"
  using wf assms(3)
proof (induction ks arbitrary: \<sigma>)
  case Nil
  then show ?case by (simp add: delete_keys_def)
next
  case (Cons k ks)
  let ?\<sigma> = "ticked (\<sigma>\<lparr>st := delete_object (crates E) (sys_now E \<sigma>) b k (st \<sigma>)\<rparr>)"
  have "tick \<sigma> \<le> N" using Cons.prems(2) by simp
  note d = wf_delete [OF env Cons.prems(1) this, of "crates E" b k]
  have "delete_keys E b (k # ks) \<sigma> = delete_keys E b ks ?\<sigma>" by (simp add: delete_keys_def)
  moreover have "(A((b, k) := None)) |` (- ({b} \<times> set ks)) = A |` (- ({b} \<times> set (k # ks)))"
    for A :: "string \<times> string \<rightharpoonup> bytes"
    by (auto simp: restrict_map_def fun_eq_iff)
  moreover have "tick ?\<sigma> + length ks \<le> N" using Cons.prems(2) by simp
  note Cons.IH [OF d(1) this, unfolded d(2)]
  ultimately show ?case by (simp del: fun_upd_apply)
qed

lemma refines_delete_many:
  assumes env: "object_env E cfg stored good S N clk" and wf: "site_wf E stored good S N clk \<sigma>"
    and "tick (snd (s3_delete_objects E cred b ks \<sigma>)) \<le> N"
  shows "refines E stored good S N clk (OpDeleteMany b ks) \<sigma>
    (map_prod (answer (\<lambda>_. Done)) id (s3_delete_objects E cred b ks \<sigma>))"
proof (cases "authorize (crates E) (st \<sigma>) cred ''s3:DeleteObject'' (Some b) None")
  case None
  then have r: "s3_delete_objects E cred b ks \<sigma> = (Reply ks, delete_keys E b ks \<sigma>)"
    by (simp add: s3_delete_objects_def delete_keys_def)
  with wf_delete_keys [OF env wf] assms(3) show ?thesis by (simp add: refines_def spec_step.delete_many)
next
  case (Some e)
  then show ?thesis by (simp add: s3_delete_objects_def authorize_code refines_refused [OF wf])
qed

lemma get_object_abs:
  "sp_objects (abs_site stored \<sigma>) (b, k) =
    map_option (\<lambda>(bs, sz, et). concat (map (held_data stored \<sigma>) bs)) (get_object (st \<sigma>) b k)"
  by (simp add: abs_site_def get_object_def block_data_def split: option.split)

lemma get_object_live:
  assumes "store_ok (st \<sigma>)" "get_object (st \<sigma>) b k = Some (bs, sz, et)" "h \<in> set bs"
  shows "h \<in> compute_live_block_set (st \<sigma>)"
  using assms unfolding live_iff [OF assms(1)] by (fastforce simp: get_object_def split: option.splits if_splits)

lemma get_object_hashes: "get_object s b k = Some (bs, sz, et) \<Longrightarrow> hashes_ok bs"
  by (auto simp: get_object_def hashes_ok_def decode_blocks_length split: option.splits if_splits)

lemma refines_copy:
  assumes env: "object_env E cfg stored good S N clk" and wf: "site_wf E stored good S N clk \<sigma>"
    and "tick (snd (s3_copy_object E cred (CopyBucket sb sk) b k \<sigma>)) \<le> N"
  shows "refines E stored good S N clk (OpCopy sb sk b k) \<sigma>
    (map_prod (answer (\<lambda>_. Done)) id (s3_copy_object E cred (CopyBucket sb sk) b k \<sigma>))"
proof (cases "authorize (crates E) (st \<sigma>) cred ''s3:PutObject'' (Some b) (Some k)")
  case None
  show ?thesis
  proof (cases "get_object (st \<sigma>) sb sk")
    case None
    with \<open>authorize _ _ _ _ _ _ = None\<close> wf show ?thesis
      by (simp add: s3_copy_object_def refines_def spec_step.copy_missing get_object_abs)
  next
    case (Some m)
    obtain bs sz et where m: "m = (bs, sz, et)" by (cases m) auto
    have ok: "store_ok (st \<sigma>)" using wf by (simp add: site_wf_def)
    have "\<forall>h \<in> set bs. get_local_block_fid (st \<sigma>) h \<noteq> None"
      using wf get_object_live [OF ok Some [unfolded m]] by (simp add: site_wf_def)
    note ins = wf_insert [OF env wf _ get_object_hashes [OF Some [unfolded m]] this]
    have "sp_objects (abs_site stored \<sigma>) (sb, sk) = Some (concat (map (held_data stored \<sigma>) bs))"
      by (simp add: get_object_abs Some m)
    with ins assms(3) \<open>authorize _ _ _ _ _ _ = None\<close> show ?thesis
      by (simp add: s3_copy_object_def refines_def Some m spec_step.copy)
  qed
next
  case (Some e)
  then show ?thesis by (simp add: s3_copy_object_def authorize_code refines_refused [OF wf])
qed

text \<open>Reading held blocks changes only the counter, and what is read without an error is what is held.\<close>

lemma wf_ticks: "site_wf E stored good S N clk \<sigma> \<Longrightarrow> site_wf E stored good S N clk ((ticked ^^ n) \<sigma>)"
  by (induction n) (simp_all add: wf_ticked)

lemma abs_ticks [simp]: "abs_site stored ((ticked ^^ n) \<sigma>) = abs_site stored \<sigma>"
  by (induction n) simp_all

lemma tick_ticks [simp]: "tick ((ticked ^^ n) \<sigma>) = tick \<sigma> + n"
  by (induction n) simp_all

context block_site
begin

lemma get_block_sound:
  assumes "good h" "holds stored \<sigma> h d" "get_block E h \<sigma> = (r, \<sigma>')"
  shows "\<sigma>' = ticked \<sigma>" "r = Ok x \<Longrightarrow> x = d"
proof -
  show "\<sigma>' = ticked \<sigma>" using assms(2,3) by (auto simp: holds_def get_block_def)
  show "x = d" if "r = Ok x" using get_block_local [OF assms(1,2) assms(3) [unfolded that]] by simp
qed

lemma stream_blocks_sound:
  assumes "\<forall>h \<in> set hs. good h \<and> holds stored \<sigma> h (data h)"
  shows "(\<exists>n. snd (stream_blocks E (map (\<lambda>h. (h, 0, None)) hs) \<sigma>) = (ticked ^^ n) \<sigma>) \<and>
    (Err \<in> set (fst (stream_blocks E (map (\<lambda>h. (h, 0, None)) hs) \<sigma>)) \<or>
     fst (stream_blocks E (map (\<lambda>h. (h, 0, None)) hs) \<sigma>) = map (\<lambda>h. Ok (data h)) hs)"
  using assms
proof (induction hs arbitrary: \<sigma>)
  case Nil
  show ?case by (auto intro: exI [of _ 0])
next
  case (Cons h hs)
  obtain r \<sigma>1 where g: "get_block E h \<sigma> = (r, \<sigma>1)" by (cases "get_block E h \<sigma>")
  have s: "\<sigma>1 = ticked \<sigma>" "\<And>x. r = Ok x \<Longrightarrow> x = data h" using get_block_sound [OF _ _ g] Cons.prems by auto
  have ih: "(\<exists>n. snd (stream_blocks E (map (\<lambda>h. (h, 0, None)) hs) (ticked \<sigma>)) = (ticked ^^ n) (ticked \<sigma>)) \<and>
    (Err \<in> set (fst (stream_blocks E (map (\<lambda>h. (h, 0, None)) hs) (ticked \<sigma>))) \<or>
     fst (stream_blocks E (map (\<lambda>h. (h, 0, None)) hs) (ticked \<sigma>)) = map (\<lambda>h. Ok (data h)) hs)"
    using Cons.prems by (intro Cons.IH) simp
  then obtain n where n: "snd (stream_blocks E (map (\<lambda>h. (h, 0, None)) hs) (ticked \<sigma>)) = (ticked ^^ Suc n) \<sigma>"
    by (metis funpow_Suc_right comp_apply)
  show ?case
  proof (cases r)
    case Err
    then show ?thesis using g s(1) by (auto simp: Let_def intro: exI [of _ 1])
  next
    case (Ok x)
    then show ?thesis using g s ih n by (auto simp: Let_def simp del: funpow.simps)
  qed
qed

end

lemma get_held:
  assumes site: "block_site E stored good" and auth: "authorize (crates E) (st \<sigma>) cred ''s3:GetObject'' (Some b) (Some k) = None"
    and obj: "get_object (st \<sigma>) b k = Some (bs, sz, et)"
    and held: "\<And>h. h \<in> set bs \<Longrightarrow> good h \<and> holds stored \<sigma> h (data h)"
  shows "\<exists>n r. s3_get_object E cred b k None \<sigma> = (r, (ticked ^^ n) \<sigma>) \<and>
    (answer streamed r = Refused \<or> answer streamed r = Body (concat (map data bs)))"
proof (cases bs)
  case Nil
  then show ?thesis
    using auth obj by (auto simp: s3_get_object_def read_plan_def Let_def streamed_def payload_def intro!: exI [of _ 0])
next
  case (Cons h hs)
  obtain r \<sigma>1 where g: "get_block E h \<sigma> = (r, \<sigma>1)" by (cases "get_block E h \<sigma>")
  let ?q = "stream_blocks E (map (\<lambda>h. (h, 0, None)) hs) (ticked \<sigma>)"
  have g1: "\<sigma>1 = ticked \<sigma>" "\<And>x. r = Ok x \<Longrightarrow> x = data h"
    using block_site.get_block_sound [OF site _ _ g] held [of h] Cons by auto
  obtain n where q: "snd ?q = (ticked ^^ Suc n) \<sigma>" "Err \<in> set (fst ?q) \<or> fst ?q = map (\<lambda>h. Ok (data h)) hs"
    using block_site.stream_blocks_sound [OF site, of hs "ticked \<sigma>" data] held Cons
    by (auto simp: funpow_Suc_right simp del: funpow.simps)
  have all: "payload (Ok x # map (\<lambda>h. Ok (data h)) hs) = x @ concat (map data hs)" for x
    by (simp add: payload_def comp_def)
  show ?thesis
  proof (cases r)
    case Err
    then show ?thesis
      using auth obj g g1(1) by (auto simp: s3_get_object_def read_plan_def Let_def Cons intro!: exI [of _ 1])
  next
    case (Ok x)
    have "s3_get_object E cred b k None \<sigma> = (Reply \<lparr>out_body = Ok x # fst ?q, out_length = sz, out_range = None,
        out_etag = quoted et\<rparr>, (ticked ^^ Suc n) \<sigma>)"
      using auth obj g g1(1) Ok q(1) by (simp add: s3_get_object_def read_plan_def Let_def Cons)
    moreover have "streamed \<lparr>out_body = Ok x # fst ?q, out_length = sz, out_range = None, out_etag = quoted et\<rparr>
        \<in> {Refused, Body (concat (map data bs))}"
      using q(2) all g1(2) [OF Ok] Cons by (auto simp: streamed_def)
    ultimately show ?thesis by (auto simp del: funpow.simps)
  qed
qed

lemma refines_get:
  assumes env: "object_env E cfg stored good S N clk" and wf: "site_wf E stored good S N clk \<sigma>"
  shows "refines E stored good S N clk (OpGet b k) \<sigma> (map_prod (answer streamed) id (s3_get_object E cred b k None \<sigma>))"
proof (cases "authorize (crates E) (st \<sigma>) cred ''s3:GetObject'' (Some b) (Some k)")
  case auth: None
  show ?thesis
  proof (cases "get_object (st \<sigma>) b k")
    case None
    with auth wf show ?thesis by (simp add: s3_get_object_def refines_def spec_step.get_missing get_object_abs)
  next
    case (Some m)
    obtain bs sz et where m: "m = (bs, sz, et)" by (cases m) auto
    have ok: "store_ok (st \<sigma>)" "block_site E stored good" using wf env by (simp_all add: site_wf_def object_env_def)
    have held: "good h \<and> holds stored \<sigma> h (held_data stored \<sigma> h)" if "h \<in> set bs" for h
      using wf_holds [OF wf get_object_live [OF ok(1) Some [unfolded m] that]] held_data_eq by metis
    have obj: "sp_objects (abs_site stored \<sigma>) (b, k) = Some (concat (map (held_data stored \<sigma>) bs))"
      by (simp add: get_object_abs Some m)
    obtain n r where r: "s3_get_object E cred b k None \<sigma> = (r, (ticked ^^ n) \<sigma>)"
      "answer streamed r = Refused \<or> answer streamed r = Body (concat (map (held_data stored \<sigma>) bs))"
      using get_held [OF ok(2) auth Some [unfolded m] held] by blast
    then show ?thesis
      using wf_ticks [OF wf] obj by (auto simp: refines_def intro: spec_step.intros)
  qed
next
  case (Some e)
  then show ?thesis by (simp add: s3_get_object_def authorize_code refines_refused [OF wf])
qed

text \<open>Changing the tables of uploads and parts.\<close>

lemma upload_tables:
  assumes wf: "site_wf E stored good S N clk \<sigma>" and s': "store_ok s'" "objects s' = objects (st \<sigma>)" "clock s' = clock (st \<sigma>)"
    and fid: "get_local_block_fid s' = get_local_block_fid (st \<sigma>)"
    and new: "\<forall>p r. map_of (parts s') p = Some r \<longrightarrow> map_of (parts (st \<sigma>)) p \<noteq> Some r \<longrightarrow>
      (\<forall>h \<in> set (decode_blocks (part_blocks r)). get_local_block_fid (st \<sigma>) h \<noteq> None)"
  shows "site_wf E stored good S N clk (\<sigma>\<lparr>st := s'\<rparr>)"
    and "abs_site stored (\<sigma>\<lparr>st := s'\<rparr>) = (abs_site stored \<sigma>)\<lparr>
      sp_parts := (\<lambda>p. map_option (\<lambda>r. block_data stored \<sigma> (part_blocks r)) (map_of (parts s') p)),
      sp_uploads := map_of (multipart_uploads s')\<rparr>"
proof -
  have ok: "store_ok (st \<sigma>)" "\<And>h. h \<in> compute_live_block_set (st \<sigma>) \<Longrightarrow> get_local_block_fid (st \<sigma>) h \<noteq> None"
    "clock_ahead E N \<sigma>"
    using wf by (simp_all add: site_wf_def)
  have "get_local_block_fid s' h \<noteq> None" if "h \<in> compute_live_block_set s'" for h
  proof (cases "h \<in> compute_live_block_set (st \<sigma>)")
    case False
    with that obtain p r where "map_of (parts s') p = Some r" "h \<in> set (decode_blocks (part_blocks r))"
      "map_of (parts (st \<sigma>)) p \<noteq> Some r"
      unfolding live_iff [OF s'(1)] live_iff [OF ok(1)] s'(2) by blast
    with new show ?thesis unfolding fid by blast
  qed (simp add: fid ok(2))
  moreover have "clock_ahead E N (\<sigma>\<lparr>st := s'\<rparr>)"
    using ok(3) by (simp add: clock_ahead_def row_time_def store_now_micros_def s'(2,3))
  ultimately show "site_wf E stored good S N clk (\<sigma>\<lparr>st := s'\<rparr>)"
    using wf s' fid by (simp add: site_wf_def addressed_def)
  have data: "block_data stored (\<sigma>\<lparr>st := s'\<rparr>) = block_data stored \<sigma>" by (rule block_data_cong) (simp_all add: fid)
  show "abs_site stored (\<sigma>\<lparr>st := s'\<rparr>) = (abs_site stored \<sigma>)\<lparr>
      sp_parts := (\<lambda>p. map_option (\<lambda>r. block_data stored \<sigma> (part_blocks r)) (map_of (parts s') p)),
      sp_uploads := map_of (multipart_uploads s')\<rparr>"
    unfolding abs_site_def data by (simp add: s'(2))
qed

lemma wf_create:
  assumes "site_wf E stored good S N clk \<sigma>"
  shows "site_wf E stored good S N clk (\<sigma>\<lparr>st := insert_multipart b u k (st \<sigma>)\<rparr>)"
    and "abs_site stored (\<sigma>\<lparr>st := insert_multipart b u k (st \<sigma>)\<rparr>) =
      (abs_site stored \<sigma>)\<lparr>sp_uploads := (sp_uploads (abs_site stored \<sigma>))((b, u) \<mapsto> k)\<rparr>"
proof -
  let ?s = "insert_multipart b u k (st \<sigma>)"
  have "store_ok ?s" "objects ?s = objects (st \<sigma>)" "clock ?s = clock (st \<sigma>)" "parts ?s = parts (st \<sigma>)"
    "get_local_block_fid ?s = get_local_block_fid (st \<sigma>)"
    using assms by (simp_all add: site_wf_def, simp_all add: insert_multipart_def get_local_block_fid_def fun_eq_iff)
  note up = upload_tables [OF assms this(1-3,5), unfolded this(4), simplified]
  show "site_wf E stored good S N clk (\<sigma>\<lparr>st := ?s\<rparr>)" by (rule up(1))
  show "abs_site stored (\<sigma>\<lparr>st := ?s\<rparr>) = (abs_site stored \<sigma>)\<lparr>sp_uploads := (sp_uploads (abs_site stored \<sigma>))((b, u) \<mapsto> k)\<rparr>"
    unfolding up(2) by (simp add: abs_site_def insert_multipart_def AList.update_conv')
qed

lemma wf_insert_part:
  assumes "site_wf E stored good S N clk \<sigma>" "hashes_ok bs" "\<forall>h \<in> set bs. get_local_block_fid (st \<sigma>) h \<noteq> None"
  shows "site_wf E stored good S N clk (\<sigma>\<lparr>st := insert_part b u n bs sz et (st \<sigma>)\<rparr>)"
    and "abs_site stored (\<sigma>\<lparr>st := insert_part b u n bs sz et (st \<sigma>)\<rparr>) =
      (abs_site stored \<sigma>)\<lparr>sp_parts := (sp_parts (abs_site stored \<sigma>))((b, u, n) \<mapsto> concat (map (held_data stored \<sigma>) bs))\<rparr>"
proof -
  let ?s = "insert_part b u n bs sz et (st \<sigma>)"
  have ok: "store_ok ?s" using assms(1) by (simp add: site_wf_def)
  have new: "\<forall>p r. map_of (parts ?s) p = Some r \<longrightarrow> map_of (parts (st \<sigma>)) p \<noteq> Some r \<longrightarrow>
      (\<forall>h \<in> set (decode_blocks (part_blocks r)). get_local_block_fid (st \<sigma>) h \<noteq> None)"
    using assms(2,3) by (auto simp: map_of_insert_part split: if_splits)
  note up = upload_tables [OF assms(1) ok insert_part_keeps(1,2,6) new]
  show "site_wf E stored good S N clk (\<sigma>\<lparr>st := ?s\<rparr>)" by (rule up(1))
  show "abs_site stored (\<sigma>\<lparr>st := ?s\<rparr>) =
      (abs_site stored \<sigma>)\<lparr>sp_parts := (sp_parts (abs_site stored \<sigma>))((b, u, n) \<mapsto> concat (map (held_data stored \<sigma>) bs))\<rparr>"
    unfolding up(2) using assms(2) by (simp add: abs_site_def map_of_insert_part block_data_def fun_eq_iff)
qed

lemma wf_drop_upload:
  assumes "site_wf E stored good S N clk \<sigma>"
  shows "site_wf E stored good S N clk (\<sigma>\<lparr>st := delete_multipart_upload b u (st \<sigma>)\<rparr>)"
    and "abs_site stored (\<sigma>\<lparr>st := delete_multipart_upload b u (st \<sigma>)\<rparr>) = drop_upload b u (abs_site stored \<sigma>)"
proof -
  let ?s = "delete_multipart_upload b u (st \<sigma>)"
  have ok: "store_ok ?s" "objects ?s = objects (st \<sigma>)" "clock ?s = clock (st \<sigma>)"
    "get_local_block_fid ?s = get_local_block_fid (st \<sigma>)"
    using assms by (simp_all add: site_wf_def, simp_all add: delete_multipart_upload_def Let_def get_local_block_fid_def fun_eq_iff)
  have "table_ok (parts (st \<sigma>))" using assms by (simp add: site_wf_def store_ok_def)
  from map_of_delete_where [OF this]
  have p: "map_of (parts ?s) = map_of (parts (st \<sigma>)) |` (- ({b} \<times> {u} \<times> UNIV))"
    "map_of (multipart_uploads ?s) = (map_of (multipart_uploads (st \<sigma>)))((b, u) := None)"
    by (auto simp: delete_multipart_upload_def Let_def restrict_map_def fun_eq_iff AList.delete_conv' split: option.split)
  have new: "\<forall>p r. map_of (parts ?s) p = Some r \<longrightarrow> map_of (parts (st \<sigma>)) p \<noteq> Some r \<longrightarrow>
      (\<forall>h \<in> set (decode_blocks (part_blocks r)). get_local_block_fid (st \<sigma>) h \<noteq> None)"
    by (auto simp: p restrict_map_def split: if_splits)
  note up = upload_tables [OF assms ok new]
  show "site_wf E stored good S N clk (\<sigma>\<lparr>st := ?s\<rparr>)" by (rule up(1))
  show "abs_site stored (\<sigma>\<lparr>st := ?s\<rparr>) = drop_upload b u (abs_site stored \<sigma>)"
    unfolding up(2) drop_upload_def by (simp add: abs_site_def p restrict_map_def fun_eq_iff)
qed

lemma refines_create:
  assumes "site_wf E stored good S N clk \<sigma>"
  shows "refines E stored good S N clk (OpCreate b k u) \<sigma>
    (map_prod (answer (\<lambda>_. Done)) id (s3_create_multipart_upload E u cred b k \<sigma>))"
proof (cases "authorize (crates E) (st \<sigma>) cred ''s3:PutObject'' (Some b) (Some k)")
  case None
  with wf_create [OF assms] show ?thesis by (simp add: s3_create_multipart_upload_def refines_def spec_step.create)
next
  case (Some e)
  then show ?thesis by (simp add: s3_create_multipart_upload_def authorize_code refines_refused [OF assms])
qed

lemma refines_abort:
  assumes "site_wf E stored good S N clk \<sigma>"
  shows "refines E stored good S N clk (OpAbort b k u) \<sigma>
    (map_prod (answer (\<lambda>_. Done)) id (s3_abort_multipart_upload E cred b k u \<sigma>))"
proof (cases "authorize (crates E) (st \<sigma>) cred ''s3:AbortMultipartUpload'' (Some b) (Some k)")
  case None
  with wf_drop_upload [OF assms] refines_refused [OF assms] show ?thesis
    by (cases "uuid_parse (crates E) u") (simp_all add: s3_abort_multipart_upload_def refines_def spec_step.abort)
next
  case (Some e)
  then show ?thesis by (simp add: s3_abort_multipart_upload_def authorize_code refines_refused [OF assms])
qed

lemma part_target_code: "part_target E cred b k u \<sigma> = Inl e \<Longrightarrow> e \<noteq> NoSuchKey"
  by (auto simp: part_target_def authorize_code check_writable_code split: option.splits result.splits)

lemma part_target_upload:
  "part_target E cred b k u \<sigma> = Inr uid \<Longrightarrow> uuid_parse (crates E) u = Ok uid \<and> sp_uploads (abs_site stored \<sigma>) (b, uid) \<noteq> None"
  by (auto simp: part_target_def abs_site_def get_multipart_key_def split: option.splits result.splits)

lemma refines_part:
  assumes env: "object_env E cfg stored good S N clk" and wf: "site_wf E stored good S N clk \<sigma>" and "payload frames \<in> S"
  shows "refines E stored good S N clk (OpPart b k u n frames) \<sigma>
    (map_prod (answer (\<lambda>_. Done)) id (s3_upload_part E cfg cred b k u n (Some frames) \<sigma>))"
proof (cases "part_target E cred b k u \<sigma>")
  case (Inl e)
  then show ?thesis using part_target_code [OF Inl] by (simp add: s3_upload_part_def refines_refused [OF wf])
next
  case (Inr uid)
  note target = part_target_upload [OF Inr, of stored]
  obtain r \<sigma>1 where r: "receive_body E cfg frames upload_new \<sigma> = (r, \<sigma>1)" by (cases "receive_body E cfg frames upload_new \<sigma>")
  note rb = receive_body_wf [OF env wf assms(3) r]
  have run: "s3_upload_part E cfg cred b k u n (Some frames) \<sigma> = save_part E b uid n (r, \<sigma>1)"
    by (simp add: s3_upload_part_def Inr r)
  show ?thesis
  proof (cases r)
    case (Reply v)
    from rb(4) [OF Reply] obtain ds where ds: "concat ds = payload frames" "up_hashes v = map (blake3 (crates E)) ds"
      "\<forall>d \<in> set ds. holds stored \<sigma>1 (blake3 (crates E) d) d" by blast
    have "hashes_ok (up_hashes v)" using env by (simp add: ds(2) hashes_ok_blake3 object_env_def)
    moreover have "\<forall>h \<in> set (up_hashes v). get_local_block_fid (st \<sigma>1) h \<noteq> None" using ds(2,3) by (auto simp: holds_def)
    ultimately show ?thesis
      using rb(2,3) wf_insert_part [OF rb(1), of "up_hashes v"] ds(1) map_held_data [OF ds(3)] target
      by (simp add: run Reply save_part_def Let_def refines_def ds(2) spec_step.part)
  next
    case (Failed e)
    moreover have "e \<noteq> NoSuchKey" using receive_body_code [of E cfg frames upload_new \<sigma> e] r Failed by simp
    ultimately show ?thesis using rb by (simp add: run save_part_def refines_refused)
  qed (use rb in \<open>simp_all add: run save_part_def refines_refused\<close>)
qed

lemma join_parts_hashes:
  "join_parts C ps hs t ei = Ok (hashes, sz, ei') \<Longrightarrow> hashes = hs @ concat (map (fst \<circ> snd) ps)"
  by (induction ps arbitrary: hs t ei) (fastforce split: result.splits)+

lemma finite_part_numbers: "finite (part_numbers s b u)"
proof -
  have "part_numbers s b u \<subseteq> (\<lambda>p. snd (snd p)) ` dom (map_of (parts s))" by (force simp: part_numbers_def)
  then show ?thesis by (rule finite_subset) (simp add: finite_dom_map_of)
qed

lemma assembled_listed:
  assumes "store_ok (st \<sigma>)"
  shows "concat (map (held_data stored \<sigma>) (concat (map (fst \<circ> snd) (list_parts (st \<sigma>) b u)))) =
    assembled_parts (abs_site stored \<sigma>) b u"
proof -
  let ?ns = "sorted_list_of_set (part_numbers (st \<sigma>) b u)"
  have ns: "sorted_wrt (<) ?ns" "set ?ns = part_numbers (st \<sigma>) b u" using finite_part_numbers [of "st \<sigma>" b u] by simp_all
  have "list_parts (st \<sigma>) b u = map (part_entry (st \<sigma>) b u) ?ns"
    using assms ns by (intro list_parts_sorted) (simp_all add: store_ok_def)
  moreover have "{n. sp_parts (abs_site stored \<sigma>) (b, u, n) \<noteq> None} = part_numbers (st \<sigma>) b u"
    by (auto simp: abs_site_def part_numbers_def)
  moreover have "concat (map (held_data stored \<sigma>) (fst (snd (part_entry (st \<sigma>) b u n)))) =
      the (sp_parts (abs_site stored \<sigma>) (b, u, n))" if "n \<in> set ?ns" for n
    using that unfolding ns(2) by (auto simp: part_numbers_def part_entry_def Let_def abs_site_def block_data_def)
  ultimately show ?thesis
    by (simp add: assembled_parts_def map_concat concat_concat comp_def cong: map_cong)
qed

lemma listed_live:
  assumes "site_wf E stored good S N clk \<sigma>" "h \<in> set (concat (map (fst \<circ> snd) (list_parts (st \<sigma>) b u)))"
  shows "get_local_block_fid (st \<sigma>) h \<noteq> None" "length h = 32"
proof -
  from assms(2) obtain n r where r: "((b, u, n), r) \<in> set (parts (st \<sigma>))" "h \<in> set (decode_blocks (part_blocks r))"
    by (auto simp: list_parts_def)
  then have "h \<in> compute_live_block_set (st \<sigma>)" by (force simp: compute_live_block_set_def)
  with assms(1) show "get_local_block_fid (st \<sigma>) h \<noteq> None" by (simp add: site_wf_def)
  show "length h = 32" using r(2) by (rule decode_blocks_length)
qed

lemma refines_complete:
  assumes env: "object_env E cfg stored good S N clk" and wf: "site_wf E stored good S N clk \<sigma>"
    and "tick (snd (s3_complete_multipart_upload E cred b k u \<sigma>)) \<le> N"
  shows "refines E stored good S N clk (OpComplete b k u) \<sigma>
    (map_prod (answer (\<lambda>_. Done)) id (s3_complete_multipart_upload E cred b k u \<sigma>))"
proof (cases "\<exists>etag \<sigma>'. s3_complete_multipart_upload E cred b k u \<sigma> = (Reply etag, \<sigma>')")
  case True
  then obtain etag \<sigma>' where run: "s3_complete_multipart_upload E cred b k u \<sigma> = (Reply etag, \<sigma>')" by blast
  then obtain uid where uid: "uuid_parse (crates E) u = Ok uid" "get_multipart_key (st \<sigma>) b uid = Some k"
    by (auto simp: s3_complete_multipart_upload_def split: option.splits result.splits if_splits)
  obtain hashes sz ei e where j: "join_parts (crates E) (sort_key fst (list_parts (st \<sigma>) b uid)) [] 0 [] = Ok (hashes, sz, ei)"
    and \<sigma>': "\<sigma>' = ticked (\<sigma>\<lparr>st := delete_multipart_upload b uid (insert_object (crates E) (sys_now E \<sigma>) b
       (compute_shard_id (blake3 (crates E)) k) k hashes sz e (st \<sigma>))\<rparr>)"
    by (rule complete_Reply [OF run uid(1)])
  have "sort_key fst (list_parts (st \<sigma>) b uid) = list_parts (st \<sigma>) b uid"
    unfolding list_parts_def by (simp add: sort_key_id_if_sorted)
  with join_parts_hashes [OF j] have hs: "hashes = concat (map (fst \<circ> snd) (list_parts (st \<sigma>) b uid))" by simp
  have n: "tick \<sigma> \<le> N" using assms(3) run by (simp add: \<sigma>')
  have ok: "hashes_ok hashes" "\<forall>h \<in> set hashes. get_local_block_fid (st \<sigma>) h \<noteq> None"
    using listed_live [OF wf] unfolding hs hashes_ok_def by blast+
  let ?\<sigma>1 = "ticked (\<sigma>\<lparr>st := insert_object (crates E) (sys_now E \<sigma>) b (compute_shard_id (blake3 (crates E)) k) k hashes sz e (st \<sigma>)\<rparr>)"
  note ins = wf_insert [OF env wf n ok, of "crates E" b "compute_shard_id (blake3 (crates E)) k" k sz e]
  have last: "\<sigma>' = ?\<sigma>1\<lparr>st := delete_multipart_upload b uid (st ?\<sigma>1)\<rparr>" by (simp add: \<sigma>' ticked_def)
  note drop = wf_drop_upload [OF ins(1), of b uid, folded last]
  have "store_ok (st \<sigma>)" using wf by (simp add: site_wf_def)
  note asm = assembled_listed [OF this, of stored b uid, folded hs]
  have "sp_uploads (abs_site stored \<sigma>) (b, uid) = Some k" using uid(2) by (simp add: abs_site_def get_multipart_key_def)
  from spec_step.complete [OF uid(1) this] show ?thesis
    unfolding refines_def run using drop(1) by (simp add: drop(2) ins(2) asm del: abs_ticked) (simp add: \<sigma>')
next
  case False
  then show ?thesis
    by (auto simp: s3_complete_multipart_upload_def Let_def authorize_code intro!: refines_refused [OF wf]
        split: option.splits result.splits if_splits)
qed

section \<open>A sweep\<close>

lemma sweep_one_fid_back:
  "get_local_block_fid (st (sweep_one E force grace live pending now h \<sigma>)) h' = Some f \<Longrightarrow> get_local_block_fid (st \<sigma>) h' = Some f"
  by (cases "h' = h") (auto simp: sweep_one_fid sweep_one_other split: if_splits)

lemma fold_sweep_fid_back:
  "get_local_block_fid (st (fold (sweep_one E force grace live pending now) hs \<sigma>)) h' = Some f \<Longrightarrow>
    get_local_block_fid (st \<sigma>) h' = Some f"
  by (induction hs arbitrary: \<sigma>) (auto dest: sweep_one_fid_back)

lemma sweep_fid_back:
  assumes "sweep_orphaned_blocks E grace force \<sigma> = (r, \<sigma>')" "get_local_block_fid (st \<sigma>') h = Some f"
  shows "get_local_block_fid (st \<sigma>) h = Some f"
  using assms
  by (auto simp: sweep_orphaned_blocks_def Let_def fold_stale_keeps split: result.splits
      dest: fold_sweep_fid_back [where \<sigma> = "ticked \<sigma>", simplified])

context block_site
begin

text \<open>What is still local after a sweep has its old token and bytes.\<close>

lemma sweep_one_remaining:
  assumes "good h" "good h'" "get_local_block_fid (st (sweep_one E force grace live pending now h \<sigma>)) h' = Some f"
  shows "stored (blobs (sweep_one E force grace live pending now h \<sigma>)) h' f = stored (blobs \<sigma>) h' f"
proof (cases "h' = h")
  case True
  with assms(3) have "h \<in> live \<or> \<not> force \<and> now < reap_time grace pending now h"
    by (simp add: sweep_one_fid split: if_splits)
  then show ?thesis using True by (auto simp: sweep_one_def Let_def)
qed (simp add: sweep_one_bytes [OF assms(1,2)])

lemma fold_sweep_remaining:
  assumes "\<forall>h \<in> set hs. good h" "good h'"
    and "get_local_block_fid (st (fold (sweep_one E force grace live pending now) hs \<sigma>)) h' = Some f"
  shows "stored (blobs (fold (sweep_one E force grace live pending now) hs \<sigma>)) h' f = stored (blobs \<sigma>) h' f"
  using assms(1,3)
proof (induction hs arbitrary: \<sigma>)
  case (Cons h hs)
  let ?\<sigma>1 = "sweep_one E force grace live pending now h \<sigma>"
  have "get_local_block_fid (st ?\<sigma>1) h' = Some f"     using fold_sweep_fid_back [of E force grace live pending now hs ?\<sigma>1] Cons.prems(2) by simp
  with sweep_one_remaining [OF _ assms(2), of h] Cons.prems(1) have "stored (blobs ?\<sigma>1) h' f = stored (blobs \<sigma>) h' f" by auto
  moreover have "stored (blobs (fold (sweep_one E force grace live pending now) hs ?\<sigma>1)) h' f = stored (blobs ?\<sigma>1) h' f"
    using Cons.prems by (intro Cons.IH) simp_all
  ultimately show ?case by simp
qed simp

lemma sweep_remaining:
  assumes "sweep_orphaned_blocks E grace force \<sigma> = (r, \<sigma>')" "\<forall>h \<in> set (list_local_block_hashes (st \<sigma>)). good h" "good h"
    and "get_local_block_fid (st \<sigma>') h = Some f"
  shows "stored (blobs \<sigma>') h f = stored (blobs \<sigma>) h f"
  using assms fold_sweep_remaining [OF assms(2,3), of force grace _ _ _ "ticked \<sigma>" f]
  by (auto simp: sweep_orphaned_blocks_def Let_def fold_stale_keeps split: result.splits)

end

lemma sweep_one_frame:
  "store_ok (st \<sigma>) \<Longrightarrow> store_ok (st (sweep_one E force grace live pending now h \<sigma>))"
  "tick \<sigma> \<le> tick (sweep_one E force grace live pending now h \<sigma>)"
  by (auto simp: sweep_one_def mark_pending_def delete_orphan_def delete_block_def Let_def
      split: option.split result.split)

lemma fold_sweep_frame:
  "store_ok (st \<sigma>) \<Longrightarrow> store_ok (st (fold (sweep_one E force grace live pending now) hs \<sigma>)) \<and>
    tick \<sigma> \<le> tick (fold (sweep_one E force grace live pending now) hs \<sigma>)"
proof (induction hs arbitrary: \<sigma>)
  case (Cons h hs)
  let ?\<sigma>1 = "sweep_one E force grace live pending now h \<sigma>"
  have "tick \<sigma> \<le> tick ?\<sigma>1" "store_ok (st ?\<sigma>1)" by (rule sweep_one_frame(2), rule sweep_one_frame(1) [OF Cons.prems])
  with Cons.IH [of ?\<sigma>1] show ?case by simp
qed simp

lemma fold_stale_frame:
  "store_ok (st \<sigma>) \<Longrightarrow> store_ok (st (fold (drop_stale local) ps \<sigma>)) \<and> tick (fold (drop_stale local) ps \<sigma>) = tick \<sigma>"
  by (induction ps arbitrary: \<sigma>) (simp_all add: drop_stale_def)

lemma sweep_frame:
  assumes "sweep_orphaned_blocks E grace force \<sigma> = (r, \<sigma>')" "store_ok (st \<sigma>)"
  shows "store_ok (st \<sigma>') \<and> tick \<sigma> \<le> tick \<sigma>'"
proof (cases "epoch_millis (sys_now E \<sigma>)")
  case Err
  with assms show ?thesis by (auto simp: sweep_orphaned_blocks_def Let_def)
next
  case (Ok now)
  let ?\<sigma>1 = "fold (sweep_one E force grace (compute_live_block_set (st \<sigma>)) (get_pending_deletions (st \<sigma>)) now)
      (list_local_block_hashes (st \<sigma>)) (ticked \<sigma>)"
  have f: "store_ok (st ?\<sigma>1) \<and> tick (ticked \<sigma>) \<le> tick ?\<sigma>1" by (rule fold_sweep_frame) (simp add: assms(2))
  have "\<sigma>' = fold (drop_stale (list_local_block_hashes (st \<sigma>))) (get_pending_deletions (st \<sigma>)) ?\<sigma>1"
    using assms(1) Ok by (simp add: sweep_orphaned_blocks_def Let_def)
  with fold_stale_frame [of ?\<sigma>1] f show ?thesis by simp
qed

lemma refines_sweep:
  assumes env: "object_env E cfg stored good S N clk" and wf: "site_wf E stored good S N clk \<sigma>"
  shows "refines E stored good S N clk (OpSweep force) \<sigma>
    (map_prod (\<lambda>r. case r of Ok u \<Rightarrow> Done | Err \<Rightarrow> Refused) id (sweep_orphaned_blocks E grace force \<sigma>))"
proof -
  obtain r \<sigma>' where run: "sweep_orphaned_blocks E grace force \<sigma> = (r, \<sigma>')" by (cases "sweep_orphaned_blocks E grace force \<sigma>")
  have site: "block_site E stored good" using env by (simp add: object_env_def)
  have ok: "store_ok (st \<sigma>)" "addressed (crates E) stored good S \<sigma>" "clock_ahead E N \<sigma>" "clock (st \<sigma>) = clk"
    using wf by (simp_all add: site_wf_def)
  have good: "\<forall>h \<in> set (list_local_block_hashes (st \<sigma>)). good h"
    using ok(2) local_hashes_iff [OF ok(1)] by (auto simp: addressed_def)
  have frame: "store_ok (st \<sigma>')" "tick \<sigma> \<le> tick \<sigma>'" using sweep_frame [OF run ok(1)] by simp_all
  have same: "objects (st \<sigma>') = objects (st \<sigma>)" "parts (st \<sigma>') = parts (st \<sigma>)"
    "multipart_uploads (st \<sigma>') = multipart_uploads (st \<sigma>)" "clock (st \<sigma>') = clock (st \<sigma>)"
    "compute_live_block_set (st \<sigma>') = compute_live_block_set (st \<sigma>)"
    using sweep_manifests [OF run] same_manifests_live(1) [OF sweep_manifests [OF run]] by (simp_all add: same_manifests_def)
  have keeps: "holds stored \<sigma>' h d" if "h \<in> compute_live_block_set (st \<sigma>)" "good h" "holds stored \<sigma> h d" for h d
    using block_site.sweep_holds [OF site run good that(2,1,3)] .
  have "get_local_block_fid (st \<sigma>') h \<noteq> None" if "h \<in> compute_live_block_set (st \<sigma>)" for h
    using wf_holds [OF wf that] keeps [OF that] unfolding holds_def by (metis option.distinct(1))
  moreover have "addressed (crates E) stored good S \<sigma>'"
    unfolding addressed_def
  proof (intro allI impI)
    fix h f
    assume f: "get_local_block_fid (st \<sigma>') h = Some f"
    from ok(2) sweep_fid_back [OF run f] have "good h \<and> (\<exists>d \<in> S. stored (blobs \<sigma>) h f = Some d \<and> blake3 (crates E) d = h)"
      by (simp add: addressed_def)
    with block_site.sweep_remaining [OF site run good _ f]
    show "good h \<and> (\<exists>d \<in> S. stored (blobs \<sigma>') h f = Some d \<and> blake3 (crates E) d = h)" by simp
  qed
  moreover have "clock_ahead E N \<sigma>'"
    using ok(3) frame(2) by (auto simp: clock_ahead_def row_time_def store_now_micros_def same)
  ultimately have wf': "site_wf E stored good S N clk \<sigma>'" using frame(1) ok(4) by (simp add: site_wf_def same)
  have "abs_site stored \<sigma>' = abs_site stored \<sigma>" by (rule abs_frame [OF wf keeps same(1-3)])
  with wf' frame(2) run show ?thesis
    by (cases r) (simp_all add: refines_refused, simp add: refines_def spec_step.sweep)
qed

section \<open>Histories\<close>

text \<open>The counter of calls never runs backwards.\<close>

lemma tick_promote: "tick \<sigma> \<le> tick (snd (promote_block_locally E h d \<sigma>))"
  by (simp add: promote_block_locally_def Let_def split: result.split)

lemma tick_fetch: "tick \<sigma> \<le> tick (snd (fetch_loop E h locs peers \<sigma>))"
proof (induction E h locs peers \<sigma> rule: fetch_loop.induct)
  case (2 E h locs p peers \<sigma>)
  show ?case
  proof (cases "fst p \<in> set locs")
    case True
    show ?thesis
    proof (cases "fetch_block E (tick \<sigma>) (snd p) h")
      case Err
      with True 2 show ?thesis by (simp add: Suc_le_eq less_le_trans [OF lessI])
    next
      case (Ok d)
      with True tick_promote [of "ticked \<sigma>" E h d] show ?thesis by (simp add: Let_def split: result.split)
    qed
  qed (use 2 in simp)
qed simp

lemma tick_get_block: "tick \<sigma> \<le> tick (snd (get_block E h \<sigma>))"
  using tick_fetch [of "ticked \<sigma>" E h] by (simp add: get_block_def Suc_le_eq less_imp_le split: option.split)

lemma tick_stream: "tick \<sigma> \<le> tick (snd (stream_blocks E plan \<sigma>))"
proof (induction E plan \<sigma> rule: stream_blocks.induct)
  case (2 E h skip tk plan \<sigma>)
  with tick_get_block [of \<sigma> E h] show ?case
    by (cases "fst (get_block E h \<sigma>)") (simp_all add: Let_def, metis le_trans)
qed simp

lemma tick_receive: "tick \<sigma> \<le> tick (snd (receive_body E cfg frames u \<sigma>))"
proof (induction E cfg frames u \<sigma> rule: receive_body.induct)
  case (1 E cfg u \<sigma>)
  then show ?case
    by (cases "up_buffer u = []") (simp_all add: finish_body_def chunk_finalize_def tick_store_blocks del: store_blocks.simps)
next
  case (3 E cfg frame frames u \<sigma>)
  have "tick \<sigma> \<le> tick (snd (take_frame E cfg frame u \<sigma>))"
    by (rule take_frame_cases [of E cfg frame u \<sigma>]) (simp_all add: tick_store_blocks)
  with 3 show ?case by (cases "fst (take_frame E cfg frame u \<sigma>)") (auto simp: Let_def prod_eq_iff dest: le_trans)
qed simp

lemma tick_get: "tick \<sigma> \<le> tick (snd (s3_get_object E cred b k rng \<sigma>))"
  by (auto simp: s3_get_object_def Let_def tick_get_block le_trans [OF tick_get_block tick_stream]
      split: option.split list.split result.split)

lemma tick_sweep: "tick \<sigma> \<le> tick (snd (sweep_orphaned_blocks E grace force \<sigma>))"
proof -
  have mono: "tick \<sigma> \<le> tick (fold (sweep_one E force grace live pending now) hs \<sigma>)"
    for live pending now hs and \<sigma> :: "'a Site"
    by (induction hs arbitrary: \<sigma>) (simp_all, metis le_trans sweep_one_frame(2))
  have "tick \<sigma> \<le> tick (fold (sweep_one E force grace live pending now) hs (ticked \<sigma>))" for live pending now hs
    using mono [of "ticked \<sigma>" live pending now hs] by simp
  moreover have "tick (fold (drop_stale local) ps \<sigma>) = tick \<sigma>" for local ps and \<sigma> :: "'a Site"
    by (induction ps arbitrary: \<sigma>) (simp_all add: drop_stale_def)
  ultimately show ?thesis
    by (simp add: sweep_orphaned_blocks_def Let_def split: result.split)
qed

lemma tick_run_op: "tick \<sigma> \<le> tick (snd (run_op E cfg grace cred op \<sigma>))"
proof (cases op)
  case (OpPut b k frames)
  then show ?thesis
    using tick_receive [of \<sigma> E cfg frames upload_new]
    by (auto simp: run_op_def s3_put_object_def Let_def split: option.split reply.split)
next
  case (OpPart b k u n frames)
  then show ?thesis
    using tick_receive [of \<sigma> E cfg frames upload_new]
    by (auto simp: run_op_def s3_upload_part_def save_part_def Let_def split: sum.split reply.split)
next
  case (OpDeleteMany b ks)
  then show ?thesis
    by (simp add: run_op_def s3_delete_objects_def delete_keys_def [symmetric] split: option.split)
next
  case (OpComplete b k u)
  then show ?thesis
    by (simp add: run_op_def s3_complete_multipart_upload_def Let_def split: option.split result.split)
qed (simp_all add: run_op_def tick_get tick_sweep s3_delete_object_def s3_copy_object_def s3_create_multipart_upload_def
    s3_abort_multipart_upload_def split: option.split result.split)

lemma tick_run_ops: "tick \<sigma> \<le> tick (snd (run_ops E cfg grace ops \<sigma>))"
proof (induction ops arbitrary: \<sigma>)
  case (Cons p ops)
  obtain cred op where p: "p = (cred, op)" by (cases p)
  from le_trans [OF tick_run_op Cons.IH] show ?case by (simp add: p split_beta)
qed simp

lemma run_op_refines:
  assumes env: "object_env E cfg stored good S N clk" and wf: "site_wf E stored good S N clk \<sigma>"
    and "uploads_in S op" "tick (snd (run_op E cfg grace cred op \<sigma>)) \<le> N"
  shows "refines E stored good S N clk op \<sigma> (run_op E cfg grace cred op \<sigma>)"
  using assms(3,4)
  by (cases op) (simp_all add: run_op_def uploads_in_def refines_put [OF env wf] refines_get [OF env wf] refines_delete [OF env wf]
      refines_delete_many [OF env wf] refines_copy [OF env wf] refines_create [OF wf] refines_part [OF env wf]
      refines_complete [OF env wf] refines_abort [OF wf] refines_sweep [OF env wf])

lemma run_ops_refine:
  assumes env: "object_env E cfg stored good S N clk" and wf: "site_wf E stored good S N clk \<sigma>"
    and "\<forall>(cred, op) \<in> set ops. uploads_in S op" "tick (snd (run_ops E cfg grace ops \<sigma>)) \<le> N"
  shows "spec_run (crates E) (map snd ops) (abs_site stored \<sigma>) (fst (run_ops E cfg grace ops \<sigma>))
      (abs_site stored (snd (run_ops E cfg grace ops \<sigma>))) \<and>
    site_wf E stored good S N clk (snd (run_ops E cfg grace ops \<sigma>))"
  using wf assms(3,4)
proof (induction ops arbitrary: \<sigma>)
  case Nil
  then show ?case by (simp add: run_nil)
next
  case (Cons p ops)
  obtain cred op where p: "p = (cred, op)" by (cases p)
  let ?r = "run_op E cfg grace cred op \<sigma>"
  have last: "tick (snd (run_ops E cfg grace ops (snd ?r))) \<le> N" using Cons.prems(3) by (simp add: p split_beta)
  have "refines E stored good S N clk op \<sigma> ?r"
    using Cons.prems(2) by (intro run_op_refines [OF env Cons.prems(1)] le_trans [OF tick_run_ops last]) (simp add: p)
  then show ?case
    using Cons.IH [of "snd ?r"] Cons.prems(2) last by (auto simp: refines_def p split_beta intro: run_cons)
qed

lemma store_blocks_answers:
  assumes "\<And>n h d b. fst (blob_put E n h d b) \<noteq> Err"
  shows "\<exists>u' \<sigma>'. store_blocks E ds u \<sigma> = (Reply u', \<sigma>')"
proof (induction ds arbitrary: u \<sigma>)
  case (Cons d ds)
  have "fst (store_block E d (int (length d)) \<sigma>) \<noteq> Err"
    using assms by (auto simp: store_block_def Let_def split: result.split)
  with Cons show ?case by (cases "fst (store_block E d (int (length d)) \<sigma>)") (simp_all add: Let_def)
qed simp

lemma receive_body_answers:
  assumes puts: "\<And>n h d b. fst (blob_put E n h d b) \<noteq> Err" and "chunk_ok (fastcdc_first (crates E)) cfg"
  shows "\<exists>u' \<sigma>'. receive_body E cfg (map Ok fs) u \<sigma> = (Reply u', \<sigma>')"
proof (induction fs arbitrary: u \<sigma>)
  case Nil
  show ?case
    using store_blocks_answers [OF puts] by (simp add: finish_body_def chunk_finalize_def del: store_blocks.simps)
next
  case (Cons frame fs)
  obtain ds rest where "chunk_process (fastcdc_first (crates E)) cfg (up_buffer u @ frame) = Some (Value (ds, rest))"
    using ck.process_returns [OF assms(2)] by blast
  then obtain u1 \<sigma>1 where "take_frame E cfg frame u \<sigma> = (Reply u1, \<sigma>1)"
    using store_blocks_answers [OF puts] by (force simp: take_frame_def Let_def)
  with Cons show ?case by (simp add: Let_def)
qed

section \<open>Properties\<close>

text \<open>
  C2. A site is an object store: whatever requests its clients send and however often it is swept, the
  answers are those of a map from keys to bytes. A request either is refused and changes nothing, or does what
  the specification says: a read returns the bytes last written to the key, a delete removes the key, a copy
  copies, a completed upload is its parts in order, and a sweep is invisible. The site starts well-formed
  (\<open>site_wf\<close>), and in \<open>object_env\<close> the byte store keeps its laws, digests do not collide among the data in play and the
  clock moves forward and is ahead of the stored timestamps.
\<close>

theorem requests_refine_spec:
  assumes "object_env E cfg stored good S N clk" "site_wf E stored good S N clk \<sigma>"
    and "\<forall>(cred, op) \<in> set ops. uploads_in S op" "run_ops E cfg grace ops \<sigma> = (answers, \<sigma>')" "tick \<sigma>' \<le> N"
  shows "spec_run (crates E) (map snd ops) (abs_site stored \<sigma>) answers (abs_site stored \<sigma>')"
  using run_ops_refine [OF assms(1-3), of grace] assms(4,5) by simp

text \<open>
  C7. Requests keep the site well-formed: primary keys stay unique and the log numbered without gaps, every local
  block has bytes whose digest is its name, and no manifest of a live object or of an unfinished upload
  refers to a block that is not there.
\<close>

theorem requests_keep_site_wf:
  assumes "object_env E cfg stored good S N clk" "site_wf E stored good S N clk \<sigma>"
    and "\<forall>(cred, op) \<in> set ops. uploads_in S op" "run_ops E cfg grace ops \<sigma> = (answers, \<sigma>')" "tick \<sigma>' \<le> N"
  shows "store_ok (st \<sigma>') \<and>
    (\<forall>h f. get_local_block_fid (st \<sigma>') h = Some f \<longrightarrow> (\<exists>d. stored (blobs \<sigma>') h f = Some d \<and> blake3 (crates E) d = h)) \<and>
    (\<forall>h \<in> compute_live_block_set (st \<sigma>'). get_local_block_fid (st \<sigma>') h \<noteq> None)"
  using run_ops_refine [OF assms(1-3), of grace] assms(4,5) by (auto simp: site_wf_def addressed_def)

text \<open>
  C8. Nothing is refused without a reason. On a well-formed site: a put of any body that arrives is
  acknowledged when the credential may put this key, the disk has room and the byte store accepts
  blocks; a read is answered with the bytes of the object or with its absence when the credential may
  get this key and the byte store answers reads; a delete is acknowledged when the credential may
  delete this key.
\<close>

theorem requests_answered:
  assumes env: "object_env E cfg stored good S N clk" and wf: "site_wf E stored good S N clk \<sigma>"
  shows "(authorize (crates E) (st \<sigma>) cred ''s3:PutObject'' (Some b) (Some k) = None \<longrightarrow>
      check_writable (disk_guard \<sigma>) = None \<longrightarrow> (\<forall>n h d s. fst (blob_put E n h d s) \<noteq> Err) \<longrightarrow>
      fst (run_op E cfg grace cred (OpPut b k (map Ok fs)) \<sigma>) = Done) \<and>
    (authorize (crates E) (st \<sigma>) cred ''s3:GetObject'' (Some b) (Some k) = None \<longrightarrow> reads_ok E stored (blobs \<sigma>) \<longrightarrow>
      fst (run_op E cfg grace cred (OpGet b k) \<sigma>) =
        (case sp_objects (abs_site stored \<sigma>) (b, k) of Some d \<Rightarrow> Body d | None \<Rightarrow> NotFound)) \<and>
    (authorize (crates E) (st \<sigma>) cred ''s3:DeleteObject'' (Some b) (Some k) = None \<longrightarrow>
      fst (run_op E cfg grace cred (OpDelete b k) \<sigma>) = Done)"
proof (intro conjI impI)
  assume a: "authorize (crates E) (st \<sigma>) cred ''s3:PutObject'' (Some b) (Some k) = None"
    "check_writable (disk_guard \<sigma>) = None" "\<forall>n h d s. fst (blob_put E n h d s) \<noteq> Err"
  have "chunk_ok (fastcdc_first (crates E)) cfg" using env by (simp add: object_env_def)
  from receive_body_answers [OF a(3) [rule_format] this, of fs upload_new \<sigma>]
  obtain u \<sigma>1 where "receive_body E cfg (map Ok fs) upload_new \<sigma> = (Reply u, \<sigma>1)" by blast
  then show "fst (run_op E cfg grace cred (OpPut b k (map Ok fs)) \<sigma>) = Done"
    using a(1,2) by (simp add: run_op_def s3_put_object_def Let_def)
next
  assume "authorize (crates E) (st \<sigma>) cred ''s3:DeleteObject'' (Some b) (Some k) = None"
  then show "fst (run_op E cfg grace cred (OpDelete b k) \<sigma>) = Done"
    by (simp add: run_op_def s3_delete_object_def)
next
  assume a: "authorize (crates E) (st \<sigma>) cred ''s3:GetObject'' (Some b) (Some k) = None" "reads_ok E stored (blobs \<sigma>)"
  show "fst (run_op E cfg grace cred (OpGet b k) \<sigma>) =
      (case sp_objects (abs_site stored \<sigma>) (b, k) of Some d \<Rightarrow> Body d | None \<Rightarrow> NotFound)"
  proof (cases "get_object (st \<sigma>) b k")
    case None
    then show ?thesis using a(1) by (simp add: run_op_def s3_get_object_def get_object_abs)
  next
    case (Some m)
    obtain bs sz et where m: "m = (bs, sz, et)" by (cases m) auto
    have ok: "store_ok (st \<sigma>)" using wf by (simp add: site_wf_def)
    have "holds stored \<sigma> h (held_data stored \<sigma> h)" if "h \<in> set bs" for h
      using wf_holds [OF wf get_object_live [OF ok Some [unfolded m] that]] held_data_eq by metis
    then have "fst (s3_get_object E cred b k None \<sigma>) = Reply \<lparr>out_body = map (\<lambda>h. Ok (held_data stored \<sigma> h)) bs,
        out_length = sz, out_range = None, out_etag = quoted et\<rparr>"
      using get_object_held [OF a(1) Some [unfolded m], of None "map (\<lambda>h. (h, 0, None)) bs" sz None stored "held_data stored \<sigma>"]
        a(2) by (fastforce simp: read_plan_def comp_def)
    then show ?thesis by (simp add: run_op_def get_object_abs Some m streamed_def payload_def comp_def image_iff)
  qed
qed

section \<open>A concrete history\<close>

definition demo_tick_env :: "files Env" where
  "demo_tick_env = local_env demo_crates ''/d'' demo_io (\<lambda>n. 1000000 + int n) (\<lambda>n url h. Err) (\<lambda>n. Err) (\<lambda>n ps. ps)"

lemma demo_tick_clock: "n \<le> 1000 \<Longrightarrow> clock_now_micros (clock_new 0) (sys_micros demo_tick_env n) = 1000000 + int n"
  by (simp add: demo_tick_env_def local_env_def clock_now_micros_def clock_new_def in_i64_def wrap_i64_id)

lemma demo_object_env:
  "object_env demo_tick_env (Fixed 2) (local_stored demo_crates ''/d'') (hash_good demo_crates) (set demo_pieces) 1000 (clock_new 0)"
proof -
  have site: "block_site demo_tick_env (local_stored demo_crates ''/d'') (hash_good demo_crates)"
    unfolding demo_tick_env_def by (rule lsite.block_site_axioms)
  have c: "crates demo_tick_env = demo_crates" by (simp add: demo_tick_env_def local_env_def)
  have closed: "\<forall>x \<in> set demo_pieces. \<forall>d. sublist d x \<longrightarrow> d \<in> set demo_pieces"
    unfolding demo_pieces_ok(1) by (auto intro: sublist_order.order_trans)
  have "\<forall>m n. m < n \<longrightarrow> n \<le> 1000 \<longrightarrow> clock_now_micros (clock_new 0) (sys_micros demo_tick_env m) <
      clock_now_micros (clock_new 0) (sys_micros demo_tick_env n)"
    by (simp add: demo_tick_clock)
  then show ?thesis
    unfolding object_env_def c
    by (intro conjI site demo_env_ok(2,3) demo_digest_ok demo_pieces_ok(2) closed)
qed

lemma demo_user_wf:
  "site_wf demo_tick_env (local_stored demo_crates ''/d'') (hash_good demo_crates) (set demo_pieces) 1000 (clock_new 0) demo_user_site"
proof -
  have "crates demo_tick_env = demo_crates" by (simp add: demo_tick_env_def local_env_def)
  moreover have "store_ok (st demo_user_site)" "clock (st demo_user_site) = clock_new 0"
    "compute_live_block_set (st demo_user_site) = {}"
    by (simp_all add: demo_user_site_def)
      (simp_all add: create_user_def put_user_row_def append_fact_tx_def Let_def store_new_def compute_live_block_set_def)
  ultimately show ?thesis using demo_user_site_facts by (simp add: site_wf_def clock_ahead_def)
qed

definition demo_history :: "(string option \<times> S3Op) list" where
  "demo_history = map (Pair (Some ''AK''))
     [OpPut ''b'' ''k'' [Ok [1], Ok [2, 3]], OpSweep True, OpGet ''b'' ''k'', OpCopy ''b'' ''k'' ''b'' ''l'', OpDelete ''b'' ''k'',
      OpGet ''b'' ''k'', OpSweep True, OpGet ''b'' ''l'', OpCreate ''b'' ''m'' ''u'', OpPart ''b'' ''m'' ''u'' 2 [Ok [3]],
      OpPart ''b'' ''m'' ''u'' 1 [Ok [1, 2]], OpSweep True, OpComplete ''b'' ''m'' ''u'', OpGet ''b'' ''m'']"

definition demo_run :: "Answer list \<times> files Site" where
  "demo_run = run_ops demo_tick_env (Fixed 2) 300 demo_history demo_user_site"

definition demo_answers :: "Answer list" where
  "demo_answers = [Done, Done, Body [1, 2, 3], Done, Done, NotFound, Done, Body [1, 2, 3], Done, Done, Done, Done, Done,
     Body [1, 2, 3]]"

lemma demo_run_facts: "run_ops demo_tick_env (Fixed 2) 300 demo_history demo_user_site = (demo_answers, snd demo_run)"
  "tick (snd demo_run) \<le> 1000"
proof -
  have "case demo_run of (rs, \<sigma>) \<Rightarrow> rs = demo_answers \<and> tick \<sigma> \<le> 1000" by code_simp
  then show "run_ops demo_tick_env (Fixed 2) 300 demo_history demo_user_site = (demo_answers, snd demo_run)"
    "tick (snd demo_run) \<le> 1000"
    by (simp_all add: demo_run_def split_beta prod_eq_iff)
qed

lemma demo_uploads: "\<forall>(cred, op) \<in> set demo_history. uploads_in (set demo_pieces) op"
  by (simp add: demo_history_def uploads_in_def payload_def demo_pieces_ok(1) sublist_code)

theorem requests_refine_spec_witness:
  "spec_run demo_crates (map snd demo_history) (abs_site (local_stored demo_crates ''/d'') demo_user_site) demo_answers
     (abs_site (local_stored demo_crates ''/d'') (snd demo_run))"
  using requests_refine_spec [OF demo_object_env demo_user_wf demo_uploads demo_run_facts]
  by (simp add: demo_tick_env_def local_env_def)

theorem requests_keep_site_wf_witness:
  "store_ok (st (snd demo_run)) \<and>
   compute_live_block_set (st (snd demo_run)) \<subseteq> {h. get_local_block_fid (st (snd demo_run)) h \<noteq> None}"
  using requests_keep_site_wf [OF demo_object_env demo_user_wf demo_uploads demo_run_facts] by blast

theorem requests_answered_witness:
  "fst (run_op demo_tick_env (Fixed 2) 300 (Some ''AK'') (OpPut ''b'' ''k'' (map Ok [[1], [2, 3]])) demo_user_site) = Done \<and>
   fst (run_op demo_tick_env (Fixed 2) 300 (Some ''AK'') (OpGet ''b'' ''k'') demo_user_site) = NotFound \<and>
   fst (run_op demo_tick_env (Fixed 2) 300 (Some ''AK'') (OpDelete ''b'' ''k'') demo_user_site) = Done"
proof -
  have "get_user demo_crates (st demo_user_site) ''AK'' = Ok (Some (''SK'', admin_policy))" by code_simp
  then have "authorize demo_crates (st demo_user_site) (Some ''AK'') a b k = None" for a b k
    by (simp add: authorize_def is_allowed_def admin_policy_def stmt_matches_def)
  moreover have "fst (blob_put demo_tick_env n h d b) \<noteq> Err" for n h d b
    by (simp add: demo_tick_env_def local_env_def local_put_def demo_io_def Let_def)
  moreover have "reads_ok demo_tick_env (local_stored demo_crates ''/d'') b" for b
    using demo_env_ok(4) [of b] by (simp add: reads_ok_def demo_tick_env_def demo_env_def local_env_def)
  moreover have "check_writable (disk_guard demo_user_site) = None"
    by (simp add: demo_user_site_def check_writable_def guard_check_def guard_disabled_def)
  moreover have "get_object (st demo_user_site) ''b'' ''k'' = None" by code_simp
  then have "sp_objects (abs_site (local_stored demo_crates ''/d'') demo_user_site) (''b'', ''k'') = None"
    by (simp add: get_object_abs)
  moreover have "crates demo_tick_env = demo_crates" by (simp add: demo_tick_env_def local_env_def)
  ultimately show ?thesis
    using requests_answered [OF demo_object_env demo_user_wf, of "Some ''AK''" "''b''" "''k''" 300 "[[1], [2, 3]]"]
    by simp
qed

end
