(* ===== verification/Size_Bounds.thy ===== *)
theory Size_Bounds
  imports Disk Complex_Main
begin

text \<open>
  How exactly sizes are read and printed: the error of one rounding to \<^verbatim>\<open>f64\<close> over the reals, whole numbers below
  \<open>2\<^sup>5\<^sup>3\<close> as exact values, and from these the accuracy of \<open>parse_size\<close>, its round trip with \<open>format_bytes\<close> and the
  limits of the disk guard of \<open>Disk\<close>.
\<close>

section \<open>Rounding\<close>

lemma bit_length_bounds: "0 < n \<Longrightarrow> 2 ^ (bit_length n - 1) \<le> n \<and> n < 2 ^ bit_length n \<and> 0 < bit_length n"
proof (induction n rule: bit_length.induct)
  case (1 n)
  show ?case
  proof (cases "n = 1")
    case True
    then show ?thesis by (simp add: bit_length.simps)
  next
    case False
    with 1 have ih: "2 ^ (bit_length (n div 2) - 1) \<le> n div 2" "n div 2 < 2 ^ bit_length (n div 2)" "0 < bit_length (n div 2)"
      by simp_all
    have l: "bit_length n = Suc (bit_length (n div 2))" using 1(2) by (subst bit_length.simps) simp
    have "2 ^ bit_length (n div 2) = 2 * (2 :: int) ^ (bit_length (n div 2) - 1)"
      using ih(3) by (cases "bit_length (n div 2)") simp_all
    with ih show ?thesis by (simp add: l) linarith
  qed
qed

definition ratio :: "int \<times> int \<Rightarrow> real" where
  "ratio p = of_int (fst p) / of_int (snd p)"

definition real_of_f64 :: "int \<Rightarrow> int \<Rightarrow> real" where
  "real_of_f64 m e = of_int m * 2 powi e"

lemma scale2_pos: "0 < snd p \<Longrightarrow> 0 < snd (scale2 e p)"
  by (simp add: scale2_def)

lemma scale2_ratio: "ratio (scale2 e p) = ratio p * 2 powi e"
  by (simp add: scale2_def ratio_def power_int_def power_one_over field_simps)

lemma fraction_ratio: "ratio (fraction m e) = real_of_f64 m e"
  by (simp add: fraction_def scale2_ratio real_of_f64_def) (simp add: ratio_def)

lemma fraction_pos: "0 < snd (fraction m e)"
  by (simp add: fraction_def scale2_pos)

lemma round_half_even_twice:
  assumes "0 < b"
  shows "\<bar>2 * (b * round_half_even a b - a)\<bar> \<le> b"
proof -
  define q r where "q = a div b" and "r = a mod b"
  have a: "a = b * q + r" by (simp add: q_def r_def)
  have r: "0 \<le> r" "r < b" using assms by (simp_all add: r_def)
  have "round_half_even a b = (if 2 * r < b \<or> 2 * r = b \<and> even q then q else q + 1)"
    by (simp add: round_half_even_def q_def r_def Let_def)
  then show ?thesis using r by (auto simp: a algebra_simps)
qed

lemma round_half_even_error:
  assumes "0 < b"
  shows "\<bar>of_int (round_half_even a b) - ratio (a, b)\<bar> \<le> 1 / 2"
proof -
  have "\<bar>of_int (2 * (b * round_half_even a b - a))\<bar> \<le> (of_int b :: real)"
    using round_half_even_twice [OF assms, of a] by linarith
  moreover have "of_int (2 * (b * round_half_even a b - a)) = 2 * of_int b * (of_int (round_half_even a b) - ratio (a, b))"
    using assms by (simp add: ratio_def right_diff_distrib)
  ultimately have "2 * of_int b * \<bar>of_int (round_half_even a b) - ratio (a, b)\<bar> \<le> (of_int b :: real)"
    using assms by (simp only: abs_mult)
  then show ?thesis using assms by simp
qed

lemma round_half_even_whole: "0 < b \<Longrightarrow> round_half_even (n * b) b = n"
  by (simp add: round_half_even_def)

lemma round_half_even_nonneg: "0 \<le> a \<Longrightarrow> 0 < b \<Longrightarrow> 0 \<le> round_half_even a b"
  by (simp add: round_half_even_def Let_def pos_imp_zdiv_nonneg_iff)

lemma log2_floor_le:
  assumes "0 < fst p" "0 < snd p"
  shows "2 powi log2_floor p \<le> ratio p"
proof -
  define e where "e = int (bit_length (fst p)) - int (bit_length (snd p))"
  define q where "q = scale2 (- e) p"
  have q: "0 < snd q" "ratio q = ratio p * 2 powi (- e)" by (simp_all add: q_def scale2_pos assms scale2_ratio)
  show ?thesis
  proof (cases "snd q \<le> fst q")
    case True
    with q(1) have "1 \<le> ratio q" by (simp add: ratio_def)
    then have "1 \<le> ratio p * 2 powi (- e)" by (simp only: q(2))
    then have "2 powi e \<le> ratio p" by (simp add: power_int_minus field_simps)
    moreover have "log2_floor p = e" using True by (simp add: log2_floor_def e_def q_def Let_def)
    ultimately show ?thesis by simp
  next
    case False
    note la = bit_length_bounds [OF assms(1)] and lb = bit_length_bounds [OF assms(2)]
    have "(2 :: real) powi (e - 1) = 2 ^ (bit_length (fst p) - 1) / 2 ^ bit_length (snd p)"
      using la by (simp add: e_def power_int_diff power_int_add of_nat_diff power_diff)
    also have "\<dots> \<le> of_int (fst p) / of_int (snd p)"
    proof (rule frac_le)
      show "(2 :: real) ^ (bit_length (fst p) - 1) \<le> of_int (fst p)" using la by (metis of_int_le_iff of_int_numeral of_int_power)
      show "(of_int (snd p) :: real) \<le> 2 ^ bit_length (snd p)"
        using lb by (metis less_imp_le of_int_le_iff of_int_numeral of_int_power)
    qed (use assms in simp_all)
    finally show ?thesis using False by (simp add: log2_floor_def e_def q_def Let_def ratio_def)
  qed
qed

lemma powi_minus: "(2 :: real) powi (- int k) = 1 / 2 ^ k"
  by (simp add: power_int_minus inverse_eq_divide)

lemmas powi_53 = powi_minus [of 53, unfolded of_nat_numeral]
lemmas powi_150 = powi_minus [of 150, unfolded of_nat_numeral]

lemma powi_tiny: "(2 :: real) powi (- 1075) \<le> 1 / 2 ^ 150"
proof -
  have "(2 :: real) powi (- 1075) \<le> 2 powi (- 150)" by (rule power_int_increasing) simp_all
  then show ?thesis by (simp only: powi_150)
qed

text \<open>One rounding: half a unit in the last place.\<close>

lemma f64_of_fraction_error:
  assumes "0 \<le> fst p" "0 < snd p" "f64_of_fraction p = Finite m e"
  shows "0 \<le> m \<and> \<bar>real_of_f64 m e - ratio p\<bar> \<le> ratio p / 2 ^ 53 + 1 / 2 ^ 150"
proof (cases "fst p = 0")
  case True
  with assms show ?thesis by (auto simp: f64_of_fraction_def real_of_f64_def ratio_def)
next
  case False
  with assms have pos: "0 < fst p" by simp
  define q where "q = scale2 (- e) p"
  have e: "e = max (log2_floor p - 52) (- 1074)" and m: "m = round_half_even (fst q) (snd q)"
    using assms(3) False by (auto simp: f64_of_fraction_def q_def Let_def split: if_splits)
  have q: "0 < snd q" "0 \<le> fst q" "ratio q = ratio p * 2 powi (- e)"
    using assms by (simp_all add: q_def scale2_pos scale2_ratio) (simp add: scale2_def)
  have half: "\<bar>of_int m - ratio q\<bar> \<le> 1 / 2" using round_half_even_error [OF q(1), of "fst q"] by (simp add: m)
  have "real_of_f64 m e - ratio p = (of_int m - ratio q) * 2 powi e"
    by (simp add: q real_of_f64_def algebra_simps power_int_minus)
  then have "\<bar>real_of_f64 m e - ratio p\<bar> = \<bar>of_int m - ratio q\<bar> * 2 powi e" by (simp add: abs_mult)
  also have "\<dots> \<le> 1 / 2 * 2 powi e" using half by (intro mult_right_mono) simp_all
  also have "\<dots> \<le> ratio p * 2 powi (- 53) + 2 powi (- 1075)"
  proof (cases "e = - 1074")
    case True
    have "0 \<le> ratio p" using assms by (simp add: ratio_def)
    moreover have "(1 :: real) / 2 * 2 powi (- 1074) = 2 powi (- 1075)"
      using power_int_add [of "2 :: real" "- 1" "- 1074"] by simp
    ultimately show ?thesis by (simp add: True)
  next
    case False
    have "(1 :: real) / 2 * 2 powi e = 2 powi log2_floor p * 2 powi (- 53)"
      using False power_int_add [of "2 :: real" "- 1" e] power_int_add [of "2 :: real" "log2_floor p" "- 53"] by (auto simp: e)
    also have "\<dots> \<le> ratio p * 2 powi (- 53)" using log2_floor_le [OF pos assms(2)] by (intro mult_right_mono) simp_all
    finally show ?thesis by (simp add: add_increasing2)
  qed
  also have "\<dots> \<le> ratio p / 2 ^ 53 + 1 / 2 ^ 150" unfolding powi_53 times_divide_eq_right mult_1_right
    by (intro add_left_mono powi_tiny)
  finally show ?thesis using round_half_even_nonneg [OF q(2,1)] by (simp add: m)
qed

text \<open>Whole numbers below \<open>2\<^sup>5\<^sup>3\<close> are exact.\<close>

definition exact :: "int \<Rightarrow> f64 \<Rightarrow> bool" where
  "exact n x \<longleftrightarrow> (\<exists>j. x = Finite (n * 2 ^ j) (- int j))"

lemma fraction_exact:
  "fst (fraction (n * 2 ^ j) (- int j)) = n * snd (fraction (n * 2 ^ j) (- int j))"
  by (simp add: fraction_def scale2_def)

lemma log2_floor_whole:
  assumes "0 < n" "n < 2 ^ 53" "0 < b"
  shows "log2_floor (n * b, b) \<le> 52"
proof -
  have "2 powi log2_floor (n * b, b) \<le> (of_int n :: real)"
    using log2_floor_le [of "(n * b, b)"] assms by (simp add: ratio_def)
  also have "\<dots> < 2 powi 53" using assms(2) by simp
  finally have "log2_floor (n * b, b) < 53" using power_int_increasing [of 53 "log2_floor (n * b, b)" "2 :: real"] by linarith
  then show ?thesis by simp
qed

lemma f64_of_whole:
  assumes "0 \<le> n" "n < 2 ^ 53" "0 < b"
  shows "exact n (f64_of_fraction (n * b, b))"
proof (cases "n = 0")
  case True
  then show ?thesis by (auto simp: exact_def f64_of_fraction_def intro: exI [of _ 0])
next
  case False
  define e where "e = max (log2_floor (n * b, b) - 52) (- 1074)"
  define j where "j = nat (- e)"
  have e: "e = - int j" using log2_floor_whole [of n b] assms False by (simp add: e_def j_def)
  have q: "scale2 (- e) (n * b, b) = (n * 2 ^ j * b, b)" by (simp add: e scale2_def)
  have "n < 2 ^ 1024" using assms(2) by simp
  then have "\<not> (0 \<le> e \<and> 2 ^ 1024 \<le> n * 2 ^ j * 2 ^ nat e)" by (auto simp: e)
  then have "f64_of_fraction (n * b, b) = Finite (n * 2 ^ j) e"
    using False assms(3) by (simp add: f64_of_fraction_def e_def [symmetric] q round_half_even_whole Let_def)
  then show ?thesis by (auto simp: exact_def e)
qed

lemma f64_to_u64_range: "f64_of_fraction p = x \<Longrightarrow> 0 \<le> fst p \<Longrightarrow> 0 < snd p \<Longrightarrow> 0 \<le> f64_to_u64 x \<and> f64_to_u64 x < 2 ^ 64"
  using f64_of_fraction_error [of p] fraction_pos
  by (auto simp: f64_to_u64_def fraction_def scale2_def pos_imp_zdiv_nonneg_iff split: f64.split)

text \<open>Infinity stands for numbers far beyond the largest size.\<close>

lemma f64_infinite:
  assumes "0 \<le> fst p" "0 < snd p" "f64_of_fraction p = Infinity"
  shows "2 ^ 70 \<le> ratio p"
proof -
  define e where "e = max (log2_floor p - 52) (- 1074)"
  define q where "q = scale2 (- e) p"
  define m where "m = round_half_even (fst q) (snd q)"
  have e: "0 \<le> e" "2 ^ 1024 \<le> m * 2 ^ nat e"
    using assms(3) by (auto simp: f64_of_fraction_def Let_def e_def q_def m_def split: if_splits)
  have q: "0 < snd q" "ratio q = ratio p * 2 powi (- e)" using assms by (simp_all add: q_def scale2_pos scale2_ratio)
  have "\<bar>of_int m - ratio q\<bar> \<le> 1 / 2" using round_half_even_error [OF q(1), of "fst q"] by (simp add: m_def)
  moreover have "0 < m" using e(2) by (smt (verit) mult_nonpos_nonneg zero_le_power zero_less_power)
  ultimately have "of_int m \<le> 2 * ratio q" by linarith
  then have "of_int m * 2 ^ nat e \<le> 2 * ratio q * (2 :: real) ^ nat e" by simp
  also have "\<dots> = 2 * ratio p" using e(1) by (simp add: q power_int_def power_one_over field_simps)
  finally have "of_int (m * 2 ^ nat e) \<le> 2 * ratio p" by simp
  moreover have "of_int (2 ^ 1024) \<le> (of_int (m * 2 ^ nat e) :: real)" using e(2) by (simp only: of_int_le_iff)
  moreover have "(2 :: real) ^ 71 \<le> of_int (2 ^ 1024)" using power_increasing [of 71 1024 "2 :: real"] by simp
  ultimately have "2 ^ 71 \<le> 2 * ratio p" by linarith
  then show ?thesis by simp
qed

text \<open>The two roundings of \<^verbatim>\<open>parse_size\<close> and the truncation.\<close>

lemma f64_to_u64_floor: "f64_to_u64 (Finite m e) = min (2 ^ 64 - 1) \<lfloor>real_of_f64 m e\<rfloor>"
  by (simp add: f64_to_u64_def fraction_ratio [symmetric] ratio_def floor_divide_of_int_eq)

lemma clamp_close:
  fixes x y z :: real
  assumes "0 \<le> x" "0 \<le> z" "z \<le> y" "y < z + 1" "\<bar>y - x\<bar> \<le> x / 2 ^ 52 + x / 2 ^ 100 + 1 / 2 ^ 100" "1 < M"
  shows "\<bar>min M z - min M x\<bar> \<le> 1 + min M x / 2 ^ 51"
proof -
  have y: "y \<le> x + (x / 2 ^ 52 + x / 2 ^ 100 + 1 / 2 ^ 100)" "x - (x / 2 ^ 52 + x / 2 ^ 100 + 1 / 2 ^ 100) \<le> y"
    using assms(5) by linarith+
  have up: "z \<le> x + 1 + x / 2 ^ 51" using y(1) assms(1,3) by simp
  have low: "x - 1 - x / 2 ^ 51 \<le> z"
  proof (cases "x \<le> 1")
    case True
    then show ?thesis using assms(1,2) by simp
  next
    case False
    then show ?thesis using y(2) assms(4) by simp
  qed
  show ?thesis
  proof (cases "x \<le> M")
    case True
    then show ?thesis using up low assms(1) by (simp add: min_def abs_le_iff)
  next
    case False
    then have "M - 1 - M / 2 ^ 51 \<le> z" using low by simp
    with False show ?thesis using assms(6) by (simp add: min_def)
  qed
qed

lemma truncate_close:
  fixes x y :: real
  assumes "0 \<le> x" "0 \<le> y" "\<bar>y - x\<bar> \<le> x / 2 ^ 52 + x / 2 ^ 100 + 1 / 2 ^ 100"
  shows "\<bar>of_int (min (2 ^ 64 - 1) \<lfloor>y\<rfloor>) - min (2 ^ 64 - 1) x\<bar> \<le> 1 + min (2 ^ 64 - 1) x / 2 ^ 51"
  using clamp_close [OF assms(1) _ _ _ assms(3), of "of_int \<lfloor>y\<rfloor>" "2 ^ 64 - 1"] assms(2) by (simp add: of_int_min)

lemma two_roundings:
  fixes x v w c :: real
  assumes "0 \<le> x" "1 \<le> c" "c \<le> 2 ^ 40" "\<bar>v - x\<bar> \<le> x / 2 ^ 53 + 1 / 2 ^ 150" "0 \<le> v"
    and "\<bar>w - v * c\<bar> \<le> v * c / 2 ^ 53 + 1 / 2 ^ 150"
  shows "\<bar>w - x * c\<bar> \<le> x * c / 2 ^ 52 + x * c / 2 ^ 100 + 1 / 2 ^ 100"
proof -
  have "\<bar>v - x\<bar> * c \<le> (x / 2 ^ 53 + 1 / 2 ^ 150) * c" using assms(2,4) by (intro mult_right_mono) simp_all
  moreover have "\<bar>v * c - x * c\<bar> = \<bar>v - x\<bar> * c" using assms(2) by (simp add: abs_mult left_diff_distrib [symmetric])
  moreover have "(x / 2 ^ 53 + 1 / 2 ^ 150) * c = x * c / 2 ^ 53 + c / 2 ^ 150" by (simp add: field_simps)
  ultimately have vc: "\<bar>v * c - x * c\<bar> \<le> x * c / 2 ^ 53 + 1 / 2 ^ 110" using assms(3) by simp
  have "0 \<le> x * c" using assms(1,2) by simp
  moreover have "v * c \<le> x * c + (x * c / 2 ^ 53 + 1 / 2 ^ 110)" using vc by linarith
  ultimately show ?thesis using vc assms(6) by (simp add: abs_le_iff)
qed

lemma f64_product_close:
  assumes "0 \<le> n" "0 < d" "1 \<le> c" "c \<le> 2 ^ 40"
  defines "x \<equiv> of_int n / of_int d * of_int c :: real"
  shows "\<bar>of_int (f64_to_u64 (f64_mult (f64_of_fraction (n, d)) c)) - min (2 ^ 64 - 1) x\<bar> \<le> 1 + min (2 ^ 64 - 1) x / 2 ^ 51"
proof (cases "f64_of_fraction (n, d)")
  case Infinity
  have "2 ^ 70 \<le> (of_int n / of_int d :: real)" using f64_infinite [of "(n, d)"] Infinity assms(1,2) by (simp add: ratio_def)
  also have "\<dots> \<le> x" using assms mult_left_mono [of 1 "of_int c :: real" "of_int n / of_int d"] by (simp add: x_def)
  finally show ?thesis using Infinity by (simp add: f64_mult_def f64_to_u64_def min_def)
next
  case (Finite m e)
  have v: "0 \<le> m" "\<bar>real_of_f64 m e - of_int n / of_int d\<bar> \<le> of_int n / of_int d / 2 ^ 53 + 1 / 2 ^ 150"
    using f64_of_fraction_error [of "(n, d)" m e] Finite assms(1,2) by (simp_all add: ratio_def)
  define p where "p = (fst (fraction m e) * c, snd (fraction m e))"
  have p: "0 \<le> fst p" "0 < snd p" "ratio p = real_of_f64 m e * of_int c"
    using v(1) assms(3) fraction_pos [of m e] by (simp_all add: p_def ratio_def flip: fraction_ratio) (simp add: fraction_def scale2_def)
  have times: "f64_mult (f64_of_fraction (n, d)) c = f64_of_fraction p" by (simp add: f64_mult_def Finite p_def)
  have x0: "0 \<le> x" "0 \<le> real_of_f64 m e" "0 \<le> real_of_f64 m e * of_int c"
    using assms v(1) by (simp_all add: x_def real_of_f64_def)
  have c: "1 \<le> (of_int c :: real)" "of_int c \<le> (2 :: real) ^ 40" "0 \<le> (of_int n / of_int d :: real)"
    using assms by (simp_all add: of_int_le_numeral_power_cancel_iff)
  note close = two_roundings [OF c(3,1,2) v(2) x0(2), folded x_def]
  show ?thesis
  proof (cases "f64_of_fraction p")
    case Infinity
    have "\<bar>real_of_f64 m e * of_int c - x\<bar> \<le> x / 2 ^ 52 + x / 2 ^ 100 + 1 / 2 ^ 100" by (rule close) (use x0 in simp)
    moreover have "2 ^ 70 \<le> real_of_f64 m e * of_int c" using f64_infinite [OF p(1,2) Infinity] p(3) by simp
    ultimately have "2 ^ 64 - 1 \<le> x" using x0(1) by simp
    then show ?thesis using Infinity by (simp add: times f64_to_u64_def)
  next
    case (Finite m' e')
    have w: "0 \<le> m'" "\<bar>real_of_f64 m' e' - real_of_f64 m e * of_int c\<bar> \<le> real_of_f64 m e * of_int c / 2 ^ 53 + 1 / 2 ^ 150"
      using f64_of_fraction_error [OF p(1,2) Finite] by (simp_all add: p)
    from truncate_close [OF x0(1) _ close [OF w(2)]] w(1) show ?thesis
      by (simp only: times Finite f64_to_u64_floor) (simp add: real_of_f64_def)
  qed
qed

lemma exact_fraction:
  assumes "exact n x"
  obtains m e where "x = Finite m e" "fst (fraction m e) = n * snd (fraction m e)"
  using assms fraction_exact by (auto simp: exact_def)

lemma f64_mult_exact:
  assumes "exact n x" "0 \<le> n * c" "n * c < 2 ^ 53"
  shows "exact (n * c) (f64_mult x c)"
proof -
  obtain m e where x: "x = Finite m e" "fst (fraction m e) = n * snd (fraction m e)" using exact_fraction [OF assms(1)] .
  show ?thesis using f64_of_whole [OF assms(2,3) fraction_pos [of m e]] by (simp add: f64_mult_def x ac_simps)
qed

lemma f64_div_exact:
  assumes "exact (n * c) x" "0 \<le> n" "n < 2 ^ 53" "0 < c"
  shows "exact n (f64_div x c)"
proof -
  obtain m e where x: "x = Finite m e" "fst (fraction m e) = n * c * snd (fraction m e)" using exact_fraction [OF assms(1)] .
  have "0 < snd (fraction m e) * c" using assms(4) fraction_pos by simp
  from f64_of_whole [OF assms(2,3) this] show ?thesis by (simp add: f64_div_def x ac_simps)
qed

lemma f64_to_u64_exact: "exact n x \<Longrightarrow> n < 2 ^ 64 \<Longrightarrow> f64_to_u64 x = n"
  by (erule exact_fraction) (simp add: f64_to_u64_def less_imp_neq [OF fraction_pos, symmetric])

lemma f64_ge_exact: "exact n x \<Longrightarrow> f64_ge x c \<longleftrightarrow> c \<le> n"
  by (erule exact_fraction) (use fraction_pos in \<open>simp add: f64_ge_def\<close>)

section \<open>Texts of sizes\<close>

definition plain_char :: "char \<Rightarrow> bool" where
  "plain_char c \<longleftrightarrow> c = CHR ''.'' \<or> digit_value c \<noteq> None \<or> 65 \<le> byte_of c \<and> byte_of c \<le> 90 \<or> 97 \<le> byte_of c \<and> byte_of c \<le> 122"

lemma whitespace_not_plain: "list_all (\<lambda>w. \<not> plain_char (hd w) \<and> \<not> plain_char (last w)) whitespace"
  by code_simp

lemma trim_front_plain:
  assumes "s = [] \<or> plain_char (hd s)" "list_all (\<lambda>w. \<not> plain_char (hd w)) ws"
  shows "trim_front ws s = s"
proof -
  have "find (\<lambda>w. w \<noteq> [] \<and> prefix w s) ws = None"
    using assms by (auto simp: find_None_iff list_all_iff prefix_def)
  then show ?thesis by (subst trim_front.simps) simp
qed

lemma trim_text_plain: "s = [] \<or> plain_char (hd s) \<and> plain_char (last s) \<Longrightarrow> trim_text s = s"
  using whitespace_not_plain
  by (auto simp: trim_text_def trim_front_plain list_all_iff hd_rev last_rev)

lemma size_units_lower: "list_all (\<lambda>(k, c). list_all (\<lambda>x. 97 \<le> byte_of x \<and> byte_of x \<le> 122) k \<and> 1 \<le> c \<and> c \<le> 2 ^ 40) size_units"
  by code_simp

lemma size_unit_letters:
  assumes "map_of size_units (to_ascii_lowercase u) = Some c"
  shows "1 \<le> c" "c \<le> 2 ^ 40" "\<And>x. x \<in> set u \<Longrightarrow> 65 \<le> byte_of x \<and> byte_of x \<le> 90 \<or> 97 \<le> byte_of x \<and> byte_of x \<le> 122"
proof -
  have u: "list_all (\<lambda>x. 97 \<le> byte_of x \<and> byte_of x \<le> 122) (to_ascii_lowercase u)" "1 \<le> c" "c \<le> 2 ^ 40"
    using map_of_SomeD [OF assms] size_units_lower by (auto simp: list_all_iff)
  then show "1 \<le> c" "c \<le> 2 ^ 40" by simp_all
  show "65 \<le> byte_of x \<and> byte_of x \<le> 90 \<or> 97 \<le> byte_of x \<and> byte_of x \<le> 122" if "x \<in> set u" for x
    using u(1) that by (auto simp: to_ascii_lowercase_def list_all_iff split: if_splits)
qed

text \<open>A number with digits \<open>w\<close> before and \<open>f\<close> after the dot; the dot may be missing when \<open>f\<close> is empty.\<close>

definition number_text :: "string \<Rightarrow> string \<Rightarrow> string \<Rightarrow> bool" where
  "number_text w f num \<longleftrightarrow> num = w @ ''.'' @ f \<or> f = [] \<and> num = w"

lemma parse_digits_digits: "parse_digits acc s = Some n \<Longrightarrow> c \<in> set s \<Longrightarrow> digit_value c \<noteq> None"
  by (induction acc s rule: parse_digits.induct) (auto split: option.splits)

lemma dot_no_digit [simp]: "digit_value (CHR ''.'') = None"
  by (simp add: digit_value_def)

lemma number_text_numeric:
  assumes "number_text w f num" "parse_nat (w @ f) = Some n"
  shows "num \<noteq> []" "\<And>c. c \<in> set num \<Longrightarrow> digit_value c \<noteq> None \<or> c = CHR ''.''" "\<And>c. c \<in> set w \<Longrightarrow> c \<noteq> CHR ''.''"
proof -
  have d: "digit_value c \<noteq> None" if "c \<in> set (w @ f)" for c
    using assms(2) that parse_digits_digits by (auto simp: parse_nat_def split: if_splits)
  show "num \<noteq> []" using assms by (auto simp: number_text_def parse_nat_def)
  show "digit_value c \<noteq> None \<or> c = CHR ''.''" if "c \<in> set num" for c
    using d that assms(1) by (auto simp: number_text_def)
  show "c \<noteq> CHR ''.''" if "c \<in> set w" for c using d [of c] that by auto
qed

lemma parse_f64_number:
  assumes "number_text w f num" "parse_nat (w @ f) = Some n"
  shows "parse_f64 num = Some (f64_of_fraction (int n, 10 ^ length f))"
proof -
  have "takeWhile (\<lambda>c. c \<noteq> CHR ''.'') num = w" "drop 1 (dropWhile (\<lambda>c. c \<noteq> CHR ''.'') num) = f"
    using assms(1) number_text_numeric(3) [OF assms]
    by (auto simp: number_text_def takeWhile_append2 dropWhile_append2 takeWhile_eq_all_conv dropWhile_eq_Nil_conv [THEN iffD2])
  then show ?thesis by (simp add: parse_f64_def assms(2))
qed

lemma parse_size_number:
  assumes "number_text w f num" "parse_nat (w @ f) = Some n" "map_of size_units (to_ascii_lowercase u) = Some c"
  shows "parse_size (num @ u) = Ok (f64_to_u64 (f64_mult (f64_of_fraction (int n, 10 ^ length f)) c))"
proof -
  note num = number_text_numeric [OF assms(1,2)] and u = size_unit_letters(3) [OF assms(3)]
  have plain: "plain_char x" if "x \<in> set num \<or> x \<in> set u" for x using num(2) u that by (auto simp: plain_char_def)
  have trims: "trim_text (num @ u) = num @ u" "trim_text u = u"
    using num(1) plain by (auto intro!: trim_text_plain simp: last_append)
  have "\<not> (digit_value x \<noteq> None \<or> x = CHR ''.'')" if "x \<in> set u" for x
    using u [OF that] by (auto simp: digit_value_def split: if_splits)
  then have "takeWhile (\<lambda>c. digit_value c \<noteq> None \<or> c = CHR ''.'') (num @ u) = num"
    "dropWhile (\<lambda>c. digit_value c \<noteq> None \<or> c = CHR ''.'') (num @ u) = u"
    using num(2) by (cases u; simp add: takeWhile_append2 dropWhile_append2)+
  then show ?thesis using num(1) by (simp add: parse_size_def trims parse_f64_number [OF assms(1,2)] assms(3))
qed

lemma unit_loop_whole:
  assumes "exact (k * 1024 ^ j) x" "0 < k" "k < 1024" "j \<le> left" "left \<le> 4"
  shows "\<exists>y. unit_loop left x u = (y, u + j) \<and> exact k y"
  using assms
proof (induction left arbitrary: j x u)
  case 0
  then show ?case by simp
next
  case (Suc left)
  show ?case
  proof (cases j)
    case 0
    with Suc.prems show ?thesis by (simp add: f64_ge_exact)
  next
    case (Suc i)
    have "(1024 :: int) ^ i \<le> 1024 ^ 4" by (rule power_increasing) (use Suc Suc.prems in simp_all)
    then have b: "k * 1024 ^ i < 2 ^ 53" using Suc.prems(2,3) mult_mono [of k 1023 "1024 ^ i" "1024 ^ 4 :: int"] by simp
    have "1 * 1 \<le> k * 1024 ^ i" using Suc.prems(2) by (intro mult_mono) simp_all
    then have "f64_ge x 1024" using Suc.prems(1) Suc by (simp add: f64_ge_exact)
    moreover have "exact (k * 1024 ^ i) (f64_div x 1024)"
      using f64_div_exact [of "k * 1024 ^ i" 1024 x] Suc.prems(1,2) b Suc by (simp add: ac_simps)
    ultimately show ?thesis using Suc.IH [of i "f64_div x 1024" "u + 1"] Suc.prems Suc by simp
  qed
qed

lemma show_nat_0: "show_nat 0 = ''0''"
  by code_simp

lemma show_tenths_exact:
  assumes "exact k y" "0 \<le> k"
  shows "show_tenths y = show_nat (nat k) @ ''.0''"
proof -
  obtain m e where y: "y = Finite m e" "fst (fraction m e) = k * snd (fraction m e)" using exact_fraction [OF assms(1)] .
  have "round_half_even (10 * k * snd (fraction m e)) (snd (fraction m e)) = 10 * k"
    by (rule round_half_even_whole) (rule fraction_pos)
  then show ?thesis using assms(2) by (simp add: show_tenths_def y mult.assoc nat_mult_distrib show_nat_0)
qed

lemma UNITS_length: "length UNITS = 5"
  by (simp add: UNITS_def)

lemma UNITS_size: "j \<le> 4 \<Longrightarrow> map_of size_units (to_ascii_lowercase (UNITS ! j)) = Some (1024 ^ j)"
proof -
  have "list_all (\<lambda>j. map_of size_units (to_ascii_lowercase (UNITS ! j)) = Some (1024 ^ j)) [0, 1, 2, 3, 4]" by code_simp
  moreover assume "j \<le> 4"
  then have "j = 0 \<or> j = 1 \<or> j = 2 \<or> j = 3 \<or> j = 4" by linarith
  ultimately show ?thesis by auto
qed

lemma parse_nat_tenfold: "parse_nat (show_nat n @ ''0'') = Some (10 * n)"
  by (simp add: parse_nat_def parse_digits_snoc) (simp add: digit_value_def)

lemma parse_size_whole:
  assumes "number_text w f num" "parse_nat (w @ f) = Some n" "int n = k * 10 ^ length f" "j \<le> 4" "0 \<le> k" "k < 1024"
  shows "parse_size (num @ UNITS ! j) = Ok (k * 1024 ^ j)"
proof -
  have "(1024 :: int) ^ j \<le> 1024 ^ 4" by (rule power_increasing) (use assms(4) in simp_all)
  then have b: "k * 1024 ^ j < 2 ^ 53" using assms(5,6) mult_mono [of k 1023 "1024 ^ j" "1024 ^ 4 :: int"] by simp
  have "exact k (f64_of_fraction (int n, 10 ^ length f))" unfolding assms(3) by (rule f64_of_whole) (use assms in simp_all)
  from f64_to_u64_exact [OF f64_mult_exact [OF this _ b]] b assms(5)
  show ?thesis by (simp add: parse_size_number [OF assms(1,2) UNITS_size [OF assms(4)]])
qed

section \<open>Properties\<close>

lemma parse_size_range:
  assumes "parse_size s = Ok v"
  shows "0 \<le> v \<and> v < 2 ^ 64"
proof -
  obtain n c d where v: "v = f64_to_u64 (f64_mult (f64_of_fraction (int n, 10 ^ d)) c)" and "1 \<le> c"
    using assms size_unit_letters(1)
    by (fastforce simp: parse_size_def parse_f64_def Let_def split: if_splits option.splits)
  show ?thesis
  proof (cases "f64_of_fraction (int n, 10 ^ d)")
    case (Finite m e)
    then have "0 \<le> m" using f64_of_fraction_error [of "(int n, 10 ^ d)" m e] by simp
    then have "0 \<le> fst (fraction m e) * c" using \<open>1 \<le> c\<close> by (simp add: fraction_def scale2_def)
    with fraction_pos [of m e] show ?thesis
      using f64_to_u64_range [OF refl, of "(fst (fraction m e) * c, snd (fraction m e))"] by (simp add: v Finite f64_mult_def)
  qed (simp add: v f64_mult_def f64_to_u64_def)
qed

lemma parse_size_exact:
  assumes "number_text w [] num" "parse_nat (w @ []) = Some n" "map_of size_units (to_ascii_lowercase u) = Some c"
    and "int n * c < 2 ^ 53"
  shows "parse_size (num @ u) = Ok (int n * c)"
proof -
  have c: "1 \<le> c" by (rule size_unit_letters(1) [OF assms(3)])
  then have "int n < 2 ^ 53" using assms(4) mult_left_mono [of 1 c "int n"] by simp
  from f64_mult_exact [OF f64_of_whole [OF _ this, of 1]] assms(4) c
  have "exact (int n * c) (f64_mult (f64_of_fraction (int n, 1)) c)" by simp
  from f64_to_u64_exact [OF this] assms(4) show ?thesis by (simp add: parse_size_number [OF assms(1-3)])
qed

text \<open>
  C31. Sizes are read to within a byte: a number with a known unit, in any case and with or without decimals,
  gives a size that fits 64 bits and differs from the written value by at most one byte and a relative error of
  \<open>2\<^sup>-\<^sup>5\<^sup>1\<close>, saturating at the largest size. A number written without decimals is read exactly when its value is
  below \<open>2\<^sup>5\<^sup>3\<close> bytes; with decimals the product may be rounded below a whole value.
\<close>

theorem parse_size_accurate:
  assumes "number_text w f num" "parse_nat (w @ f) = Some n" "map_of size_units (to_ascii_lowercase u) = Some c"
  defines "x \<equiv> of_nat n / 10 ^ length f * of_int c :: real"
  shows "\<exists>v. parse_size (num @ u) = Ok v \<and> 0 \<le> v \<and> v < 2 ^ 64 \<and>
    \<bar>of_int v - min (2 ^ 64 - 1) x\<bar> \<le> 1 + min (2 ^ 64 - 1) x / 2 ^ 51 \<and>
    (f = [] \<and> x < 2 ^ 53 \<longrightarrow> of_int v = x)"
proof (intro exI conjI impI)
  note p = parse_size_number [OF assms(1-3)] and c = size_unit_letters(1,2) [OF assms(3)]
  show "parse_size (num @ u) = Ok (f64_to_u64 (f64_mult (f64_of_fraction (int n, 10 ^ length f)) c))" by (rule p)
  then show "0 \<le> f64_to_u64 (f64_mult (f64_of_fraction (int n, 10 ^ length f)) c)"
    "f64_to_u64 (f64_mult (f64_of_fraction (int n, 10 ^ length f)) c) < 2 ^ 64"
    using parse_size_range by blast+
  show "\<bar>of_int (f64_to_u64 (f64_mult (f64_of_fraction (int n, 10 ^ length f)) c)) - min (2 ^ 64 - 1) x\<bar>
      \<le> 1 + min (2 ^ 64 - 1) x / 2 ^ 51"
    using f64_product_close [of "int n" "10 ^ length f" c] c by (simp add: x_def)
  assume f: "f = [] \<and> x < 2 ^ 53"
  then have "of_int (int n * c) < (of_int (2 ^ 53) :: real)" by (auto simp: x_def)
  then have "int n * c < 2 ^ 53" by (simp only: of_int_less_iff)
  with p parse_size_exact [of w num n u c] f assms(1-3)
  show "of_int (f64_to_u64 (f64_mult (f64_of_fraction (int n, 10 ^ length f)) c)) = x" by (auto simp: x_def)
qed

theorem parse_size_accurate_witness:
  "\<exists>v. parse_size ''10Gi'' = Ok v \<and> of_int v = (10 * 1024 ^ 3 :: real)"
proof -
  have "parse_nat (''10'' @ '''') = Some 10" "map_of size_units (to_ascii_lowercase ''Gi'') = Some (1024 ^ 3)" by code_simp+
  from parse_size_accurate [OF _ this, of "''10''"] show ?thesis by (auto simp: number_text_def)
qed

text \<open>
  C32. Sizes survive being printed and read again: fewer than 1024 of a unit, in bytes or any of the binary
  units that are printed, are read back exactly.
\<close>

theorem format_bytes_roundtrip:
  assumes "0 \<le> k" "k < 1024" "j \<le> 4"
  shows "parse_size (format_bytes (k * 1024 ^ j)) = Ok (k * 1024 ^ j)"
proof (cases "j = 0 \<or> k = 0")
  case True
  then have e: "0 \<le> k * 1024 ^ j" "k * 1024 ^ j < 1024" using assms by auto
  then have "exact (k * 1024 ^ j) (f64_of_fraction (k * 1024 ^ j, 1))" using f64_of_whole [of "k * 1024 ^ j" 1] by simp
  with e have "format_bytes (k * 1024 ^ j) = show_nat (nat (k * 1024 ^ j)) @ UNITS ! 0"
    by (simp add: format_bytes_def UNITS_def eval_nat_numeral f64_ge_exact show_int_def)
  with e parse_size_whole [of "show_nat (nat (k * 1024 ^ j))" "[]" "show_nat (nat (k * 1024 ^ j))" _ "k * 1024 ^ j" 0]
  show ?thesis by (simp add: number_text_def)
next
  case False
  have "(1024 :: int) ^ j \<le> 1024 ^ 4" by (rule power_increasing) (use assms in simp_all)
  then have "k * 1024 ^ j < 2 ^ 53" using assms mult_mono [of k 1023 "1024 ^ j" "1024 ^ 4 :: int"] by simp
  then have "exact (k * 1024 ^ j) (f64_of_fraction (k * 1024 ^ j, 1))" using f64_of_whole [of "k * 1024 ^ j" 1] assms(1) by simp
  from unit_loop_whole [OF this, of 4 0] False assms
  obtain y where "unit_loop 4 (f64_of_fraction (k * 1024 ^ j, 1)) 0 = (y, j)" "exact k y" by auto
  then have "format_bytes (k * 1024 ^ j) = (show_nat (nat k) @ ''.0'') @ UNITS ! j"
    using False assms(1) by (simp add: format_bytes_def UNITS_length show_tenths_exact)
  moreover have "parse_size ((show_nat (nat k) @ ''.0'') @ UNITS ! j) = Ok (k * 1024 ^ j)"
    using parse_size_whole [OF _ parse_nat_tenfold [of "nat k"], of "show_nat (nat k) @ ''.0''" k j] assms by (simp add: number_text_def)
  ultimately show ?thesis by simp
qed

theorem format_bytes_roundtrip_witness:
  "format_bytes (12 * 1024 ^ 3) = ''12.0Gi'' \<and> parse_size (format_bytes (12 * 1024 ^ 3)) = Ok (12 * 1024 ^ 3)"
proof
  show "format_bytes (12 * 1024 ^ 3) = ''12.0Gi''" by code_simp
qed (rule format_bytes_roundtrip, simp_all)

lemma limit_of_config_range: "0 \<le> limit_of_config cfg \<and> limit_of_config cfg \<le> u64_max"
  using parse_size_range by (fastforce simp: limit_of_config_def u64_max_def split: option.splits result.splits)

text \<open>
  A reserve of \<open>n\<close> units in the configuration is enforced to the byte: writes are refused exactly while the last
  reading of the free space is below it.
\<close>

theorem reserve_enforced:
  assumes "map_of size_units (to_ascii_lowercase u) = Some c" "0 < n" "int n * c < 2 ^ 53"
  shows "writes_allowed (guard_refresh (Ok free) (guard_from_config r (Some (show_nat n @ u)) None)) \<longleftrightarrow> int n * c \<le> free"
proof -
  have "number_text (show_nat n) [] (show_nat n)" "parse_nat (show_nat n @ []) = Some n" by (simp_all add: number_text_def)
  from parse_size_exact [OF this assms(1)] assms(3)
  have "parse_size (show_nat n @ u) = Ok (int n * c)" by simp
  moreover have "0 < int n * c" using assms(2) size_unit_letters(1) [OF assms(1)] by simp
  ultimately show ?thesis using show_nat_hd [of n]
    by (auto simp: writes_allowed_def guard_check_def guard_refresh_def guard_from_config_def limit_of_config_def split: result.split)
qed

theorem reserve_enforced_witness:
  "\<not> writes_allowed (guard_refresh (Ok 5) (guard_from_config Err (Some (show_nat 10 @ ''Gi'')) None))"
proof -
  have "map_of size_units (to_ascii_lowercase ''Gi'') = Some (1024 ^ 3)" by code_simp
  from reserve_enforced [OF this, of 10 5 Err] show ?thesis by simp
qed

end
