(* ===== verification/Spec2Isabelle.thy ===== *)
theory Spec2Isabelle
  imports Server Object_Refinement Size_Bounds
begin

text \<open>
  A verification development of \<^bold>\<open>shardscape\<close>, an object store with the S3 interface that runs at several sites
  without a coordinator (\<^verbatim>\<open>src/src/\<close>, Rust).

  \<^bold>\<open>The program.\<close> Each site has a metadata store in SQLite (\<^verbatim>\<open>store.rs\<close>), a byte store for content-addressed
  blocks and the S3 handlers (\<^verbatim>\<open>storage.rs\<close>), and an encrypted internal interface to the other sites
  (\<^verbatim>\<open>noise_transport.rs\<close>, \<^verbatim>\<open>main.rs\<close>). An upload is cut into chunks (\<^verbatim>\<open>chunking.rs\<close>), each chunk is stored under its
  digest, and the object's row lists the digests. Every local write also appends a fact to the site's own
  log. A background task pulls the logs of the peers page by page and applies the facts; rows carry the
  reading of the cluster clock (\<^verbatim>\<open>clock.rs\<close>) and a newer reading wins. Blocks follow on demand (a read
  fetches from a peer) or through the replication queue. A collector deletes local blocks that no manifest
  and no unfinished upload refers to, after a grace period, or at once when the disk guard (\<^verbatim>\<open>disk.rs\<close>)
  asks for it. Access keys carry policies (\<^verbatim>\<open>db.rs\<close>).

  \<^bold>\<open>How the code is modelled.\<close> A \<^verbatim>\<open>String\<close> is the list of its UTF-8 bytes as characters, \<^verbatim>\<open>Vec<u8>\<close> a list of \<^typ>\<open>8 word\<close>,
  \<^verbatim>\<open>i64\<close> and \<^verbatim>\<open>u64\<close> are integers with the wrap-around written out (\<open>wrap_i64\<close>, \<open>wrap_u64\<close>), an SQL table is an
  association list by primary key. An \<^verbatim>\<open>anyhow::Result\<close> is \<open>result\<close>, a panic is the value \<open>Panic\<close>, an S3 answer is
  \<open>reply\<close> (an answer, an error code, a panic, or a handler that never returns). The code outside the
  repository is a parameter: the record \<open>Crates\<close> (digests, hex, JSON, UUIDs, FastCDC), \<open>Snow\<close> and \<open>Handshake\<close> (the Noise cipher),
  \<open>Http\<close> (URIs, headers, JSON bodies), \<open>Weed\<close> (the SeaweedFS service), \<open>Tools\<close> (TOML, random bytes, key pairs) and \<open>Env\<close> (the system clock, the
  byte store behind the trait object, requests to peers, free space). What the code relies on of them are
  the named hypotheses \<open>hex_ok\<close>, \<open>json_ok\<close>, \<open>digest_ok\<close>, \<open>snow_ok\<close>, \<open>handshake_ok\<close>, \<open>toml_ok\<close>, \<open>http_ok\<close>, \<open>body_ok\<close>, \<open>weed_ok\<close> and the
  locale \<open>block_site\<close>; each has a concrete instance that the witnesses use. Calls to the surroundings are numbered by
  the site's counter \<open>tick\<close>, so two calls may answer differently.

  \<^bold>\<open>Theories and what they show.\<close>

  \<^item> \<open>Shardscape_Prelude\<close>: tables, bytes, wrap-around, \<open>run\<close>; \<open>Lww_Table\<close>: the locales \<open>lww_table\<close> (an update that keeps the
    newer row) and \<open>lww_replay\<close> (applying the same updates in any order), interpreted for every replicated table.
  \<^item> \<open>Clock\<close> (\<^verbatim>\<open>clock.rs\<close>, \<^verbatim>\<open>refresh_clock_offset\<close>): after a refresh the clock of a site differs from
    the peer's by less than 11 ms and half the asymmetry of the link, since the code keeps an offset that is at most
    10 ms off, and by less than 1 ms and half the asymmetry when it was further off before.
    \<open>Hashing\<close> (\<^verbatim>\<open>hashing.rs\<close>): a prefix range holds exactly the keys with the prefix, and for which prefixes the code
    panics. \<open>Policy\<close> (\<^verbatim>\<open>db.rs\<close>, the presets of \<^verbatim>\<open>main.rs\<close>): the evaluation loop against its specification.
    \<open>Decimal\<close>, \<open>Url_Text\<close>: numbers, queries and percent-decoding as text, with the round trip.
  \<^item> \<open>Chunking\<close> (\<^verbatim>\<open>chunking.rs\<close>): the locale \<open>chunking_strategy\<close>; chunking loses nothing and terminates exactly for positive sizes.
  \<^item> \<open>Externals\<close>, \<open>Store\<close>, \<open>Store_Props\<close> (\<^verbatim>\<open>store.rs\<close>): the tables and all operations on them, the invariant \<open>store_ok\<close>.
    \<open>Fact_Log\<close>, \<open>Sync\<close> (\<^verbatim>\<open>store.rs\<close>, \<^verbatim>\<open>sync_facts_once\<close>): a local write is its fact applied, replay in any order
    gives one state, the pulling loop returns. \<open>Cluster\<close>, \<open>Convergence\<close>: the cluster as a transition system, its invariant
    by rule induction, agreement of sites that have caught up when no two writes to one key
    carry the same timestamp, and what happens without: the sites keep different objects.
  \<^item> \<open>Size_Text\<close>, \<open>Disk\<close>, \<open>Size_Bounds\<close> (\<^verbatim>\<open>disk.rs\<close>): sizes as text over the binary floating point that the code computes with,
    the disk guard, and how exactly sizes are read, printed and enforced. \<open>Blob_Store\<close> (\<^verbatim>\<open>LocalBlob\<close>, the locale \<open>blob_store\<close>): a block file is the old one or complete whatever
    step fails. \<open>Seaweed\<close> (\<^verbatim>\<open>SeaweedBlob\<close>): what was stored is read back, over a service with the laws \<open>weed_ok\<close>.
    \<open>Block_Store\<close> (\<^verbatim>\<open>DistributedBlockStore\<close>, the locale \<open>block_site\<close>), \<open>GC\<close>, \<open>Replication\<close> (\<^verbatim>\<open>storage.rs\<close>): a sweep keeps every live
    block and deletes exactly the due orphans, draining the queue never loses a pull.
  \<^item> \<open>Ranges\<close>, \<open>Listing\<close>, \<open>S3_Objects\<close>, \<open>S3_Put_Get\<close>, \<open>S3_Multipart\<close> (\<^verbatim>\<open>storage.rs\<close>): the S3 handlers with their guards and error
    codes; what is put is what is read, whole, by range (against \<open>range_part\<close>, the meaning of a range) and in parts, a failed
    put changes nothing, and a delimited listing shows the first names in order (\<open>listing_names\<close>); its tokens may repeat.
  \<^item> \<open>Object_Spec\<close>, \<open>Object_Refinement\<close>: an object store as a specification (a map from keys to bytes and from open uploads
    to their parts, with the inductive steps \<open>spec_step\<close>), the abstraction \<open>abs_site\<close> of a site, its well-formedness \<open>site_wf\<close>, and
    the refinement: every history of requests and sweeps is a run of the specification.
  \<^item> \<open>Noise\<close> (\<^verbatim>\<open>noise_transport.rs\<close>): frames, handshake and the stream under partial reads and writes; what is
    read is a prefix of what was written. \<open>Config\<close> (\<^verbatim>\<open>config.rs\<close>, commands of \<^verbatim>\<open>main.rs\<close>): a site set up by \<^verbatim>\<open>init\<close> can be
    administered, a created key has the scope of its preset. \<open>Internal\<close> (\<^verbatim>\<open>main.rs\<close>, \<^verbatim>\<open>noise_fetch_block\<close>): the handler of
    internal requests and the requests of a site, composed: convergence, reads and gossip over the interface.
    \<open>Server\<close> (\<^verbatim>\<open>run_server\<close>, \<^verbatim>\<open>join\<close> and \<^verbatim>\<open>status\<close> of \<^verbatim>\<open>main.rs\<close>): starting a site, the bodies of its background tasks and the status
    text; a site that joins through a peer holds the peer's objects and credentials after its first pass, and a
    configuration file that cannot be read is replaced.

  \<^bold>\<open>Loops and bounds.\<close> Structural loops are total functions. The fixed-size chunker, the pulling loop and the scan
  of a delimited listing may run for ever and are partial functions into \<^typ>\<open>'a option\<close> in which not returning is \<^term>\<open>None\<close>; that they return is proved,
  with the exact condition for the chunker. No definition uses fuel. In \<open>Noise\<close> a socket is a finite list of
  answers to polls, and a poll after the last answer is pending; the laws of the cipher are stated for
  the next \<open>n\<close> messages, since Noise ends a session after a fixed number of messages.

  \<^bold>\<open>Not modelled.\<close> Concurrency inside one site: the operations of a request run one after the other on the site's
  state, and the two reads ahead of \<^verbatim>\<open>buffered(2)\<close> become a sequence. SQL statements do not fail. TCP, HTTP framing and
  timeouts are one function that answers or fails. Answers of the S3 handlers are without their
  timestamps. Argument parsing by clap, logging, listeners and timers
  have no result to state a property of; a background task is modelled by the body of its loop.
\<close>

end
